(* ===== verification/Prelude.thy ===== *)
theory Prelude
  imports Main "HOL-Library.Word"
begin

text \<open>
  Shared vocabulary of the HumanOS development: the C integer types, string literals as byte
  lists, little-endian words in byte memory, and the generic facts on words, bits, counting and
  loops that the component theories rely on.

  \<^item> \<open>u8\<close>, \<open>u16\<close>, \<open>u32\<close>, \<open>u64\<close> are the fixed-width C types; arithmetic on them wraps.
  \<^item> \<open>lit\<close> turns an Isabelle string literal into the bytes of the C literal (without the
    terminating NUL, which every consumer in the kernel only uses as the end marker).
  \<^item> \<open>frame_simps\<close> collects the facts "this operation leaves that variable alone".
\<close>

unbundle bit_operations_syntax

section \<open>Types\<close>

type_synonym u8 = "8 word"
type_synonym u16 = "16 word"
type_synonym u32 = "32 word"
type_synonym u64 = "64 word"

type_synonym bytes = "u8 list"

named_theorems frame_simps "an operation leaves a variable of another layer unchanged"
named_theorems single_bit "reading a single bit of a word built with the C bit operators"

section \<open>String literals\<close>

definition lit :: "string \<Rightarrow> bytes" where
  "lit s = map of_char s"

text \<open>The control characters the sources name with escapes.\<close>

abbreviation ch_nl :: u8 where
  "ch_nl \<equiv> 0x0A"

abbreviation ch_cr :: u8 where
  "ch_cr \<equiv> 0x0D"

abbreviation ch_bs :: u8 where
  "ch_bs \<equiv> 0x08"

abbreviation ch_tab :: u8 where
  "ch_tab \<equiv> 0x09"

abbreviation ch_sp :: u8 where
  "ch_sp \<equiv> 0x20"

abbreviation ch_quote :: u8 where
  "ch_quote \<equiv> 0x27"

section \<open>Bits of words\<close>

lemma bit_set_single [single_bit]:
  "bit ((w :: 'a :: len word) OR 2 ^ j) n \<longleftrightarrow> bit w n \<or> (n = j \<and> j < LENGTH('a))"
  by (auto simp add: bit_simps)

lemma bit_clear_single [single_bit]:
  "bit ((w :: 'a :: len word) AND NOT (2 ^ j)) n \<longleftrightarrow> bit w n \<and> n \<noteq> j"
  using bit_imp_le_length [of w n] by (auto simp add: bit_simps)

lemma and_single_bit_eq_0 [single_bit]:
  "w AND 2 ^ j = (0 :: 'a :: len word) \<longleftrightarrow> \<not> bit w j"
proof -
  have "bit (w AND 2 ^ j) n \<longleftrightarrow> n = j \<and> bit w j" for n
    using bit_imp_le_length [of w n] by (auto simp add: bit_simps)
  then show ?thesis
    using bit_eq_iff [of "w AND 2 ^ j" 0] by (auto dest: bit_imp_le_length)
qed

lemma word_neq_mask_ex_clear:
  "(w :: u32) \<noteq> 0xFFFFFFFF \<longleftrightarrow> (\<exists>j < 32. \<not> bit w j)"
proof -
  have "(0xFFFFFFFF :: u32) = mask 32"
    by (simp add: mask_eq_exp_minus_1)
  then have "w = 0xFFFFFFFF \<longleftrightarrow> (\<forall>j < 32. bit w j)"
    by (auto simp add: bit_eq_iff bit_mask_iff)
  then show ?thesis by auto
qed

lemma and_not_mask_eq: "(w :: 'a :: len word) AND NOT (mask n) = w - take_bit n w"
proof -
  have "(w AND NOT (mask n)) + take_bit n w = (w AND NOT (mask n)) OR take_bit n w"
    by (rule disjunctive_add) (auto simp add: bit_simps)
  also have "\<dots> = w" by (rule bit_word_eqI) (auto simp add: bit_simps)
  finally show ?thesis by (metis add_diff_cancel_right')
qed

section \<open>Words as naturals\<close>

lemma unat_add_no_wrap:
  "unat a + unat b < 2 ^ LENGTH('a) \<Longrightarrow> unat ((a :: 'a :: len word) + b) = unat a + unat b"
  by (simp add: unat_word_ariths)

lemma unat_mult_no_wrap:
  "unat a * unat b < 2 ^ LENGTH('a) \<Longrightarrow> unat ((a :: 'a :: len word) * b) = unat a * unat b"
  by (simp add: unat_word_ariths)

lemma unat_u32_less [simp]: "unat (a :: u32) < 4294967296"
  using unsigned_less [of a] by simp

lemma unat_minus_one_nz:
  "(a :: 'a :: len word) \<noteq> 0 \<Longrightarrow> unat (a - 1) = unat a - 1"
  by (simp add: unat_minus_one)

lemma unat_plus_one_no_wrap:
  "unat a < 2 ^ LENGTH('a) - 1 \<Longrightarrow> unat ((a :: 'a :: len word) + 1) = unat a + 1"
  by (cases "LENGTH('a)") (auto simp add: unat_word_ariths)

section \<open>Counting the elements of a range that satisfy a predicate\<close>

definition count_below :: "nat \<Rightarrow> (nat \<Rightarrow> bool) \<Rightarrow> nat" where
  "count_below n P = card {i. i < n \<and> P i}"

lemma finite_below [simp]: "finite {i. i < (n::nat) \<and> P i}"
  by (rule finite_subset [of _ "{..<n}"]) auto

lemma count_below_le: "count_below n P \<le> n"
proof -
  have "card {i. i < n \<and> P i} \<le> card {..<n}" by (rule card_mono) auto
  then show ?thesis by (simp add: count_below_def)
qed

lemma count_below_complement: "count_below n P + count_below n (\<lambda>i. \<not> P i) = n"
proof -
  have "{..<n} = {i. i < n \<and> P i} \<union> {i. i < n \<and> \<not> P i}" by auto
  then have "card {..<n} = card {i. i < n \<and> P i} + card {i. i < n \<and> \<not> P i}"
    using card_Un_disjoint [of "{i. i < n \<and> P i}" "{i. i < n \<and> \<not> P i}"] by auto
  then show ?thesis by (simp add: count_below_def)
qed

lemma count_below_pos: "0 < count_below n P \<longleftrightarrow> (\<exists>i < n. P i)"
  by (auto simp add: count_below_def card_gt_0_iff)

lemma count_below_cong: "(\<And>i. i < n \<Longrightarrow> P i = Q i) \<Longrightarrow> count_below n P = count_below n Q"
  unfolding count_below_def by (rule arg_cong [where f = card]) auto

lemma count_below_insert:
  assumes "k < n" and "\<not> P k"
  shows "count_below n (\<lambda>i. i = k \<or> P i) = Suc (count_below n P)"
proof -
  have "{i. i < n \<and> (i = k \<or> P i)} = insert k {i. i < n \<and> P i}" using assms(1) by auto
  with assms(2) show ?thesis by (simp add: count_below_def)
qed

lemma count_below_remove:
  assumes "k < n" and "P k"
  shows "Suc (count_below n (\<lambda>i. P i \<and> i \<noteq> k)) = count_below n P"
proof -
  have "{i. i < n \<and> P i} = insert k {i. i < n \<and> P i \<and> i \<noteq> k}" using assms by auto
  then show ?thesis by (simp add: count_below_def)
qed

lemma count_below_False [simp]: "count_below n (\<lambda>_. False) = 0"
  by (simp add: count_below_def)

lemma count_below_True [simp]: "count_below n (\<lambda>_. True) = n"
  by (simp add: count_below_def)

section \<open>Array loops\<close>

text \<open>
  Arrays are functions from the index; a C loop that stores into consecutive cells is a fold over
  the indices it visits.  These three facts give the closed form of the loops the kernel has: fill
  a prefix, fill a range, and copy downwards in place.
\<close>

lemma fold_fill_range:
  "fold (\<lambda>i b. b(i := f i)) [l..<u] b k = (if l \<le> k \<and> k < u then f k else b k)"
proof (induction u)
  case 0
  then show ?case by simp
next
  case (Suc u)
  then show ?case by (cases "l \<le> u") (auto simp add: less_Suc_eq)
qed

lemma fold_copy_down:
  assumes "0 < d"
  shows "fold (\<lambda>i b. b(i := b (i + d))) [0..<u] b k = (if k < u then b (k + d) else b k)"
proof (induction u arbitrary: k)
  case 0
  then show ?case by simp
next
  case (Suc u)
  then show ?case using assms by (auto simp add: less_Suc_eq)
qed

section \<open>Sums over distinct lists\<close>

lemma sum_list_change_one:
  fixes f g :: "'b \<Rightarrow> 'a :: ab_group_add"
  assumes "distinct xs" and "x \<in> set xs" and "\<And>y. y \<in> set xs \<Longrightarrow> y \<noteq> x \<Longrightarrow> g y = f y"
  shows "(\<Sum>y \<leftarrow> xs. g y) = (\<Sum>y \<leftarrow> xs. f y) - f x + g x"
proof -
  obtain ys zs where xs: "xs = ys @ x # zs" using assms(2) by (auto simp add: in_set_conv_decomp)
  have "map g ys = map f ys" and "map g zs = map f zs" using assms(1,3) by (auto simp add: xs)
  then show ?thesis unfolding xs by (simp del: map_eq_conv)
qed

end
