(* ===== verification/Machine.thy ===== *)
theory Machine
  imports Prelude
begin

text \<open>
  The processor and its ports as the C code sees them.

  The innermost layer of the kernel state is the record \<open>machine\<close>: the history of privileged
  instructions and port accesses executed so far (newest first) and the byte memory that holds
  raw buffers.  Every inline-assembly helper of the sources (\<open>inb\<close>, \<open>outb\<close>, \<open>cli\<close>, \<open>hlt\<close>, \<dots>)
  is one function on it.

  What a port answers is not code of this repository.  It is a parameter of the model: a record
  \<open>hardware\<close> of functions from the history to the value read.  A device with internal state is such
  a function, since its state is determined by what was sent to it.
\<close>

section \<open>Events and hardware\<close>

datatype io_event =
    Outb u16 u8
  | Outw u16 u16
  | Inb u16
  | Inw u16
  | Cli
  | Sti
  | Hlt
  | Lgdt u32
  | Ltr u16
  | Lidt u32
  | MovCr3 u32
  | MovCr0 u32
  | Invlpg u32
  | Int3

record hardware =
  hw_inb :: "io_event list \<Rightarrow> u16 \<Rightarrow> u8"
  hw_inw :: "io_event list \<Rightarrow> u16 \<Rightarrow> u16"
  hw_cr0 :: "io_event list \<Rightarrow> u32"
  hw_cr2 :: "io_event list \<Rightarrow> u32"
  hw_cpuid :: "u32 \<Rightarrow> u32 \<times> u32 \<times> u32 \<times> u32"

record machine =
  io_trace :: "io_event list"
  ram :: "u32 \<Rightarrow> u8"

section \<open>Port access and privileged instructions\<close>

definition emit :: "io_event \<Rightarrow> 'a machine_scheme \<Rightarrow> 'a machine_scheme" where
  "emit e s = s\<lparr>io_trace := e # io_trace s\<rparr>"

definition inb :: "hardware \<Rightarrow> u16 \<Rightarrow> 'a machine_scheme \<Rightarrow> u8 \<times> 'a machine_scheme" where
  "inb hw port s = (hw_inb hw (io_trace s) port, emit (Inb port) s)"

definition outb :: "u16 \<Rightarrow> u8 \<Rightarrow> 'a machine_scheme \<Rightarrow> 'a machine_scheme" where
  "outb port val s = emit (Outb port val) s"

definition inw :: "hardware \<Rightarrow> u16 \<Rightarrow> 'a machine_scheme \<Rightarrow> u16 \<times> 'a machine_scheme" where
  "inw hw port s = (hw_inw hw (io_trace s) port, emit (Inw port) s)"

definition outw :: "u16 \<Rightarrow> u16 \<Rightarrow> 'a machine_scheme \<Rightarrow> 'a machine_scheme" where
  "outw port val s = emit (Outw port val) s"

text \<open>The part of the history that a run added, oldest event first.\<close>

definition events_since :: "'a machine_scheme \<Rightarrow> 'a machine_scheme \<Rightarrow> io_event list" where
  "events_since s t = rev (take (length (io_trace t) - length (io_trace s)) (io_trace t))"

lemma events_since_append:
  "io_trace t = rev es @ io_trace s \<Longrightarrow> events_since s t = es"
  by (simp add: events_since_def)

section \<open>Byte memory\<close>

definition load16 :: "(u32 \<Rightarrow> u8) \<Rightarrow> u32 \<Rightarrow> u16" where
  "load16 m a = ucast (m a) OR push_bit 8 (ucast (m (a + 1)))"

definition load32 :: "(u32 \<Rightarrow> u8) \<Rightarrow> u32 \<Rightarrow> u32" where
  "load32 m a = ucast (load16 m a) OR push_bit 16 (ucast (load16 m (a + 2)))"

definition load64 :: "(u32 \<Rightarrow> u8) \<Rightarrow> u32 \<Rightarrow> u64" where
  "load64 m a = ucast (load32 m a) OR push_bit 32 (ucast (load32 m (a + 4)))"

text \<open>The bytes of a buffer of \<open>n\<close> bytes, and storing a byte list at an address.\<close>

definition load_bytes :: "(u32 \<Rightarrow> u8) \<Rightarrow> u32 \<Rightarrow> nat \<Rightarrow> bytes" where
  "load_bytes m a n = map (\<lambda>i. m (a + of_nat i)) [0..<n]"

primrec store_bytes :: "(u32 \<Rightarrow> u8) \<Rightarrow> u32 \<Rightarrow> bytes \<Rightarrow> (u32 \<Rightarrow> u8)" where
  "store_bytes m a [] = m"
| "store_bytes m a (b # bs) = store_bytes (m(a := b)) (a + 1) bs"

text \<open>A C string at an address: the bytes up to, not including, the first NUL.\<close>

definition is_cstring :: "(u32 \<Rightarrow> u8) \<Rightarrow> u32 \<Rightarrow> bytes \<Rightarrow> bool" where
  "is_cstring m a bs \<longleftrightarrow>
     load_bytes m a (length bs) = bs \<and> 0 \<notin> set bs \<and> m (a + of_nat (length bs)) = 0"

end
