(* ===== verification/Vga.thy ===== *)
theory Vga
  imports Machine
begin

text \<open>
  The text console, \<^verbatim>\<open>src/drivers/vga.c\<close>, and the decimal printing loop that the kernel
  repeats wherever it prints a number.

  \<open>vga_t\<close> holds the three statics of the file.  The frame buffer is a function from the cell index;
  the invariant \<open>vga_inv\<close> (the cursor is on the 80 x 25 screen) is what makes every store land in one
  of its 2000 cells, which \<open>vga_puts_in_bounds\<close> states as a frame property.
  The abstract view is the list of the 25 screen rows.
\<close>

section \<open>State and operations\<close>

abbreviation COLOR_RED :: u8 where "COLOR_RED \<equiv> 0x04"
abbreviation COLOR_LIGHT_GREEN :: u8 where "COLOR_LIGHT_GREEN \<equiv> 0x0A"
abbreviation COLOR_LIGHT_CYAN :: u8 where "COLOR_LIGHT_CYAN \<equiv> 0x0B"
abbreviation COLOR_LIGHT_RED :: u8 where "COLOR_LIGHT_RED \<equiv> 0x0C"
abbreviation COLOR_YELLOW :: u8 where "COLOR_YELLOW \<equiv> 0x0E"
abbreviation COLOR_WHITE :: u8 where "COLOR_WHITE \<equiv> 0x0F"

abbreviation VGA_WIDTH :: nat where "VGA_WIDTH \<equiv> 80"
abbreviation VGA_HEIGHT :: nat where "VGA_HEIGHT \<equiv> 25"

record vga_t =
  vga_buffer :: "nat \<Rightarrow> u16"
  cursor_x :: nat
  cursor_y :: nat

definition vga_entry :: "u8 \<Rightarrow> u8 \<Rightarrow> u16" where
  "vga_entry uc color = ucast uc OR push_bit 8 (ucast color)"

definition vga_scroll :: "vga_t \<Rightarrow> vga_t" where
  "vga_scroll v =
     (if cursor_y v \<ge> VGA_HEIGHT
      then v\<lparr>vga_buffer :=
               fold (\<lambda>i b. b(i := vga_entry ch_sp COLOR_WHITE))
                 [(VGA_HEIGHT - 1) * VGA_WIDTH..<VGA_HEIGHT * VGA_WIDTH]
                 (fold (\<lambda>i b. b(i := b (i + VGA_WIDTH))) [0..<(VGA_HEIGHT - 1) * VGA_WIDTH]
                   (vga_buffer v)),
             cursor_y := VGA_HEIGHT - 1\<rparr>
      else v)"

definition vga_init :: "vga_t \<Rightarrow> vga_t" where
  "vga_init v =
     v\<lparr>vga_buffer :=
         fold (\<lambda>i b. b(i := vga_entry ch_sp COLOR_WHITE)) [0..<VGA_WIDTH * VGA_HEIGHT] (vga_buffer v),
       cursor_x := 0, cursor_y := 0\<rparr>"

definition vga_clear :: "vga_t \<Rightarrow> vga_t" where
  "vga_clear v = vga_init v"

definition vga_putc :: "u8 \<Rightarrow> u8 \<Rightarrow> vga_t \<Rightarrow> vga_t" where
  "vga_putc c color v =
     (let v1 =
        (if c = ch_nl then v\<lparr>cursor_x := 0, cursor_y := cursor_y v + 1\<rparr>
         else if c = ch_bs then
           (if cursor_x v > 0
            then v\<lparr>cursor_x := cursor_x v - 1,
                   vga_buffer := (vga_buffer v)
                     (cursor_y v * VGA_WIDTH + (cursor_x v - 1) := vga_entry ch_sp color)\<rparr>
            else v)
         else v\<lparr>vga_buffer := (vga_buffer v)
                  (cursor_y v * VGA_WIDTH + cursor_x v := vga_entry c color),
                cursor_x := cursor_x v + 1\<rparr>);
          v2 = (if cursor_x v1 \<ge> VGA_WIDTH
                then v1\<lparr>cursor_x := 0, cursor_y := cursor_y v1 + 1\<rparr> else v1)
      in vga_scroll v2)"

definition vga_puts :: "bytes \<Rightarrow> u8 \<Rightarrow> vga_t \<Rightarrow> vga_t" where
  "vga_puts str color v = fold (\<lambda>c. vga_putc c color) str v"

text \<open>
  The kernel state gains the console as its second layer; \<open>con_putc\<close> and \<open>con_puts\<close> are
  \<open>vga_putc\<close> and \<open>vga_puts\<close> acting on it.
\<close>

record console = machine +
  vga :: vga_t

definition con_putc :: "u8 \<Rightarrow> u8 \<Rightarrow> 'a console_scheme \<Rightarrow> 'a console_scheme" where
  "con_putc c color s = s\<lparr>vga := vga_putc c color (vga s)\<rparr>"

definition con_puts :: "bytes \<Rightarrow> u8 \<Rightarrow> 'a console_scheme \<Rightarrow> 'a console_scheme" where
  "con_puts str color s = s\<lparr>vga := vga_puts str color (vga s)\<rparr>"

text \<open>
  \<^verbatim>\<open>while (count > 0 && j < 15) { buf[j++] = '0' + (count % 10); count /= 10; }\<close>: the first
  argument is the number of cells left in \<open>buf\<close>, the result is \<open>buf\<close> from index 0 on.  The callers
  then print \<open>buf\<close> backwards; most of them store a single '0' first when the number is zero
  (\<open>dec_text0\<close>), some do not (\<open>dec_text\<close>).
\<close>

fun dec_digits :: "nat \<Rightarrow> int \<Rightarrow> bytes" where
  "dec_digits 0 count = []"
| "dec_digits (Suc n) count =
     (if count > 0 then word_of_int (48 + count mod 10) # dec_digits n (count div 10) else [])"

definition dec_text :: "int \<Rightarrow> bytes" where
  "dec_text count = rev (dec_digits 15 count)"

definition dec_text0 :: "int \<Rightarrow> bytes" where
  "dec_text0 count = (if count = 0 then [0x30] else rev (dec_digits 15 count))"

text \<open>Abstract views: the text a decimal string denotes, and the rows of the screen.\<close>

definition dec_value :: "bytes \<Rightarrow> int" where
  "dec_value bs = foldl (\<lambda>acc b. acc * 10 + (uint b - 48)) 0 bs"

definition screen_row :: "vga_t \<Rightarrow> nat \<Rightarrow> u16 list" where
  "screen_row v r = map (\<lambda>x. vga_buffer v (r * VGA_WIDTH + x)) [0..<VGA_WIDTH]"

definition screen_rows :: "vga_t \<Rightarrow> u16 list list" where
  "screen_rows v = map (screen_row v) [0..<VGA_HEIGHT]"

definition blank_row :: "u16 list" where
  "blank_row = replicate VGA_WIDTH (vga_entry ch_sp COLOR_WHITE)"

section \<open>The cursor stays on the screen\<close>

definition vga_inv :: "vga_t \<Rightarrow> bool" where
  "vga_inv v \<longleftrightarrow> cursor_x v < VGA_WIDTH \<and> cursor_y v < VGA_HEIGHT"

lemma vga_init_inv: "vga_inv (vga_init v)"
  by (simp add: vga_inv_def vga_init_def)

lemma vga_scroll_cursor [simp]:
  "cursor_x (vga_scroll v) = cursor_x v"
  "cursor_y (vga_scroll v) = (if cursor_y v \<ge> VGA_HEIGHT then VGA_HEIGHT - 1 else cursor_y v)"
  by (simp_all add: vga_scroll_def)

lemma vga_putc_inv: "vga_inv v \<Longrightarrow> vga_inv (vga_putc c color v)"
  by (auto simp add: vga_inv_def vga_putc_def Let_def)

lemma vga_puts_inv: "vga_inv v \<Longrightarrow> vga_inv (vga_puts str color v)"
  unfolding vga_puts_def by (induction str arbitrary: v) (simp_all add: vga_putc_inv)

lemma vga_scroll_buffer:
  "vga_buffer (vga_scroll v) i =
     (if cursor_y v \<ge> VGA_HEIGHT
      then if i < 1920 then vga_buffer v (i + 80)
           else if i < 2000 then vga_entry ch_sp COLOR_WHITE else vga_buffer v i
      else vga_buffer v i)"
  by (auto simp add: vga_scroll_def fold_fill_range fold_copy_down simp del: upt_rec_numeral)

lemma vga_init_buffer:
  "vga_buffer (vga_init v) i = (if i < 2000 then vga_entry ch_sp COLOR_WHITE else vga_buffer v i)"
  by (simp add: vga_init_def fold_fill_range del: upt_rec_numeral)

lemma vga_putc_outside:
  assumes "vga_inv v" and "2000 \<le> i"
  shows "vga_buffer (vga_putc c color v) i = vga_buffer v i"
proof -
  have "cursor_y v * 80 + x < 2000" if "x < 80" for x
    using assms(1) that by (simp add: vga_inv_def)
  with assms show ?thesis
    by (auto simp add: vga_putc_def Let_def vga_scroll_buffer vga_inv_def)
qed

lemma vga_puts_outside:
  "vga_inv v \<Longrightarrow> 2000 \<le> i \<Longrightarrow> vga_buffer (vga_puts str color v) i = vga_buffer v i"
  unfolding vga_puts_def
  by (induction str arbitrary: v) (simp_all add: vga_putc_inv vga_putc_outside)

section \<open>Scrolling shifts the rows\<close>

lemma screen_rows_scroll:
  assumes "cursor_y v \<ge> VGA_HEIGHT"
  shows "screen_rows (vga_scroll v) = tl (screen_rows v) @ [blank_row]"
proof (rule nth_equalityI)
  show "length (screen_rows (vga_scroll v)) = length (tl (screen_rows v) @ [blank_row])"
    by (simp add: screen_rows_def del: upt_rec_numeral)
next
  fix r assume "r < length (screen_rows (vga_scroll v))"
  then have r: "r < 25" by (simp add: screen_rows_def del: upt_rec_numeral)
  have cell: "vga_buffer (vga_scroll v) (r * 80 + x) =
      (if r < 24 then vga_buffer v (Suc r * 80 + x) else vga_entry ch_sp COLOR_WHITE)"
    if "x < 80" for x
    using that r assms by (auto simp add: vga_scroll_buffer algebra_simps)
  have "screen_rows (vga_scroll v) ! r = screen_row (vga_scroll v) r"
    using r by (simp add: screen_rows_def del: upt_rec_numeral)
  also have "\<dots> = (if r < 24 then screen_row v (Suc r) else blank_row)"
    unfolding screen_row_def blank_row_def map_replicate_trivial [symmetric]
    by (auto simp add: cell intro!: nth_equalityI simp del: upt_rec_numeral)
  also have "\<dots> = (tl (screen_rows v) @ [blank_row]) ! r"
    using r by (auto simp add: screen_rows_def nth_append nth_tl simp del: upt_rec_numeral)
  finally show "screen_rows (vga_scroll v) ! r = (tl (screen_rows v) @ [blank_row]) ! r" .
qed

lemma screen_rows_newline:
  assumes "vga_inv v"
  shows "screen_rows (vga_putc ch_nl color v) =
    (if cursor_y v = VGA_HEIGHT - 1 then tl (screen_rows v) @ [blank_row] else screen_rows v)"
proof -
  let ?v = "v\<lparr>cursor_x := 0, cursor_y := cursor_y v + 1\<rparr>"
  have putc: "vga_putc ch_nl color v = vga_scroll ?v" by (simp add: vga_putc_def)
  have rows: "screen_rows ?v = screen_rows v" by (simp add: screen_rows_def screen_row_def)
  show ?thesis
  proof (cases "cursor_y v = VGA_HEIGHT - 1")
    case True
    then show ?thesis using screen_rows_scroll [of ?v] putc rows by simp
  next
    case False
    with assms have "vga_scroll ?v = ?v" by (simp add: vga_scroll_def vga_inv_def)
    with putc rows False show ?thesis by simp
  qed
qed

section \<open>Plain text lands in consecutive cells\<close>

definition printable :: "u8 \<Rightarrow> bool" where
  "printable c \<longleftrightarrow> c \<noteq> ch_nl \<and> c \<noteq> ch_bs"

lemma vga_putc_printable:
  assumes "vga_inv v" and "printable c" and "cursor_x v + 1 < VGA_WIDTH"
  shows "vga_putc c color v =
    v\<lparr>vga_buffer := (vga_buffer v)(cursor_y v * VGA_WIDTH + cursor_x v := vga_entry c color),
      cursor_x := cursor_x v + 1\<rparr>"
  using assms by (simp add: vga_putc_def Let_def vga_scroll_def vga_inv_def printable_def)

lemma vga_puts_cells:
  assumes "vga_inv v" and "\<forall>c \<in> set str. printable c" and "cursor_x v + length str < VGA_WIDTH"
  shows "cursor_x (vga_puts str color v) = cursor_x v + length str
    \<and> cursor_y (vga_puts str color v) = cursor_y v
    \<and> (\<forall>i. vga_buffer (vga_puts str color v) i =
          (let base = cursor_y v * VGA_WIDTH + cursor_x v
           in if base \<le> i \<and> i < base + length str then vga_entry (str ! (i - base)) color
              else vga_buffer v i))"
  using assms
proof (induction str arbitrary: v)
  case Nil
  then show ?case by (auto simp add: vga_puts_def Let_def)
next
  case (Cons c str)
  let ?v = "vga_putc c color v"
  have put: "?v = v\<lparr>vga_buffer := (vga_buffer v)
      (cursor_y v * VGA_WIDTH + cursor_x v := vga_entry c color), cursor_x := cursor_x v + 1\<rparr>"
    using Cons.prems by (intro vga_putc_printable) auto
  have puts: "vga_puts (c # str) color v = vga_puts str color ?v" by (simp add: vga_puts_def)
  have inv: "vga_inv ?v" by (rule vga_putc_inv) (rule Cons.prems(1))
  have room: "cursor_x ?v + length str < VGA_WIDTH" using Cons.prems(3) put by simp
  note IH = Cons.IH [OF inv _ room]
  show ?case
    unfolding puts using IH Cons.prems(2) put
    by (auto simp add: Let_def nth_Cons' not_less_eq_eq)
qed

section \<open>The decimal loop\<close>

lemma uint_digit [simp]: "uint (48 + word_of_int (c mod 10) :: u8) = 48 + c mod 10"
proof -
  have "0 \<le> c mod 10" and "c mod 10 < 10" by simp_all
  moreover have "48 + word_of_int (c mod 10) = (word_of_int (48 + c mod 10) :: u8)" by simp
  ultimately show ?thesis by (simp only: uint_word_of_int) simp
qed

lemma dec_digits_enough: "0 \<le> c \<Longrightarrow> c < 10 ^ n \<Longrightarrow> dec_value (rev (dec_digits n c)) = c"
proof (induction n arbitrary: c)
  case 0
  then show ?case by (simp add: dec_value_def)
next
  case (Suc n)
  show ?case
  proof (cases "c > 0")
    case True
    have "c div 10 < 10 ^ n" using Suc.prems by simp
    then have "dec_value (rev (dec_digits n (c div 10))) = c div 10"
      using True by (intro Suc.IH) (simp_all add: pos_imp_zdiv_nonneg_iff)
    then show ?thesis using True by (simp add: dec_value_def)
  next
    case False
    then show ?thesis using Suc.prems by (simp add: dec_value_def)
  qed
qed

lemma dec_text_value: "0 \<le> c \<Longrightarrow> c < 10 ^ 15 \<Longrightarrow> dec_value (dec_text c) = c"
  unfolding dec_text_def by (rule dec_digits_enough)

lemma dec_text0_value: "0 \<le> c \<Longrightarrow> c < 10 ^ 15 \<Longrightarrow> dec_value (dec_text0 c) = c"
  unfolding dec_text0_def by (cases "c = 0") (simp add: dec_value_def, simp add: dec_digits_enough)

lemma dec_digits_are_digits: "b \<in> set (dec_digits n c) \<Longrightarrow> 48 \<le> uint b \<and> uint b \<le> 57"
proof (induction n arbitrary: c)
  case (Suc n)
  have "0 \<le> c mod 10" and "c mod 10 < 10" by simp_all
  with Suc \<open>0 \<le> c mod 10\<close> \<open>c mod 10 < 10\<close> show ?case by (auto split: if_splits)
qed simp

lemma con_frames [frame_simps]:
  "io_trace (con_putc c color s) = io_trace s" "io_trace (con_puts str color s) = io_trace s"
  "ram (con_putc c color s) = ram s" "ram (con_puts str color s) = ram s"
  by (simp_all add: con_putc_def con_puts_def)

section \<open>Properties\<close>


definition demo_vga :: vga_t where
  "demo_vga = \<lparr>vga_buffer = (\<lambda>_. 0), cursor_x = 79, cursor_y = 24\<rparr>"


text \<open>A newline on the last row scrolls: the rows move up by one, the first is lost and a blank one
  appears at the bottom; on any other row the screen contents do not change.\<close>

theorem vga_newline_scrolls:
  assumes "vga_inv v"
  shows "screen_rows (vga_putc ch_nl color v) =
      (if cursor_y v = VGA_HEIGHT - 1 then tl (screen_rows v) @ [blank_row] else screen_rows v) \<and>
    cursor_x (vga_putc ch_nl color v) = 0 \<and>
    cursor_y (vga_putc ch_nl color v) = min (cursor_y v + 1) (VGA_HEIGHT - 1)"
proof -
  have "cursor_x (vga_putc ch_nl color v) = 0"
    "cursor_y (vga_putc ch_nl color v) = min (cursor_y v + 1) (VGA_HEIGHT - 1)"
    using assms by (simp_all add: vga_putc_def vga_inv_def min_def)
  then show ?thesis using screen_rows_newline [OF assms] by simp
qed

theorem vga_newline_scrolls_witness:
  "screen_rows (vga_putc ch_nl 0x0F demo_vga) =
      (if cursor_y demo_vga = VGA_HEIGHT - 1 then tl (screen_rows demo_vga) @ [blank_row]
       else screen_rows demo_vga) \<and>
    cursor_x (vga_putc ch_nl 0x0F demo_vga) = 0 \<and>
    cursor_y (vga_putc ch_nl 0x0F demo_vga) = min (cursor_y demo_vga + 1) (VGA_HEIGHT - 1)"
  by (rule vga_newline_scrolls) (simp add: vga_inv_def demo_vga_def)

text \<open>The decimal printing loop is right: the text it produces for a number of at most fifteen
  digits is made of digits only and reads back as that number.\<close>

theorem dec_text_roundtrip:
  assumes "0 \<le> n" and "n < 10 ^ 15"
  shows "dec_value (dec_text0 n) = n \<and> set (dec_text0 n) \<subseteq> {b. 48 \<le> uint b \<and> uint b \<le> 57}"
  using dec_text0_value [OF assms] dec_digits_are_digits by (auto simp add: dec_text0_def)

theorem dec_text_roundtrip_witness:
  "dec_value (dec_text0 1907) = 1907 \<and> set (dec_text0 1907) \<subseteq> {b. 48 \<le> uint b \<and> uint b \<le> 57}"
  by (rule dec_text_roundtrip) simp_all

end
