(* ===== verification/Pmm.thy ===== *)
theory Pmm
  imports Vga
begin

text \<open>
  The physical page allocator, \<^verbatim>\<open>src/kernel/pmm.c\<close>.

  \<open>pmm_t\<close> is the struct of the same name; its bitmap is the static array \<open>pmm_bitmap\<close> of 32768 words,
  a function from the word index (\<open>bitmap_index_in_range\<close>: no address leads outside the array).
  One bit per 4 KB page, set when the page is in use.

  The contract is stated over the set \<open>free_frames\<close> of free page numbers below \<open>total_pages\<close>:
  allocation takes the least one, freeing puts one back, and the two counters are the cardinalities.
  The locale \<open>page_allocator\<close> is that contract as the heap and the paging code rely on it.

  The Multiboot memory map is read from byte memory; the two walks over it are loops whose end
  depends on the map's contents, so they return \<open>None\<close> when they never reach the end.
\<close>

section \<open>State\<close>

abbreviation PAGE_SIZE :: u32 where "PAGE_SIZE \<equiv> 4096"

record pmm_t =
  bitmap :: "nat \<Rightarrow> u32"
  total_pages :: u32
  used_pages :: u32
  free_pages :: u32
  bitmap_size :: u32

record pmm_sys = console +
  pmm :: pmm_t

section \<open>Operations\<close>

definition bitmap_fill :: "u32 \<Rightarrow> nat \<Rightarrow> (nat \<Rightarrow> u32) \<Rightarrow> (nat \<Rightarrow> u32)" where
  "bitmap_fill w n b = fold (\<lambda>i b. b(i := w)) [0..<n] b"

text \<open>Lines 17--25 and 97--104: page count, bitmap size and the clamp to the static array.\<close>

definition pmm_set_size :: "u32 \<Rightarrow> pmm_t \<Rightarrow> pmm_t" where
  "pmm_set_size mem_size p =
     (let total = mem_size div PAGE_SIZE;
          bsize = (total + 31) div 32
      in if bsize > 32768 then p\<lparr>total_pages := 32768 * 32, bitmap_size := 32768\<rparr>
         else p\<lparr>total_pages := total, bitmap_size := bsize\<rparr>)"

definition pmm_init :: "u32 \<Rightarrow> u32 \<Rightarrow> 'a pmm_sys_scheme \<Rightarrow> 'a pmm_sys_scheme" where
  "pmm_init mem_size bitmap_addr s =
     (let p = pmm_set_size mem_size (pmm s);
          p = p\<lparr>used_pages := 0, free_pages := total_pages p,
                bitmap := bitmap_fill 0 (unat (bitmap_size p)) (bitmap p)\<rparr>;
          s = s\<lparr>pmm := p\<rparr>;
          s = con_puts (lit ''[PMM] Initialized with '') 0x1A s;
          s = con_puts (dec_text (sint (total_pages p))) 0x1A s;
          s = con_puts (lit '' pages ('') 0x1A s;
          s = con_puts (dec_text (sint (mem_size div (1024 * 1024)))) 0x1A s
      in con_puts (lit '' MB)'' @ [ch_nl]) 0x1A s)"

definition pmm_mark_used :: "u32 \<Rightarrow> 'a pmm_sys_scheme \<Rightarrow> 'a pmm_sys_scheme" where
  "pmm_mark_used addr s =
     (let p = pmm s;
          page_index = addr div PAGE_SIZE;
          bitmap_index = unat (page_index div 32);
          mask_bit = push_bit (unat (page_index mod 32)) 1
      in if bitmap p bitmap_index AND mask_bit = 0
         then s\<lparr>pmm := p\<lparr>bitmap := (bitmap p)(bitmap_index := bitmap p bitmap_index OR mask_bit),
                           used_pages := used_pages p + 1, free_pages := free_pages p - 1\<rparr>\<rparr>
         else s)"

definition pmm_mark_free :: "u32 \<Rightarrow> 'a pmm_sys_scheme \<Rightarrow> 'a pmm_sys_scheme" where
  "pmm_mark_free addr s =
     (let p = pmm s;
          page_index = addr div PAGE_SIZE;
          bitmap_index = unat (page_index div 32);
          mask_bit = push_bit (unat (page_index mod 32)) 1
      in if bitmap p bitmap_index AND mask_bit \<noteq> 0
         then s\<lparr>pmm := p\<lparr>bitmap := (bitmap p)(bitmap_index := bitmap p bitmap_index AND NOT mask_bit),
                           used_pages := used_pages p - 1, free_pages := free_pages p + 1\<rparr>\<rparr>
         else s)"

definition pmm_free_page :: "u32 \<Rightarrow> 'a pmm_sys_scheme \<Rightarrow> 'a pmm_sys_scheme" where
  "pmm_free_page page_addr s =
     (if page_addr mod PAGE_SIZE \<noteq> 0
      then con_puts (lit ''[PMM] Invalid address alignment'' @ [ch_nl]) 0x1C s
      else
        (let p = pmm s;
             page_index = page_addr div PAGE_SIZE;
             bitmap_index = unat (page_index div 32);
             mask_bit = push_bit (unat (page_index mod 32)) 1
         in if bitmap p bitmap_index AND mask_bit = 0
            then con_puts (lit ''[PMM] Double free detected'' @ [ch_nl]) 0x1C s
            else s\<lparr>pmm := p\<lparr>bitmap := (bitmap p)(bitmap_index := bitmap p bitmap_index AND NOT mask_bit),
                              used_pages := used_pages p - 1, free_pages := free_pages p + 1\<rparr>\<rparr>))"

function scan_bits :: "u32 \<Rightarrow> nat \<Rightarrow> nat option" where
  "scan_bits w j =
     (if j < 32 then if w AND push_bit j 1 = 0 then Some j else scan_bits w (Suc j) else None)"
  by pat_completeness auto
termination
  by (relation "measure (\<lambda>(w, j). 32 - j)") auto

function scan_words :: "(nat \<Rightarrow> u32) \<Rightarrow> nat \<Rightarrow> nat \<Rightarrow> (nat \<times> nat) option" where
  "scan_words b i n =
     (if i < n then
        if b i \<noteq> 0xFFFFFFFF
        then case scan_bits (b i) 0 of Some j \<Rightarrow> Some (i, j) | None \<Rightarrow> scan_words b (Suc i) n
        else scan_words b (Suc i) n
      else None)"
  by pat_completeness auto
termination
  by (relation "measure (\<lambda>(b, i, n). n - i)") auto

definition pmm_alloc_page :: "'a pmm_sys_scheme \<Rightarrow> u32 \<times> 'a pmm_sys_scheme" where
  "pmm_alloc_page s =
     (let p = pmm s
      in if free_pages p = 0
         then (0, con_puts (lit ''[PMM] Out of memory!'' @ [ch_nl]) 0x1C s)
         else
           (case scan_words (bitmap p) 0 (unat (bitmap_size p)) of
              None \<Rightarrow> (0, s)
            | Some (i, j) \<Rightarrow>
                ((of_nat i * 32 + of_nat j) * PAGE_SIZE,
                 s\<lparr>pmm := p\<lparr>bitmap := (bitmap p)(i := bitmap p i OR push_bit j 1),
                             used_pages := used_pages p + 1, free_pages := free_pages p - 1\<rparr>\<rparr>)))"

definition pmm_get_free_pages :: "'a pmm_sys_scheme \<Rightarrow> u32" where
  "pmm_get_free_pages s = free_pages (pmm s)"

definition pmm_get_used_pages :: "'a pmm_sys_scheme \<Rightarrow> u32" where
  "pmm_get_used_pages s = used_pages (pmm s)"

section \<open>The Multiboot memory map\<close>

record multiboot_memory_map_t =
  mm_size :: u32
  mm_addr :: u64
  mm_len :: u64
  mm_type :: u32

definition mmap_entry :: "(u32 \<Rightarrow> u8) \<Rightarrow> u32 \<Rightarrow> multiboot_memory_map_t" where
  "mmap_entry m a =
     \<lparr>mm_size = load32 m a, mm_addr = load64 m (a + 4), mm_len = load64 m (a + 12),
      mm_type = load32 m (a + 20)\<rparr>"

definition mmap_next :: "(u32 \<Rightarrow> u8) \<Rightarrow> u32 \<Rightarrow> u32" where
  "mmap_next m a = a + mm_size (mmap_entry m a) + 4"

definition mmap_max_step :: "multiboot_memory_map_t \<Rightarrow> u64 \<Rightarrow> u64" where
  "mmap_max_step en mx =
     (if mm_type en = 1
      then let end_addr = mm_addr en + mm_len en in if end_addr > mx then end_addr else mx
      else mx)"

partial_function (option) mmap_max_usable :: "(u32 \<Rightarrow> u8) \<Rightarrow> u32 \<Rightarrow> u32 \<Rightarrow> u64 \<Rightarrow> u64 option" where
  "mmap_max_usable m a mmap_end mx =
     (if a < mmap_end
      then mmap_max_usable m (mmap_next m a) mmap_end (mmap_max_step (mmap_entry m a) mx)
      else Some mx)"

definition mmap_free_step ::
    "multiboot_memory_map_t \<Rightarrow> 'a pmm_sys_scheme \<Rightarrow> 'a pmm_sys_scheme" where
  "mmap_free_step en s =
     (if mm_type en = 1
      then let start_page = ucast (mm_addr en div 4096) :: u32;
               end_page = ucast ((mm_addr en + mm_len en) div 4096) :: u32
           in fold (\<lambda>page. pmm_mark_free (of_nat page * PAGE_SIZE))
                [unat start_page..<min (unat end_page) (unat (total_pages (pmm s)))] s
      else s)"

partial_function (option) mmap_free_usable ::
    "u32 \<Rightarrow> u32 \<Rightarrow> 'a pmm_sys_scheme \<Rightarrow> 'a pmm_sys_scheme option" where
  "mmap_free_usable a mmap_end s =
     (if a < mmap_end
      then mmap_free_usable (mmap_next (ram s) a) mmap_end (mmap_free_step (mmap_entry (ram s) a) s)
      else Some s)"

text \<open>\<^verbatim>\<open>for (addr = 0; addr < 0x200000; addr += PAGE_SIZE) pmm_mark_used(addr);\<close>\<close>

definition reserve_low_memory :: "'a pmm_sys_scheme \<Rightarrow> 'a pmm_sys_scheme" where
  "reserve_low_memory s = fold (\<lambda>page. pmm_mark_used (of_nat page * PAGE_SIZE)) [0..<512] s"

definition pmm_init_multiboot ::
    "u32 \<Rightarrow> u32 \<Rightarrow> 'a pmm_sys_scheme \<Rightarrow> 'a pmm_sys_scheme option" where
  "pmm_init_multiboot mmap_addr mmap_length s =
     (let s = con_puts (lit ''[PMM] Parsing Multiboot Memory Map...'' @ [ch_nl]) 0x1A s;
          mmap_end = mmap_addr + mmap_length
      in case mmap_max_usable (ram s) mmap_addr mmap_end 0 of
           None \<Rightarrow> None
         | Some mx \<Rightarrow>
             (let mx = (if mx > 0xFFFFFFFF then 0xFFFFFFFF else mx);
                  p = pmm_set_size (ucast mx) (pmm s);
                  p = p\<lparr>bitmap := bitmap_fill 0xFFFFFFFF (unat (bitmap_size p)) (bitmap p),
                        used_pages := total_pages p, free_pages := 0\<rparr>
              in case mmap_free_usable mmap_addr mmap_end (s\<lparr>pmm := p\<rparr>) of
                   None \<Rightarrow> None
                 | Some s \<Rightarrow>
                     (let s = reserve_low_memory s;
                          s = con_puts (lit ''[PMM] Multiboot RAM detected: '') 0x1A s;
                          mem_mb = (total_pages (pmm s) * PAGE_SIZE) div (1024 * 1024);
                          s = con_puts (dec_text (sint mem_mb)) 0x1A s;
                          s = con_puts (lit '' MB, Free: '') 0x1A s;
                          s = con_puts (dec_text (sint (free_pages (pmm s)))) 0x1A s
                      in Some (con_puts (lit '' pages'' @ [ch_nl]) 0x1A s))))"

section \<open>Abstraction and invariant\<close>

definition page_used :: "(nat \<Rightarrow> u32) \<Rightarrow> nat \<Rightarrow> bool" where
  "page_used b i \<longleftrightarrow> bit (b (i div 32)) (i mod 32)"

definition free_frames :: "pmm_t \<Rightarrow> nat set" where
  "free_frames p = {i. i < unat (total_pages p) \<and> \<not> page_used (bitmap p) i}"

definition pmm_inv :: "pmm_t \<Rightarrow> bool" where
  "pmm_inv p \<longleftrightarrow>
     unat (total_pages p) \<le> 1048576 \<and>
     bitmap_size p = (total_pages p + 31) div 32 \<and>
     unat (used_pages p) = count_below (unat (total_pages p)) (page_used (bitmap p)) \<and>
     unat (free_pages p) = count_below (unat (total_pages p)) (\<lambda>i. \<not> page_used (bitmap p) i)"

text \<open>The page number an address lies in, and the address of a page.\<close>

definition page_of :: "u32 \<Rightarrow> nat" where
  "page_of addr = unat addr div 4096"

definition page_addr :: "nat \<Rightarrow> u32" where
  "page_addr k = of_nat k * PAGE_SIZE"

lemma unat_page_addr: "k < 1048576 \<Longrightarrow> unat (page_addr k) = k * 4096"
proof -
  assume k: "k < 1048576"
  then have "unat (of_nat k :: u32) = k" by (simp add: unat_of_nat take_bit_eq_mod)
  with k show ?thesis unfolding page_addr_def by (subst unat_mult_no_wrap) auto
qed

lemma page_of_page_addr [simp]: "k < 1048576 \<Longrightarrow> page_of (page_addr k) = k"
  by (simp add: page_of_def unat_page_addr)

lemma page_of_less [simp]: "page_of a < 1048576"
proof -
  have "unat a < 4096 * 1048576" by simp
  then show ?thesis by (simp add: page_of_def less_mult_imp_div_less mult.commute)
qed

lemma page_addr_aligned: "k < 1048576 \<Longrightarrow> page_addr k mod PAGE_SIZE = 0"
  by (simp add: unat_eq_zero [symmetric] unat_mod unat_page_addr)

lemma page_addr_inj: "page_addr k = page_addr l \<Longrightarrow> k < 1048576 \<Longrightarrow> l < 1048576 \<Longrightarrow> k = l"
  by (metis page_of_page_addr)

lemma page_addr_eq_0: "k < 1048576 \<Longrightarrow> page_addr k = 0 \<longleftrightarrow> k = 0"
  by (metis mult_eq_0_iff numeral_neq_zero unat_0 unat_page_addr unat_eq_zero)

lemma page_addr_page_of: "a mod PAGE_SIZE = 0 \<Longrightarrow> page_addr (page_of a) = a"
proof -
  assume "a mod PAGE_SIZE = 0"
  then have "unat a mod 4096 = 0" by (simp add: unat_eq_zero [symmetric] unat_mod)
  then have "unat (page_addr (page_of a)) = unat a" by (simp add: unat_page_addr) (auto simp add: page_of_def)
  then show ?thesis by (simp only: word_unat_eq_iff)
qed

lemma bitmap_index_in_range:
  "unat (addr div PAGE_SIZE div 32) < 32768"
  using page_of_less [of addr] by (simp add: unat_div page_of_def)

lemma bitmap_index_eq: "unat (addr div PAGE_SIZE div 32) = page_of addr div 32"
  by (simp add: unat_div page_of_def)

lemma bit_index_eq: "unat (addr div PAGE_SIZE mod 32) = page_of addr mod 32"
  by (simp add: unat_div unat_mod page_of_def)

lemmas page_index_simps = bitmap_index_eq bit_index_eq

lemma page_used_set:
  "page_used (b(k div 32 := b (k div 32) OR 2 ^ (k mod 32))) i \<longleftrightarrow> i = k \<or> page_used b i"
  unfolding page_used_def
  by (auto simp add: single_bit) (metis div_mod_decomp)+

lemma page_used_clear:
  "page_used (b(k div 32 := b (k div 32) AND NOT (2 ^ (k mod 32)))) i \<longleftrightarrow> page_used b i \<and> i \<noteq> k"
  unfolding page_used_def
  by (auto simp add: single_bit) (metis div_mod_decomp)+

text \<open>What the three bitmap operations do, in terms of page numbers.\<close>

definition take_page :: "nat \<Rightarrow> pmm_t \<Rightarrow> pmm_t" where
  "take_page k p = p\<lparr>bitmap := (bitmap p)(k div 32 := bitmap p (k div 32) OR 2 ^ (k mod 32)),
                     used_pages := used_pages p + 1, free_pages := free_pages p - 1\<rparr>"

definition give_page :: "nat \<Rightarrow> pmm_t \<Rightarrow> pmm_t" where
  "give_page k p = p\<lparr>bitmap := (bitmap p)(k div 32 := bitmap p (k div 32) AND NOT (2 ^ (k mod 32))),
                     used_pages := used_pages p - 1, free_pages := free_pages p + 1\<rparr>"

lemma take_give_total [simp]:
  "total_pages (take_page k p) = total_pages p" "total_pages (give_page k p) = total_pages p"
  "bitmap_size (take_page k p) = bitmap_size p" "bitmap_size (give_page k p) = bitmap_size p"
  by (simp_all add: take_page_def give_page_def)

lemma page_used_take [simp]: "page_used (bitmap (take_page k p)) i \<longleftrightarrow> i = k \<or> page_used (bitmap p) i"
  by (simp add: take_page_def page_used_set)

lemma page_used_give [simp]: "page_used (bitmap (give_page k p)) i \<longleftrightarrow> page_used (bitmap p) i \<and> i \<noteq> k"
  by (simp add: give_page_def page_used_clear)

lemma page_used_take_fun: "page_used (bitmap (take_page k p)) = (\<lambda>i. i = k \<or> page_used (bitmap p) i)"
  and page_used_give_fun: "page_used (bitmap (give_page k p)) = (\<lambda>i. page_used (bitmap p) i \<and> i \<noteq> k)"
  by (simp_all add: fun_eq_iff)

lemma pmm_mark_used_eq:
  "pmm_mark_used addr s =
     (if page_used (bitmap (pmm s)) (page_of addr) then s else s\<lparr>pmm := take_page (page_of addr) (pmm s)\<rparr>)"
  by (simp add: pmm_mark_used_def Let_def page_index_simps take_page_def page_used_def single_bit)

lemma pmm_mark_free_eq:
  "pmm_mark_free addr s =
     (if page_used (bitmap (pmm s)) (page_of addr) then s\<lparr>pmm := give_page (page_of addr) (pmm s)\<rparr> else s)"
  by (simp add: pmm_mark_free_def Let_def page_index_simps give_page_def page_used_def single_bit)

lemma pmm_free_page_eq:
  "pmm_free_page addr s =
     (if addr mod PAGE_SIZE \<noteq> 0 then con_puts (lit ''[PMM] Invalid address alignment'' @ [ch_nl]) 0x1C s
      else if page_used (bitmap (pmm s)) (page_of addr) then s\<lparr>pmm := give_page (page_of addr) (pmm s)\<rparr>
      else con_puts (lit ''[PMM] Double free detected'' @ [ch_nl]) 0x1C s)"
  by (simp add: pmm_free_page_def Let_def page_index_simps give_page_def page_used_def single_bit)

lemma take_page_inv:
  assumes inv: "pmm_inv p" and k: "k \<in> free_frames p"
  shows "pmm_inv (take_page k p)" and "free_frames (take_page k p) = free_frames p - {k}"
proof -
  let ?n = "unat (total_pages p)" and ?u = "page_used (bitmap p)"
  from k have kn: "k < ?n" and ku: "\<not> ?u k" by (auto simp add: free_frames_def)
  have pos: "0 < unat (free_pages p)"
    using inv kn ku by (auto simp add: pmm_inv_def count_below_pos)
  have fp: "unat (free_pages p - 1) = unat (free_pages p) - 1"
    using pos by (intro unat_minus_one_nz) auto
  have up: "unat (used_pages p + 1) = unat (used_pages p) + 1"
    using inv count_below_le [of ?n ?u] by (intro unat_plus_one_no_wrap) (auto simp add: pmm_inv_def)
  have used: "count_below ?n (\<lambda>i. i = k \<or> ?u i) = Suc (count_below ?n ?u)"
    using kn ku by (rule count_below_insert)
  have free: "Suc (count_below ?n (\<lambda>i. \<not> ?u i \<and> i \<noteq> k)) = count_below ?n (\<lambda>i. \<not> ?u i)"
    using kn ku by (intro count_below_remove) auto
  have free': "count_below ?n (\<lambda>i. i \<noteq> k \<and> \<not> ?u i) = count_below ?n (\<lambda>i. \<not> ?u i) - 1"
    using free by (simp add: conj_commute)
  show "pmm_inv (take_page k p)"
    using inv up fp used free' unfolding pmm_inv_def page_used_take_fun
    by (simp add: take_page_def)
  show "free_frames (take_page k p) = free_frames p - {k}"
    by (auto simp add: free_frames_def)
qed

lemma give_page_inv:
  assumes inv: "pmm_inv p" and k: "k < unat (total_pages p)" and ku: "page_used (bitmap p) k"
  shows "pmm_inv (give_page k p)" and "free_frames (give_page k p) = insert k (free_frames p)"
proof -
  let ?n = "unat (total_pages p)" and ?u = "page_used (bitmap p)"
  have pos: "0 < unat (used_pages p)"
    using inv k ku by (auto simp add: pmm_inv_def count_below_pos)
  have up: "unat (used_pages p - 1) = unat (used_pages p) - 1"
    using pos by (intro unat_minus_one_nz) auto
  have fp: "unat (free_pages p + 1) = unat (free_pages p) + 1"
    using inv count_below_le [of ?n "\<lambda>i. \<not> ?u i"]
    by (intro unat_plus_one_no_wrap) (auto simp add: pmm_inv_def)
  have used: "Suc (count_below ?n (\<lambda>i. ?u i \<and> i \<noteq> k)) = count_below ?n ?u"
    using k ku by (rule count_below_remove)
  have free: "count_below ?n (\<lambda>i. i = k \<or> \<not> ?u i) = Suc (count_below ?n (\<lambda>i. \<not> ?u i))"
    using k ku by (intro count_below_insert) auto
  have neg: "(\<lambda>i. \<not> (?u i \<and> i \<noteq> k)) = (\<lambda>i. i = k \<or> \<not> ?u i)" by auto
  show "pmm_inv (give_page k p)"
    using inv up fp used free neg unfolding pmm_inv_def page_used_give_fun
    by (simp add: give_page_def)
  show "free_frames (give_page k p) = insert k (free_frames p)"
    using k by (auto simp add: free_frames_def)
qed

section \<open>Allocation takes the least free page\<close>

declare mmap_max_usable.simps [code] mmap_free_usable.simps [code]
declare scan_bits.simps [simp del] scan_words.simps [simp del]

lemma scan_bits_first:
  "j \<le> k \<Longrightarrow> k < 32 \<Longrightarrow> \<not> bit w k \<Longrightarrow>
   \<exists>l. scan_bits w j = Some l \<and> j \<le> l \<and> l < 32 \<and> \<not> bit w l \<and> (\<forall>m. j \<le> m \<and> m < l \<longrightarrow> bit w m)"
proof (induction w j rule: scan_bits.induct)
  case (1 w j)
  show ?case
  proof (cases "bit w j")
    case False
    then show ?thesis using "1.prems" by (subst scan_bits.simps) (auto simp add: single_bit)
  next
    case True
    with "1.prems" have jk: "Suc j \<le> k" by (metis Suc_leI le_neq_implies_less)
    have "w AND push_bit j 1 \<noteq> 0" using True by (simp add: single_bit)
    then obtain l where l: "scan_bits w (Suc j) = Some l" "Suc j \<le> l" "l < 32" "\<not> bit w l"
        "\<forall>m. Suc j \<le> m \<and> m < l \<longrightarrow> bit w m"
      using "1.IH" [OF _ _ jk "1.prems"(2,3)] "1.prems"(1,2) by auto
    have "scan_bits w j = Some l"
      using l(1) True "1.prems"(1,2) by (subst scan_bits.simps) (simp add: single_bit)
    with l True show ?thesis
      by (intro exI [of _ l]) (auto simp add: Suc_le_eq dest: le_neq_implies_less)
  qed
qed

lemma scan_words_first:
  "i * 32 \<le> k \<Longrightarrow> k < n * 32 \<Longrightarrow> \<not> page_used b k \<Longrightarrow>
   \<exists>l. scan_words b i n = Some (l div 32, l mod 32) \<and> l < n * 32 \<and> \<not> page_used b l \<and>
       (\<forall>m. i * 32 \<le> m \<and> m < l \<longrightarrow> page_used b m)"
proof (induction b i n rule: scan_words.induct)
  case (1 b i n)
  have "i < n" using "1.prems"(1,2) by (metis mult_less_cancel2 le_less_trans)
  show ?case
  proof (cases "b i = 0xFFFFFFFF")
    case True
    have full: "page_used b m" if "i * 32 \<le> m" "m < Suc i * 32" for m
    proof -
      have "m div 32 = i" using that by (intro div_nat_eqI) auto
      then show ?thesis using True word_neq_mask_ex_clear [of "b i"] by (auto simp add: page_used_def)
    qed
    then have "Suc i * 32 \<le> k" using "1.prems" by (meson not_le)
    then obtain l where l: "scan_words b (Suc i) n = Some (l div 32, l mod 32)" "l < n * 32"
        "\<not> page_used b l" "\<forall>m. Suc i * 32 \<le> m \<and> m < l \<longrightarrow> page_used b m"
      using "1.IH"(2) [OF \<open>i < n\<close> _ _ "1.prems"(2,3)] True by auto
    have "scan_words b i n = Some (l div 32, l mod 32)"
      using l(1) \<open>i < n\<close> True by (subst scan_words.simps) simp
    with l full show ?thesis by (intro exI [of _ l]) (auto, meson not_le)
  next
    case False
    then obtain j where j: "j < 32" "\<not> bit (b i) j" using word_neq_mask_ex_clear by auto
    obtain t where t: "scan_bits (b i) 0 = Some t" "t < 32" "\<not> bit (b i) t" "\<forall>m<t. bit (b i) m"
      using scan_bits_first [of 0 j "b i"] j by auto
    let ?l = "i * 32 + t"
    have "?l div 32 = i" and "?l mod 32 = t" using t(2) by auto
    then have "scan_words b i n = Some (?l div 32, ?l mod 32)"
      using False t(1) \<open>i < n\<close> by (subst scan_words.simps) simp
    moreover have "?l < n * 32"
    proof -
      have "Suc i * 32 \<le> n * 32" using \<open>i < n\<close> by (intro mult_le_mono1) simp
      then show ?thesis using t(2) by simp
    qed
    moreover have "\<not> page_used b ?l" using t \<open>?l div 32 = i\<close> \<open>?l mod 32 = t\<close> by (simp add: page_used_def)
    moreover have "page_used b m" if "i * 32 \<le> m" "m < ?l" for m
    proof -
      have "m div 32 = i" using that t(2) by (intro div_nat_eqI) auto
      moreover have "m mod 32 < t" using that \<open>m div 32 = i\<close> by (metis div_mult_mod_eq nat_add_left_cancel_less)
      ultimately show ?thesis using t(4) by (simp add: page_used_def)
    qed
    ultimately show ?thesis by blast
  qed
qed

lemma finite_free_frames [simp]: "finite (free_frames p)"
  by (simp add: free_frames_def)

lemma free_frames_less: "pmm_inv p \<Longrightarrow> k \<in> free_frames p \<Longrightarrow> k < 1048576"
  by (auto simp add: free_frames_def pmm_inv_def)

lemma free_pages_0_iff: "pmm_inv p \<Longrightarrow> free_pages p = 0 \<longleftrightarrow> free_frames p = {}"
proof -
  assume inv: "pmm_inv p"
  have "free_pages p = 0 \<longleftrightarrow> \<not> 0 < unat (free_pages p)" by (simp add: unat_gt_0)
  also have "\<dots> \<longleftrightarrow> free_frames p = {}"
    using inv by (auto simp add: pmm_inv_def count_below_pos free_frames_def)
  finally show ?thesis .
qed

lemma unat_bitmap_size: "pmm_inv p \<Longrightarrow> unat (bitmap_size p) = (unat (total_pages p) + 31) div 32"
  unfolding pmm_inv_def by (auto simp add: unat_div unat_add_no_wrap)

lemma pmm_alloc_page_empty:
  "pmm_inv (pmm s) \<Longrightarrow> free_frames (pmm s) = {} \<Longrightarrow>
   pmm_alloc_page s = (0, con_puts (lit ''[PMM] Out of memory!'' @ [ch_nl]) 0x1C s)"
  by (simp add: pmm_alloc_page_def Let_def free_pages_0_iff)

lemma pmm_alloc_page_least:
  assumes inv: "pmm_inv (pmm s)" and ne: "free_frames (pmm s) \<noteq> {}"
  shows "pmm_alloc_page s =
    (page_addr (Min (free_frames (pmm s))),
     s\<lparr>pmm := take_page (Min (free_frames (pmm s))) (pmm s)\<rparr>)"
proof -
  let ?p = "pmm s" and ?m = "Min (free_frames (pmm s))"
  have m: "?m \<in> free_frames ?p" using ne by simp
  then have m1: "?m < unat (total_pages ?p)" and m2: "\<not> page_used (bitmap ?p) ?m"
    by (auto simp add: free_frames_def)
  have "?m < (unat (total_pages ?p) + 31) div 32 * 32" using m1 by linarith
  then obtain l where l: "scan_words (bitmap ?p) 0 (unat (bitmap_size ?p)) = Some (l div 32, l mod 32)"
      "\<not> page_used (bitmap ?p) l" "\<forall>k<l. page_used (bitmap ?p) k"
    using scan_words_first [of 0 ?m "unat (bitmap_size ?p)" "bitmap ?p"] m2 inv
    by (auto simp add: unat_bitmap_size)
  have "l \<le> ?m" using l(3) m2 by (meson not_le)
  moreover have "?m \<le> l"
    using l(2) \<open>l \<le> ?m\<close> m1 by (intro Min_le) (auto simp add: free_frames_def)
  ultimately have lm: "l = ?m" by simp
  have addr: "(of_nat (l div 32) * 32 + of_nat (l mod 32)) * PAGE_SIZE = page_addr l"
  proof -
    have "of_nat (l div 32) * 32 + of_nat (l mod 32) = (of_nat (l div 32 * 32 + l mod 32) :: u32)"
      by (simp only: of_nat_add of_nat_mult of_nat_numeral)
    then show ?thesis by (simp add: page_addr_def)
  qed
  have "free_pages ?p \<noteq> 0" using inv ne by (simp add: free_pages_0_iff)
  then show ?thesis
    using l(1) addr lm by (simp add: pmm_alloc_page_def Let_def take_page_def)
qed

section \<open>The contract the clients rely on\<close>

locale page_allocator =
  fixes alloc :: "'s \<Rightarrow> u32 \<times> 's"
    and release :: "u32 \<Rightarrow> 's \<Rightarrow> 's"
    and inv :: "'s \<Rightarrow> bool"
    and frames :: "'s \<Rightarrow> nat"
    and free :: "'s \<Rightarrow> nat set"
  assumes finite_free: "finite (free s)"
    and frames_bound: "inv s \<Longrightarrow> frames s \<le> 1048576"
    and free_bound: "k \<in> free s \<Longrightarrow> k < frames s"
    and alloc_empty: "inv s \<Longrightarrow> free s = {} \<Longrightarrow>
          fst (alloc s) = 0 \<and> inv (snd (alloc s)) \<and> frames (snd (alloc s)) = frames s \<and>
          free (snd (alloc s)) = {}"
    and alloc_least: "inv s \<Longrightarrow> free s \<noteq> {} \<Longrightarrow>
          fst (alloc s) = page_addr (Min (free s)) \<and> inv (snd (alloc s)) \<and>
          frames (snd (alloc s)) = frames s \<and> free (snd (alloc s)) = free s - {Min (free s)}"
    and release_used: "inv s \<Longrightarrow> k < frames s \<Longrightarrow>
          inv (release (page_addr k) s) \<and> frames (release (page_addr k) s) = frames s \<and>
          free (release (page_addr k) s) = insert k (free s)"
begin

lemma alloc_inv: "inv s \<Longrightarrow> inv (snd (alloc s))"
  using alloc_empty alloc_least by (cases "free s = {}") auto

lemma alloc_frames: "inv s \<Longrightarrow> frames (snd (alloc s)) = frames s"
  using alloc_empty alloc_least by (cases "free s = {}") auto

lemma alloc_free_shrinks: "inv s \<Longrightarrow> free (snd (alloc s)) \<subseteq> free s"
  using alloc_empty alloc_least by (cases "free s = {}") auto

lemma alloc_nonzero:
  assumes "inv s" and "0 \<notin> free s"
  shows "fst (alloc s) = 0 \<longleftrightarrow> free s = {}"
proof (cases "free s = {}")
  case True
  then show ?thesis using assms alloc_empty by simp
next
  case False
  then have "Min (free s) \<in> free s" using finite_free by simp
  then have "Min (free s) < 1048576" and "Min (free s) \<noteq> 0"
    using free_bound frames_bound [OF assms(1)] assms(2) by (fastforce, metis)
  then show ?thesis using False assms alloc_least by (simp add: page_addr_eq_0)
qed

lemma alloc_then_release:
  assumes "inv s" and "free s \<noteq> {}"
  shows "free (release (fst (alloc s)) (snd (alloc s))) = free s"
proof -
  have "Min (free s) \<in> free s" using assms finite_free by simp
  moreover note alloc_least [OF assms]
  ultimately show ?thesis using release_used [of "snd (alloc s)" "Min (free s)"] free_bound by auto
qed

lemma two_allocs_differ:
  assumes "inv s" and "free s \<noteq> {}" and "free (snd (alloc s)) \<noteq> {}"
  shows "fst (alloc (snd (alloc s))) \<noteq> fst (alloc s)"
proof -
  let ?s = "snd (alloc s)"
  have a: "Min (free s) \<in> free s" "Min (free ?s) \<in> free ?s" using assms finite_free by simp_all
  have s1: "fst (alloc s) = page_addr (Min (free s))" "free ?s = free s - {Min (free s)}"
    using alloc_least [OF assms(1,2)] by simp_all
  have s2: "fst (alloc ?s) = page_addr (Min (free ?s))"
    using alloc_least [OF alloc_inv [OF assms(1)] assms(3)] by simp
  have "Min (free ?s) \<in> free s" and "Min (free ?s) \<noteq> Min (free s)" using a s1(2) by auto
  then show ?thesis
    using s1(1) s2 page_addr_inj free_bound a(1) frames_bound [OF assms(1)]
    by (metis order_less_le_trans)
qed

text \<open>Where the lowest free pages are consecutive, successive calls return consecutive pages.\<close>

lemma alloc_run:
  assumes "inv s" and "{m..<m + n} \<subseteq> free s" and "\<forall>k \<in> free s. m \<le> k"
  shows "inv (((\<lambda>s. snd (alloc s)) ^^ n) s) \<and> frames (((\<lambda>s. snd (alloc s)) ^^ n) s) = frames s \<and>
    free (((\<lambda>s. snd (alloc s)) ^^ n) s) = free s - {m..<m + n} \<and>
    (\<forall>i < n. fst (alloc (((\<lambda>s. snd (alloc s)) ^^ i) s)) = page_addr (m + i))"
  using assms(2)
proof (induction n)
  case 0
  then show ?case using assms(1) by simp
next
  case (Suc n)
  let ?t = "((\<lambda>s. snd (alloc s)) ^^ n) s"
  have sub: "{m..<m + n} \<subseteq> free s" using Suc.prems by auto
  have IH: "inv ?t" "frames ?t = frames s" "free ?t = free s - {m..<m + n}"
      "\<forall>i < n. fst (alloc (((\<lambda>s. snd (alloc s)) ^^ i) s)) = page_addr (m + i)"
    using Suc.IH [OF sub] by auto
  have mem: "m + n \<in> free ?t" using IH(3) Suc.prems by auto
  have least: "Min (free ?t) = m + n"
  proof (rule Min_eqI [OF finite_free _ mem])
    fix k assume "k \<in> free ?t"
    with IH(3) assms(3) show "m + n \<le> k" by force
  qed
  have "free ?t \<noteq> {}" using mem by auto
  note al = alloc_least [OF IH(1) this, unfolded least]
  have unroll: "((\<lambda>s. snd (alloc s)) ^^ Suc n) s = snd (alloc ?t)" by simp
  have free': "free (snd (alloc ?t)) = free s - {m..<m + Suc n}"
  proof -
    have "free (snd (alloc ?t)) = free ?t - {m + n}" using al by blast
    also have "\<dots> = free s - {m..<m + n} - {m + n}" by (simp only: IH(3))
    also have "\<dots> = free s - {m..<m + Suc n}" by (auto simp add: less_Suc_eq)
    finally show ?thesis .
  qed
  have addr: "fst (alloc (((\<lambda>s. snd (alloc s)) ^^ i) s)) = page_addr (m + i)" if "i < Suc n" for i
  proof (cases "i = n")
    case True
    then show ?thesis using conjunct1 [OF al] by (simp only:)
  next
    case False
    then show ?thesis using that IH(4) by simp
  qed
  have "inv (snd (alloc ?t))" and "frames (snd (alloc ?t)) = frames s"
    using al by (simp_all only: IH(2))
  with free' addr show ?case unfolding unroll by (intro conjI allI impI)
qed

end

text \<open>\<open>pmm.c\<close> meets the contract.\<close>

lemma pmm_alloc_page_pmm:
  "pmm_inv (pmm s) \<Longrightarrow> pmm (snd (pmm_alloc_page s)) =
     (if free_frames (pmm s) = {} then pmm s else take_page (Min (free_frames (pmm s))) (pmm s))"
  by (simp add: pmm_alloc_page_empty pmm_alloc_page_least con_puts_def)

lemma pmm_release_used:
  assumes inv: "pmm_inv (pmm s)" and k: "k < unat (total_pages (pmm s))"
  shows "pmm_inv (pmm (pmm_free_page (page_addr k) s)) \<and>
    total_pages (pmm (pmm_free_page (page_addr k) s)) = total_pages (pmm s) \<and>
    free_frames (pmm (pmm_free_page (page_addr k) s)) = insert k (free_frames (pmm s))"
proof -
  have k': "k < 1048576" using inv k by (auto simp add: pmm_inv_def)
  show ?thesis
  proof (cases "page_used (bitmap (pmm s)) k")
    case True
    then show ?thesis
      using inv k k' give_page_inv [OF inv k True] by (simp add: pmm_free_page_eq page_addr_aligned)
  next
    case False
    then have "k \<in> free_frames (pmm s)" using k by (simp add: free_frames_def)
    then show ?thesis
      using inv k' False by (auto simp add: pmm_free_page_eq page_addr_aligned con_puts_def)
  qed
qed

interpretation pmm_pages: page_allocator pmm_alloc_page pmm_free_page
    "\<lambda>s. pmm_inv (pmm s)" "\<lambda>s. unat (total_pages (pmm s))" "\<lambda>s. free_frames (pmm s)"
proof
  fix s :: "'a pmm_sys_scheme"
  show "finite (free_frames (pmm s))" by simp
next
  fix s :: "'a pmm_sys_scheme" assume inv: "pmm_inv (pmm s)"
  then show "unat (total_pages (pmm s)) \<le> 1048576" by (simp add: pmm_inv_def)
  assume "free_frames (pmm s) = {}"
  with inv show "fst (pmm_alloc_page s) = 0 \<and> pmm_inv (pmm (snd (pmm_alloc_page s))) \<and>
      unat (total_pages (pmm (snd (pmm_alloc_page s)))) = unat (total_pages (pmm s)) \<and>
      free_frames (pmm (snd (pmm_alloc_page s))) = {}"
    by (simp add: pmm_alloc_page_empty con_puts_def)
next
  fix s :: "'a pmm_sys_scheme" and k assume "k \<in> free_frames (pmm s)"
  then show "k < unat (total_pages (pmm s))" by (simp add: free_frames_def)
next
  fix s :: "'a pmm_sys_scheme" assume a: "pmm_inv (pmm s)" "free_frames (pmm s) \<noteq> {}"
  then have "Min (free_frames (pmm s)) \<in> free_frames (pmm s)" by simp
  with a show "fst (pmm_alloc_page s) = page_addr (Min (free_frames (pmm s))) \<and>
      pmm_inv (pmm (snd (pmm_alloc_page s))) \<and>
      unat (total_pages (pmm (snd (pmm_alloc_page s)))) = unat (total_pages (pmm s)) \<and>
      free_frames (pmm (snd (pmm_alloc_page s))) =
        free_frames (pmm s) - {Min (free_frames (pmm s))}"
    by (simp add: pmm_alloc_page_least take_page_inv)
next
  fix s :: "'a pmm_sys_scheme" and k assume "pmm_inv (pmm s)" "k < unat (total_pages (pmm s))"
  then show "pmm_inv (pmm (pmm_free_page (page_addr k) s)) \<and>
      unat (total_pages (pmm (pmm_free_page (page_addr k) s))) = unat (total_pages (pmm s)) \<and>
      free_frames (pmm (pmm_free_page (page_addr k) s)) = insert k (free_frames (pmm s))"
    by (simp add: pmm_release_used)
qed

section \<open>Initialisation\<close>

lemma bitmap_fill_apply [simp]: "bitmap_fill w n b i = (if i < n then w else b i)"
  by (simp add: bitmap_fill_def fold_fill_range)

lemma pmm_set_size_eq:
  "pmm_set_size m p = p\<lparr>total_pages := m div PAGE_SIZE, bitmap_size := (m div PAGE_SIZE + 31) div 32\<rparr>"
proof -
  have "unat (m div PAGE_SIZE) < 1048576" using page_of_less [of m] by (simp add: page_of_def unat_div)
  then have "unat ((m div PAGE_SIZE + 31) div 32) \<le> 32768"
    by (simp add: unat_div unat_add_no_wrap)
  then have "\<not> (m div PAGE_SIZE + 31) div 32 > 32768" by (simp add: word_less_nat_alt)
  then show ?thesis by (simp add: pmm_set_size_def Let_def)
qed

lemma total_pages_bound: "unat (m div PAGE_SIZE) < 1048576"
  using page_of_less [of m] by (simp add: page_of_def unat_div)

lemma page_used_below_size:
  assumes "k < unat (m div PAGE_SIZE)"
  shows "page_used (bitmap_fill w (unat ((m div PAGE_SIZE + 31) div 32)) b) k \<longleftrightarrow> bit w (k mod 32)"
proof -
  have "unat ((m div PAGE_SIZE + 31) div 32) = (unat (m div PAGE_SIZE) + 31) div 32"
    using total_pages_bound [of m] by (simp add: unat_div unat_add_no_wrap)
  then have "k div 32 < unat ((m div PAGE_SIZE + 31) div 32)" using assms by simp
  then show ?thesis by (simp add: page_used_def)
qed

lemma pmm_init_pmm:
  "pmm (pmm_init m a s) =
     (pmm s)\<lparr>total_pages := m div PAGE_SIZE, bitmap_size := (m div PAGE_SIZE + 31) div 32,
       used_pages := 0, free_pages := m div PAGE_SIZE,
       bitmap := bitmap_fill 0 (unat ((m div PAGE_SIZE + 31) div 32)) (bitmap (pmm s))\<rparr>"
  by (simp add: pmm_init_def Let_def con_puts_def pmm_set_size_eq)

lemma count_filled:
  fixes m :: u32 and w :: u32 and b :: "nat \<Rightarrow> u32"
  defines "n \<equiv> unat (m div PAGE_SIZE)"
    and "b' \<equiv> bitmap_fill w (unat ((m div PAGE_SIZE + 31) div 32)) b"
  shows "count_below n (page_used b') = count_below n (\<lambda>k. bit w (k mod 32))"
    and "count_below n (\<lambda>k. \<not> page_used b' k) = count_below n (\<lambda>k. \<not> bit w (k mod 32))"
  unfolding n_def b'_def by (rule count_below_cong; simp add: page_used_below_size del: bitmap_fill_apply)+

lemma pmm_init_inv: "pmm_inv (pmm (pmm_init m a s))"
  using total_pages_bound [of m] by (simp add: pmm_inv_def pmm_init_pmm count_filled)

lemma pmm_init_free: "free_frames (pmm (pmm_init m a s)) = {..<unat m div 4096}"
proof -
  let ?n = "unat (m div PAGE_SIZE)"
    and ?b = "bitmap_fill 0 (unat ((m div PAGE_SIZE + 31) div 32)) (bitmap (pmm s))"
  have "\<not> page_used ?b k" if "k < ?n" for k using that by (simp only: page_used_below_size) simp
  then have "{k. k < ?n \<and> \<not> page_used ?b k} = {..<?n}" by auto
  moreover have "total_pages (pmm (pmm_init m a s)) = m div PAGE_SIZE"
    and "bitmap (pmm (pmm_init m a s)) = ?b" by (simp_all add: pmm_init_pmm)
  ultimately show ?thesis by (simp only: free_frames_def) (simp add: unat_div)
qed

text \<open>Folding the two marking operations over a list of page numbers.\<close>

lemma fold_mark_used:
  assumes "pmm_inv (pmm s)" and "\<forall>k \<in> set ks. k < unat (total_pages (pmm s))"
  shows "pmm_inv (pmm (fold (\<lambda>k. pmm_mark_used (of_nat k * PAGE_SIZE)) ks s)) \<and>
    total_pages (pmm (fold (\<lambda>k. pmm_mark_used (of_nat k * PAGE_SIZE)) ks s)) = total_pages (pmm s) \<and>
    free_frames (pmm (fold (\<lambda>k. pmm_mark_used (of_nat k * PAGE_SIZE)) ks s)) =
      free_frames (pmm s) - set ks"
  using assms
proof (induction ks arbitrary: s)
  case (Cons k ks)
  let ?s = "pmm_mark_used (page_addr k) s"
  have k: "k < unat (total_pages (pmm s))" "k < 1048576"
    using Cons.prems by (auto simp add: pmm_inv_def)
  have step: "pmm_inv (pmm ?s) \<and> total_pages (pmm ?s) = total_pages (pmm s) \<and>
      free_frames (pmm ?s) = free_frames (pmm s) - {k}"
    using Cons.prems(1) k take_page_inv [of "pmm s" k]
    by (auto simp add: pmm_mark_used_eq free_frames_def)
  have *: "of_nat k * PAGE_SIZE = page_addr k" by (simp add: page_addr_def)
  have "fold (\<lambda>k. pmm_mark_used (of_nat k * PAGE_SIZE)) (k # ks) s =
      fold (\<lambda>k. pmm_mark_used (of_nat k * PAGE_SIZE)) ks ?s" by (simp only: fold_simps *)
  with Cons.IH [of ?s] Cons.prems(2) step show ?case by auto
qed simp

lemma fold_mark_free:
  assumes "pmm_inv (pmm s)" and "\<forall>k \<in> set ks. k < unat (total_pages (pmm s))"
  shows "pmm_inv (pmm (fold (\<lambda>k. pmm_mark_free (of_nat k * PAGE_SIZE)) ks s)) \<and>
    total_pages (pmm (fold (\<lambda>k. pmm_mark_free (of_nat k * PAGE_SIZE)) ks s)) = total_pages (pmm s) \<and>
    free_frames (pmm (fold (\<lambda>k. pmm_mark_free (of_nat k * PAGE_SIZE)) ks s)) =
      free_frames (pmm s) \<union> set ks"
  using assms
proof (induction ks arbitrary: s)
  case (Cons k ks)
  let ?s = "pmm_mark_free (page_addr k) s"
  have k: "k < unat (total_pages (pmm s))" "k < 1048576"
    using Cons.prems by (auto simp add: pmm_inv_def)
  have step: "pmm_inv (pmm ?s) \<and> total_pages (pmm ?s) = total_pages (pmm s) \<and>
      free_frames (pmm ?s) = insert k (free_frames (pmm s))"
    using Cons.prems(1) k give_page_inv [of "pmm s" k]
    by (auto simp add: pmm_mark_free_eq free_frames_def)
  have *: "of_nat k * PAGE_SIZE = page_addr k" by (simp add: page_addr_def)
  have "fold (\<lambda>k. pmm_mark_free (of_nat k * PAGE_SIZE)) (k # ks) s =
      fold (\<lambda>k. pmm_mark_free (of_nat k * PAGE_SIZE)) ks ?s" by (simp only: fold_simps *)
  with Cons.IH [of ?s] Cons.prems(2) step show ?case by auto
qed simp

lemma mark_used_prefix:
  assumes "pmm_inv (pmm s)" and "n \<le> unat (total_pages (pmm s))"
    and "t = fold (\<lambda>k. pmm_mark_used (of_nat k * PAGE_SIZE)) [0..<n] s"
  shows "pmm_inv (pmm t) \<and> total_pages (pmm t) = total_pages (pmm s) \<and>
    free_frames (pmm t) = free_frames (pmm s) - {..<n}"
  unfolding assms(3) using fold_mark_used [of s "[0..<n]"] assms(1,2)
  by (simp add: atLeast_upt)

lemma reserve_low_memory_inv:
  assumes "pmm_inv (pmm s)" and "512 \<le> unat (total_pages (pmm s))"
  shows "pmm_inv (pmm (reserve_low_memory s))"
    and "total_pages (pmm (reserve_low_memory s)) = total_pages (pmm s)"
    and "free_frames (pmm (reserve_low_memory s)) = free_frames (pmm s) - {..<512}"
  using mark_used_prefix [OF assms reserve_low_memory_def] by simp_all

section \<open>The memory map as a list of entries\<close>

text \<open>The entries the walk from \<open>a\<close> to \<open>mmap_end\<close> visits; no such list exists when it never ends.\<close>

fun mmap_list :: "(u32 \<Rightarrow> u8) \<Rightarrow> u32 \<Rightarrow> u32 \<Rightarrow> multiboot_memory_map_t list \<Rightarrow> bool" where
  "mmap_list m a mmap_end [] \<longleftrightarrow> \<not> a < mmap_end"
| "mmap_list m a mmap_end (en # ens) \<longleftrightarrow>
     a < mmap_end \<and> en = mmap_entry m a \<and> mmap_list m (mmap_next m a) mmap_end ens"

definition usable_page :: "multiboot_memory_map_t \<Rightarrow> nat \<Rightarrow> bool" where
  "usable_page en k \<longleftrightarrow> mm_type en = 1 \<and>
     unat (ucast (mm_addr en div 4096) :: u32) \<le> k \<and>
     k < unat (ucast ((mm_addr en + mm_len en) div 4096) :: u32)"

definition mmap_memory :: "multiboot_memory_map_t list \<Rightarrow> u32" where
  "mmap_memory ens = (let mx = fold mmap_max_step ens 0 in if mx > 0xFFFFFFFF then 0xFFFFFFFF else ucast mx)"

lemma mmap_max_usable_list:
  "mmap_list m a mmap_end ens \<Longrightarrow> mmap_max_usable m a mmap_end mx = Some (fold mmap_max_step ens mx)"
  by (induction ens arbitrary: a mx) (auto simp add: mmap_max_usable.simps)

lemma mmap_free_step_frames [simp]: "ram (mmap_free_step en s) = ram s"
proof -
  have "ram (fold (\<lambda>k. pmm_mark_free (of_nat k * PAGE_SIZE)) ks s) = ram s" for ks
    by (induction ks arbitrary: s) (simp_all add: pmm_mark_free_eq)
  then show ?thesis by (simp add: mmap_free_step_def Let_def)
qed

lemma mmap_free_usable_list:
  "mmap_list (ram s) a mmap_end ens \<Longrightarrow> mmap_free_usable a mmap_end s = Some (fold mmap_free_step ens s)"
  by (induction ens arbitrary: a s) (auto simp add: mmap_free_usable.simps)

lemma mmap_free_step_inv:
  assumes "pmm_inv (pmm s)"
  shows "pmm_inv (pmm (mmap_free_step en s)) \<and>
    total_pages (pmm (mmap_free_step en s)) = total_pages (pmm s) \<and>
    free_frames (pmm (mmap_free_step en s)) =
      free_frames (pmm s) \<union> {k. k < unat (total_pages (pmm s)) \<and> usable_page en k}"
  using assms fold_mark_free [of s]
  by (cases "mm_type en = 1") (auto simp add: mmap_free_step_def Let_def usable_page_def)

lemma mmap_free_fold_inv:
  assumes "pmm_inv (pmm s)"
  shows "pmm_inv (pmm (fold mmap_free_step ens s)) \<and>
    total_pages (pmm (fold mmap_free_step ens s)) = total_pages (pmm s) \<and>
    free_frames (pmm (fold mmap_free_step ens s)) =
      free_frames (pmm s) \<union> {k. k < unat (total_pages (pmm s)) \<and> (\<exists>en \<in> set ens. usable_page en k)}"
  using assms
proof (induction ens arbitrary: s)
  case (Cons en ens)
  show ?case using Cons.IH [of "mmap_free_step en s"] mmap_free_step_inv [OF Cons.prems, of en] by auto
qed simp

text \<open>The state in which everything is reserved, between the two walks.\<close>

lemma all_reserved_inv:
  fixes mem :: u32
  assumes "p = (pmm_set_size mem q)
      \<lparr>bitmap := bitmap_fill 0xFFFFFFFF (unat (bitmap_size (pmm_set_size mem q))) (bitmap (pmm_set_size mem q)),
       used_pages := total_pages (pmm_set_size mem q), free_pages := 0\<rparr>"
  shows "pmm_inv p" and "free_frames p = {}" and "total_pages p = mem div PAGE_SIZE"
proof -
  let ?n = "unat (mem div PAGE_SIZE)"
    and ?b = "bitmap_fill 0xFFFFFFFF (unat ((mem div PAGE_SIZE + 31) div 32)) (bitmap q)"
  have all: "bit (0xFFFFFFFF :: u32) (k mod 32)" for k
    using word_neq_mask_ex_clear [of "0xFFFFFFFF"] by auto
  have p: "total_pages p = mem div PAGE_SIZE" "bitmap p = ?b" "used_pages p = mem div PAGE_SIZE"
      "free_pages p = 0" "bitmap_size p = (mem div PAGE_SIZE + 31) div 32"
    by (simp_all add: assms pmm_set_size_eq)
  have n: "?n < 1048576" by (rule total_pages_bound)
  have "count_below ?n (page_used ?b) = ?n" and "count_below ?n (\<lambda>k. \<not> page_used ?b k) = 0"
    unfolding count_filled by (simp_all only: all count_below_True not_True_eq_False count_below_False)
  with n show "pmm_inv p" unfolding pmm_inv_def p by simp
  have "page_used ?b k" if "k < ?n" for k
    using that all by (simp only: page_used_below_size)
  then show "free_frames p = {}" unfolding free_frames_def p by auto
  show "total_pages p = mem div PAGE_SIZE" by (rule p)
qed

lemma pmm_init_multiboot_spec:
  assumes map: "mmap_list (ram s) mmap_addr (mmap_addr + mmap_length) ens"
    and big: "0x200000 \<le> unat (mmap_memory ens)"
  shows "\<exists>t. pmm_init_multiboot mmap_addr mmap_length s = Some t \<and> pmm_inv (pmm t) \<and>
    total_pages (pmm t) = mmap_memory ens div PAGE_SIZE \<and>
    free_frames (pmm t) =
      {k. 512 \<le> k \<and> k < unat (mmap_memory ens) div 4096 \<and> (\<exists>en \<in> set ens. usable_page en k)}"
proof -
  define s1 where "s1 = con_puts (lit ''[PMM] Parsing Multiboot Memory Map...'' @ [ch_nl]) 0x1A s"
  define p where "p = (let p = pmm_set_size (mmap_memory ens) (pmm s1)
    in p\<lparr>bitmap := bitmap_fill 0xFFFFFFFF (unat (bitmap_size p)) (bitmap p),
         used_pages := total_pages p, free_pages := 0\<rparr>)"
  define s2 where "s2 = fold mmap_free_step ens (s1\<lparr>pmm := p\<rparr>)"
  have ram1: "ram s1 = ram s" by (simp add: s1_def frame_simps)
  have cast: "ucast (if mx > 0xFFFFFFFF then 0xFFFFFFFF else mx) =
      (if mx > (0xFFFFFFFF :: u64) then 0xFFFFFFFF else ucast mx :: u32)" for mx
    by simp
  have walk1: "mmap_max_usable (ram s1) mmap_addr (mmap_addr + mmap_length) 0 =
      Some (fold mmap_max_step ens 0)"
    using map ram1 by (simp add: mmap_max_usable_list)
  have walk2: "mmap_free_usable mmap_addr (mmap_addr + mmap_length) (s1\<lparr>pmm := p\<rparr>) = Some s2"
    unfolding s2_def using map ram1 by (intro mmap_free_usable_list) simp
  have p: "pmm_inv p" "free_frames p = {}" "total_pages p = mmap_memory ens div PAGE_SIZE"
    using all_reserved_inv [of p "mmap_memory ens" "pmm s1"] by (auto simp add: p_def Let_def)
  have "unat (total_pages p) = unat (mmap_memory ens) div 4096" by (simp add: p(3) unat_div)
  with p mmap_free_fold_inv [of "s1\<lparr>pmm := p\<rparr>" ens]
  have s2: "pmm_inv (pmm s2)" "total_pages (pmm s2) = mmap_memory ens div PAGE_SIZE"
      "unat (total_pages (pmm s2)) = unat (mmap_memory ens) div 4096"
      "free_frames (pmm s2) =
         {k. k < unat (mmap_memory ens) div 4096 \<and> (\<exists>en \<in> set ens. usable_page en k)}"
    unfolding s2_def by auto
  have "512 \<le> unat (total_pages (pmm s2))" using big s2(3) by simp
  note low = reserve_low_memory_inv [OF s2(1) this]
  have "\<exists>t. pmm_init_multiboot mmap_addr mmap_length s = Some t \<and> pmm t = pmm (reserve_low_memory s2)"
    unfolding pmm_init_multiboot_def Let_def s1_def [symmetric] walk1 option.case cast
    using walk2 unfolding p_def mmap_memory_def Let_def by (simp add: con_puts_def)
  then show ?thesis using low s2(2,4) by auto
qed

section \<open>Properties\<close>

text \<open>A machine on which \<open>pmm_init\<close> has set up sixteen page frames.\<close>

definition demo_console :: pmm_sys where
  "demo_console = \<lparr>io_trace = [], ram = (\<lambda>_. 0),
     vga = \<lparr>vga_buffer = (\<lambda>_. 0), cursor_x = 0, cursor_y = 0\<rparr>,
     pmm = \<lparr>bitmap = (\<lambda>_. 0), total_pages = 0, used_pages = 0, free_pages = 0, bitmap_size = 0\<rparr>\<rparr>"

definition demo_pmm :: pmm_sys where
  "demo_pmm = pmm_init 0x10000 0 demo_console"

lemma demo_pmm_inv: "pmm_inv (pmm demo_pmm)"
  unfolding demo_pmm_def by (rule pmm_init_inv)

lemma demo_pmm_free: "free_frames (pmm demo_pmm) = {..<16}"
  unfolding demo_pmm_def pmm_init_free by simp

lemma demo_pmm_total: "total_pages (pmm demo_pmm) = 16"
  by (simp add: demo_pmm_def pmm_init_pmm)

text \<open>C12. \<open>pmm_alloc_page\<close> hands out the lowest free page frame and takes it, and only it, off the free
  frames; with none free it returns NULL; the bitmap and the two counters stay consistent.\<close>

theorem pmm_alloc_contract:
  assumes "pmm_inv (pmm s)"
  shows "pmm_inv (pmm (snd (pmm_alloc_page s))) \<and>
    (if free_frames (pmm s) = {} then fst (pmm_alloc_page s) = 0 \<and> pmm (snd (pmm_alloc_page s)) = pmm s
     else fst (pmm_alloc_page s) = page_addr (Min (free_frames (pmm s))) \<and>
       free_frames (pmm (snd (pmm_alloc_page s))) = free_frames (pmm s) - {Min (free_frames (pmm s))})"
proof (cases "free_frames (pmm s) = {}")
  case True
  then show ?thesis using pmm_alloc_page_empty [OF assms True] assms by (simp add: con_puts_def)
next
  case False
  then show ?thesis using pmm_pages.alloc_least [OF assms False] by (simp only: if_False simp_thms)
qed

theorem pmm_alloc_contract_witness:
  "pmm_inv (pmm (snd (pmm_alloc_page demo_pmm))) \<and>
    (if free_frames (pmm demo_pmm) = {}
     then fst (pmm_alloc_page demo_pmm) = 0 \<and> pmm (snd (pmm_alloc_page demo_pmm)) = pmm demo_pmm
     else fst (pmm_alloc_page demo_pmm) = page_addr (Min (free_frames (pmm demo_pmm))) \<and>
       free_frames (pmm (snd (pmm_alloc_page demo_pmm))) =
         free_frames (pmm demo_pmm) - {Min (free_frames (pmm demo_pmm))})"
  by (rule pmm_alloc_contract [OF demo_pmm_inv])



text \<open>C14. Started from a Multiboot memory map whose walk ends and whose usable memory reaches 2 MB, the page
  allocator returns from its initialisation with a consistent state in which the free frames are exactly the
  frames of usable entries above the first 2 MB.\<close>

theorem pmm_init_multiboot_frames:
  assumes "mmap_list (ram s) mmap_addr (mmap_addr + mmap_length) ens"
    and "0x200000 \<le> unat (mmap_memory ens)"
  shows "\<exists>t. pmm_init_multiboot mmap_addr mmap_length s = Some t \<and> pmm_inv (pmm t) \<and>
    free_frames (pmm t) =
      {k. 512 \<le> k \<and> k < unat (mmap_memory ens) div 4096 \<and> (\<exists>en \<in> set ens. usable_page en k)}"
  using pmm_init_multiboot_spec [OF assms] by blast

text \<open>A memory map of one entry at \<open>0x100\<close>: 20 bytes long, usable memory from 0 to 8 MB.\<close>

definition demo_mmap_ram :: "u32 \<Rightarrow> u8" where
  "demo_mmap_ram = store_bytes (\<lambda>_. 0) 0x100
     [20, 0, 0, 0,  0, 0, 0, 0, 0, 0, 0, 0,  0, 0, 0x80, 0, 0, 0, 0, 0,  1, 0, 0, 0]"

lemma demo_mmap_entry:
  "mmap_entry demo_mmap_ram 0x100 = \<lparr>mm_size = 20, mm_addr = 0, mm_len = 0x800000, mm_type = 1\<rparr>"
  by code_simp

theorem pmm_init_multiboot_frames_witness:
  "\<exists>t. pmm_init_multiboot 0x100 24 (demo_console\<lparr>ram := demo_mmap_ram\<rparr>) = Some t \<and> pmm_inv (pmm t) \<and>
    free_frames (pmm t) =
      {k. 512 \<le> k \<and> k < unat (mmap_memory [mmap_entry demo_mmap_ram 0x100]) div 4096 \<and>
        (\<exists>en \<in> set [mmap_entry demo_mmap_ram 0x100]. usable_page en k)}"
  by (rule pmm_init_multiboot_frames)
     (simp_all add: mmap_next_def demo_mmap_entry mmap_memory_def mmap_max_step_def)

text \<open>The memory-size variant of the initialisation leaves frame 0 free, so the first allocation after
  it succeeds with address 0, which every caller takes for failure, and the frame is lost.\<close>

theorem pmm_init_first_page_is_null:
  assumes "4096 \<le> unat mem_size"
  shows "fst (pmm_alloc_page (pmm_init mem_size a s)) = 0 \<and>
    free_frames (pmm (snd (pmm_alloc_page (pmm_init mem_size a s)))) = {1..<unat mem_size div 4096}"
proof -
  have pos: "0 < unat mem_size div 4096" using assms by (simp add: div_greater_zero_iff)
  then have "free_frames (pmm (pmm_init mem_size a s)) \<noteq> {}" and least: "Min {..<unat mem_size div 4096} = 0"
    by (auto simp add: pmm_init_free lessThan_empty_iff intro!: Min_eqI)
  note al = pmm_pages.alloc_least [OF pmm_init_inv this(1), unfolded pmm_init_free least]
  have "{..<unat mem_size div 4096} - {0} = {1..<unat mem_size div 4096}" by auto
  moreover have "page_addr 0 = 0" by (simp add: page_addr_def)
  ultimately show ?thesis using al by (simp only: simp_thms)
qed

theorem pmm_init_first_page_is_null_witness:
  "fst (pmm_alloc_page (pmm_init 0x10000 0 demo_console)) = 0 \<and>
    free_frames (pmm (snd (pmm_alloc_page (pmm_init 0x10000 0 demo_console)))) = {1..<unat (0x10000 :: u32) div 4096}"
  by (rule pmm_init_first_page_is_null) simp

end
