(* ===== verification/Heap.thy ===== *)
theory Heap
  imports Pmm
begin

text \<open>
  The kernel heap, \<^verbatim>\<open>src/kernel/heap.c\<close>.

  Block headers live in pages obtained from the page allocator; \<open>heap_mem\<close> is the header found at an
  address, and pointers are 32-bit addresses with 0 as NULL.  The two list walks (first fit, last
  block) follow \<open>next\<close> pointers and may never end on a corrupted list, so \<open>kmalloc\<close> has an optional
  result, \<open>None\<close> meaning that it does not return; \<open>kmalloc_returns_on_list\<close> rules that out for a
  well-formed list.

  Here are the operations, the invariant \<open>heap_wf\<close> (the doubly linked list is well formed and
  \<open>heap_total\<close> and \<open>heap_used\<close> are the sums they are meant to be) and the effect of \<open>kmalloc\<close> on it;
  \<open>Heap_Free\<close> treats \<open>kfree\<close> and \<open>Heap_Owns\<close> the pages the blocks stand on.
\<close>

section \<open>State\<close>

record heap_block_t =
  hb_size :: u32
  hb_used :: u32
  hb_next :: u32
  hb_prev :: u32

record heap_sys = pmm_sys +
  heap_head :: u32
  heap_total :: u32
  heap_used :: u32
  heap_mem :: "u32 \<Rightarrow> heap_block_t"

abbreviation HEADER_SIZE :: u32 where "HEADER_SIZE \<equiv> 16"

text \<open>A store through a block pointer: \<open>upd_block a f m\<close> changes the header at \<open>a\<close> by \<open>f\<close>.\<close>

definition upd_block ::
    "u32 \<Rightarrow> (heap_block_t \<Rightarrow> heap_block_t) \<Rightarrow> (u32 \<Rightarrow> heap_block_t) \<Rightarrow> (u32 \<Rightarrow> heap_block_t)" where
  "upd_block a f m = m(a := f (m a))"

section \<open>Operations\<close>

definition heap_init :: "'a heap_sys_scheme \<Rightarrow> 'a heap_sys_scheme" where
  "heap_init s = con_puts (lit ''[HEAP] Initialized'' @ [ch_nl]) 0x1A
     (s\<lparr>heap_head := 0, heap_total := 0, heap_used := 0\<rparr>)"

definition align4 :: "u32 \<Rightarrow> u32" where
  "align4 sz = (sz + 3) AND NOT 3"

text \<open>Pages \<open>addr\<close>, \<open>addr + PAGE_SIZE\<close>, \<dots> (\<open>n\<close> of them) go back to the page allocator.\<close>

definition free_page_run :: "u32 \<Rightarrow> nat \<Rightarrow> 'a pmm_sys_scheme \<Rightarrow> 'a pmm_sys_scheme" where
  "free_page_run addr n s = fold (\<lambda>i. pmm_free_page (addr + of_nat i * PAGE_SIZE)) [0..<n] s"

text \<open>The loop of lines 43--51; \<open>False\<close> is its early return, after giving the pages back.\<close>

function alloc_more_pages ::
    "u32 \<Rightarrow> nat \<Rightarrow> nat \<Rightarrow> 'a pmm_sys_scheme \<Rightarrow> bool \<times> 'a pmm_sys_scheme" where
  "alloc_more_pages page i pages s =
     (if i < pages then
        (let (q, s) = pmm_alloc_page s
         in if q = 0 then (False, free_page_run page i s)
            else alloc_more_pages page (Suc i) pages s)
      else (True, s))"
  by pat_completeness auto
termination
  by (relation "measure (\<lambda>(page, i, pages, s). pages - i)") auto

definition create_block :: "u32 \<Rightarrow> 'a heap_sys_scheme \<Rightarrow> u32 \<times> 'a heap_sys_scheme" where
  "create_block sz s =
     (let total_size = align4 sz + HEADER_SIZE;
          pages = (total_size + PAGE_SIZE - 1) div PAGE_SIZE;
          (page, s) = pmm_alloc_page s
      in if page = 0 then (0, s)
         else
           (let (ok, s) = alloc_more_pages page 1 (unat pages) s
            in if \<not> ok then (0, s)
               else (page,
                     s\<lparr>heap_mem := (heap_mem s)
                         (page := \<lparr>hb_size = total_size, hb_used = 1, hb_next = 0, hb_prev = 0\<rparr>),
                       heap_total := heap_total s + total_size,
                       heap_used := heap_used s + total_size\<rparr>)))"

text \<open>The first free block from \<open>b\<close> on that is large enough; 0 when there is none.\<close>

partial_function (option) find_fit :: "(u32 \<Rightarrow> heap_block_t) \<Rightarrow> u32 \<Rightarrow> u32 \<Rightarrow> u32 option" where
  "find_fit m aligned_size b =
     (if b = 0 then Some 0
      else if hb_used (m b) = 0 \<and> hb_size (m b) \<ge> aligned_size + HEADER_SIZE then Some b
      else find_fit m aligned_size (hb_next (m b)))"

partial_function (option) find_last :: "(u32 \<Rightarrow> heap_block_t) \<Rightarrow> u32 \<Rightarrow> u32 option" where
  "find_last m b = (if hb_next (m b) \<noteq> 0 then find_last m (hb_next (m b)) else Some b)"

definition kmalloc :: "u32 \<Rightarrow> 'a heap_sys_scheme \<Rightarrow> (u32 \<times> 'a heap_sys_scheme) option" where
  "kmalloc sz s =
     (if sz = 0 then Some (0, s)
      else
        (let aligned_size = align4 sz
         in case find_fit (heap_mem s) aligned_size (heap_head s) of
              None \<Rightarrow> None
            | Some block \<Rightarrow>
                if block \<noteq> 0
                then Some (block + HEADER_SIZE,
                           s\<lparr>heap_mem := upd_block block (\<lambda>h. h\<lparr>hb_used := 1\<rparr>) (heap_mem s),
                             heap_used := heap_used s + hb_size (heap_mem s block)\<rparr>)
                else
                  (let (new_block, s) = create_block aligned_size s
                   in if new_block = 0 then Some (0, s)
                      else if heap_head s = 0
                      then Some (new_block + HEADER_SIZE, s\<lparr>heap_head := new_block\<rparr>)
                      else (case find_last (heap_mem s) (heap_head s) of
                              None \<Rightarrow> None
                            | Some lst \<Rightarrow>
                                Some (new_block + HEADER_SIZE,
                                      s\<lparr>heap_mem := upd_block new_block (\<lambda>h. h\<lparr>hb_prev := lst\<rparr>)
                                          (upd_block lst (\<lambda>h. h\<lparr>hb_next := new_block\<rparr>) (heap_mem s))\<rparr>)))))"

text \<open>Lines 125--138 and 140--153 of \<open>kfree\<close>: merging with the next and with the previous block.\<close>

definition page_count :: "u32 \<Rightarrow> nat" where
  "page_count sz = unat ((sz + PAGE_SIZE - 1) div PAGE_SIZE)"

definition merge_next :: "u32 \<Rightarrow> 'a heap_sys_scheme \<Rightarrow> 'a heap_sys_scheme" where
  "merge_next block s =
     (let next = hb_next (heap_mem s block)
      in if next \<noteq> 0 \<and> hb_used (heap_mem s next) = 0
         then
           (let m = heap_mem s;
                m = upd_block block (\<lambda>h. h\<lparr>hb_size := hb_size h + hb_size (m next)\<rparr>) m;
                m = upd_block block (\<lambda>h. h\<lparr>hb_next := hb_next (m next)\<rparr>) m;
                m = (if hb_next (m next) \<noteq> 0
                     then upd_block (hb_next (m next)) (\<lambda>h. h\<lparr>hb_prev := block\<rparr>) m else m)
            in free_page_run next (page_count (hb_size (m next))) (s\<lparr>heap_mem := m\<rparr>))
         else s)"

definition merge_prev :: "u32 \<Rightarrow> 'a heap_sys_scheme \<Rightarrow> 'a heap_sys_scheme" where
  "merge_prev block s =
     (let prev = hb_prev (heap_mem s block)
      in if prev \<noteq> 0 \<and> hb_used (heap_mem s prev) = 0
         then
           (let m = heap_mem s;
                m = upd_block prev (\<lambda>h. h\<lparr>hb_size := hb_size h + hb_size (m block)\<rparr>) m;
                m = upd_block prev (\<lambda>h. h\<lparr>hb_next := hb_next (m block)\<rparr>) m;
                m = (if hb_next (m block) \<noteq> 0
                     then upd_block (hb_next (m block)) (\<lambda>h. h\<lparr>hb_prev := prev\<rparr>) m else m)
            in free_page_run block (page_count (hb_size (m block))) (s\<lparr>heap_mem := m\<rparr>))
         else s)"

definition kfree :: "u32 \<Rightarrow> 'a heap_sys_scheme \<Rightarrow> 'a heap_sys_scheme" where
  "kfree ptr s =
     (if ptr = 0 then s
      else
        (let block = ptr - HEADER_SIZE
         in if hb_used (heap_mem s block) = 0
            then con_puts (lit ''[HEAP] Double free detected'' @ [ch_nl]) 0x1C s
            else
              (let s = s\<lparr>heap_mem := upd_block block (\<lambda>h. h\<lparr>hb_used := 0\<rparr>) (heap_mem s)\<rparr>;
                   s = s\<lparr>heap_used := heap_used s - hb_size (heap_mem s block)\<rparr>
               in merge_prev block (merge_next block s))))"

definition heap_get_free :: "'a heap_sys_scheme \<Rightarrow> u32" where
  "heap_get_free s = heap_total s - heap_used s"

definition heap_get_used :: "'a heap_sys_scheme \<Rightarrow> u32" where
  "heap_get_used s = heap_used s"

declare alloc_more_pages.simps [simp del]
declare find_fit.simps [code] find_last.simps [code]

section \<open>Frames\<close>

lemma pmm_heap_frames [frame_simps]:
  "heap_head (snd (pmm_alloc_page s)) = heap_head s" "heap_head (pmm_free_page a s) = heap_head s"
  "heap_total (snd (pmm_alloc_page s)) = heap_total s" "heap_total (pmm_free_page a s) = heap_total s"
  "heap_used (snd (pmm_alloc_page s)) = heap_used s" "heap_used (pmm_free_page a s) = heap_used s"
  "heap_mem (snd (pmm_alloc_page s)) = heap_mem s" "heap_mem (pmm_free_page a s) = heap_mem s"
  by (simp_all add: pmm_alloc_page_def pmm_free_page_def Let_def con_puts_def split: option.split)

lemma free_page_run_frames [frame_simps]:
  "heap_head (free_page_run a n s) = heap_head s" "heap_total (free_page_run a n s) = heap_total s"
  "heap_used (free_page_run a n s) = heap_used s" "heap_mem (free_page_run a n s) = heap_mem s"
  by (induction n) (simp_all add: free_page_run_def frame_simps)

lemma alloc_more_frames_conj:
  "heap_head (snd (alloc_more_pages page i n s)) = heap_head s \<and>
   heap_total (snd (alloc_more_pages page i n s)) = heap_total s \<and>
   heap_used (snd (alloc_more_pages page i n s)) = heap_used s \<and>
   heap_mem (snd (alloc_more_pages page i n s)) = heap_mem s"
proof (induction page i n s rule: alloc_more_pages.induct)
  case (1 page i n s)
  obtain q t where qt: "pmm_alloc_page s = (q, t)" by force
  then have "heap_head t = heap_head s" "heap_total t = heap_total s" "heap_used t = heap_used s"
      "heap_mem t = heap_mem s"
    using pmm_heap_frames(1,3,5,7) [of s] by simp_all
  then show ?case
    using 1 qt by (subst (1 2 3 4) alloc_more_pages.simps) (simp add: frame_simps split: if_splits)
qed

lemmas alloc_more_frames [frame_simps] =
  alloc_more_frames_conj [THEN conjunct1]
  alloc_more_frames_conj [THEN conjunct2, THEN conjunct1]
  alloc_more_frames_conj [THEN conjunct2, THEN conjunct2, THEN conjunct1]
  alloc_more_frames_conj [THEN conjunct2, THEN conjunct2, THEN conjunct2]

section \<open>The list of blocks\<close>

text \<open>
  \<open>heap_seg m p a xs q b\<close>: following \<open>next\<close> from \<open>a\<close> visits the blocks \<open>xs\<close> and arrives at \<open>b\<close>; the
  \<open>prev\<close> pointers lead back, from the first block to \<open>p\<close>; \<open>q\<close> is the last block visited (\<open>p\<close> if none).
\<close>

fun heap_seg :: "(u32 \<Rightarrow> heap_block_t) \<Rightarrow> u32 \<Rightarrow> u32 \<Rightarrow> u32 list \<Rightarrow> u32 \<Rightarrow> u32 \<Rightarrow> bool" where
  "heap_seg m p a [] q b \<longleftrightarrow> a = b \<and> p = q"
| "heap_seg m p a (x # xs) q b \<longleftrightarrow>
     a = x \<and> x \<noteq> 0 \<and> hb_prev (m x) = p \<and> heap_seg m x (hb_next (m x)) xs q b"

definition heap_list :: "(u32 \<Rightarrow> heap_block_t) \<Rightarrow> u32 \<Rightarrow> u32 list \<Rightarrow> bool" where
  "heap_list m head xs \<longleftrightarrow> (\<exists>q. heap_seg m 0 head xs q 0) \<and> distinct xs"

definition used_size :: "heap_block_t \<Rightarrow> u32" where
  "used_size h = (if hb_used h \<noteq> 0 then hb_size h else 0)"

definition heap_accounts :: "'a heap_sys_scheme \<Rightarrow> u32 list \<Rightarrow> bool" where
  "heap_accounts s xs \<longleftrightarrow>
     heap_total s = (\<Sum>x \<leftarrow> xs. hb_size (heap_mem s x)) \<and>
     heap_used s = (\<Sum>x \<leftarrow> xs. used_size (heap_mem s x))"

definition heap_wf :: "'a heap_sys_scheme \<Rightarrow> u32 list \<Rightarrow> bool" where
  "heap_wf s xs \<longleftrightarrow> heap_list (heap_mem s) (heap_head s) xs \<and> heap_accounts s xs"

lemma heap_seg_append:
  "heap_seg m p a (xs @ ys) q b \<longleftrightarrow> (\<exists>r c. heap_seg m p a xs r c \<and> heap_seg m r c ys q b)"
  by (induction xs arbitrary: p a) auto

lemma heap_seg_cong:
  "(\<And>x. x \<in> set xs \<Longrightarrow> hb_prev (m' x) = hb_prev (m x) \<and> hb_next (m' x) = hb_next (m x)) \<Longrightarrow>
   heap_seg m' p a xs q b = heap_seg m p a xs q b"
  by (induction xs arbitrary: p a) auto

lemma heap_seg_nonzero: "heap_seg m p a xs q b \<Longrightarrow> x \<in> set xs \<Longrightarrow> x \<noteq> 0"
  by (induction xs arbitrary: p a) auto

lemma heap_seg_last: "heap_seg m p a xs q b \<Longrightarrow> xs \<noteq> [] \<Longrightarrow> q = last xs \<and> hb_next (m (last xs)) = b"
  by (induction xs arbitrary: p a) auto

lemma upd_block_same [simp]: "upd_block a f m a = f (m a)"
  and upd_block_other [simp]: "x \<noteq> a \<Longrightarrow> upd_block a f m x = m x"
  by (simp_all add: upd_block_def)

lemma heap_seg_upd_keep:
  assumes "hb_prev (f (m y)) = hb_prev (m y)" and "hb_next (f (m y)) = hb_next (m y)"
  shows "heap_seg (upd_block y f m) p a xs q b = heap_seg m p a xs q b"
  using assms by (intro heap_seg_cong) (auto simp add: upd_block_def)

lemma heap_seg_upd_other:
  "y \<notin> set xs \<Longrightarrow> heap_seg (upd_block y f m) p a xs q b = heap_seg m p a xs q b"
  by (intro heap_seg_cong) (auto simp add: upd_block_def)

lemma heap_seg_put_other:
  "y \<notin> set xs \<Longrightarrow> heap_seg (m(y := h)) p a xs q b = heap_seg m p a xs q b"
  by (intro heap_seg_cong) auto

section \<open>The walks end on a well-formed list\<close>

definition fits :: "u32 \<Rightarrow> heap_block_t \<Rightarrow> bool" where
  "fits aligned_size h \<longleftrightarrow> hb_used h = 0 \<and> hb_size h \<ge> aligned_size + HEADER_SIZE"

lemma find_fit_seg:
  "heap_seg m p a xs q 0 \<Longrightarrow>
   find_fit m n a = Some (case List.find (\<lambda>x. fits n (m x)) xs of None \<Rightarrow> 0 | Some x \<Rightarrow> x)"
proof (induction xs arbitrary: p a)
  case Nil
  then show ?case by (simp add: find_fit.simps)
next
  case (Cons x xs)
  then show ?case by (subst find_fit.simps) (auto simp add: fits_def)
qed

lemma find_last_seg:
  "heap_seg m p a xs q 0 \<Longrightarrow> xs \<noteq> [] \<Longrightarrow> find_last m a = Some (last xs)"
proof (induction xs arbitrary: p a)
  case (Cons x xs)
  show ?case
  proof (cases xs)
    case Nil
    with Cons.prems show ?thesis by (subst find_last.simps) auto
  next
    case (Cons y ys)
    with Cons.prems Cons.IH show ?thesis by (subst find_last.simps) auto
  qed
qed simp

lemma find_fit_list:
  "heap_list m head xs \<Longrightarrow>
   find_fit m n head = Some (case List.find (\<lambda>x. fits n (m x)) xs of None \<Rightarrow> 0 | Some x \<Rightarrow> x)"
  by (auto simp add: heap_list_def find_fit_seg)

lemma find_last_list: "heap_list m head xs \<Longrightarrow> xs \<noteq> [] \<Longrightarrow> find_last m head = Some (last xs)"
  by (auto simp add: heap_list_def find_last_seg)

lemma heap_list_head: "heap_list m head xs \<Longrightarrow> head = 0 \<longleftrightarrow> xs = []"
  by (cases xs) (auto simp add: heap_list_def)

lemma heap_list_nonzero: "heap_list m head xs \<Longrightarrow> x \<in> set xs \<Longrightarrow> x \<noteq> 0"
  by (auto simp add: heap_list_def dest: heap_seg_nonzero)

lemma create_block_effect:
  fixes n :: u32 and s :: "'a heap_sys_scheme"
  defines "b \<equiv> fst (create_block n s)" and "t \<equiv> snd (create_block n s)"
  shows create_block_head: "heap_head t = heap_head s"
    and create_block_mem: "heap_mem t =
     (if b = 0 then heap_mem s
      else (heap_mem s)(b := \<lparr>hb_size = align4 n + HEADER_SIZE, hb_used = 1, hb_next = 0, hb_prev = 0\<rparr>))"
    and create_block_total: "heap_total t = (if b = 0 then heap_total s else heap_total s + (align4 n + HEADER_SIZE))"
    and create_block_used: "heap_used t = (if b = 0 then heap_used s else heap_used s + (align4 n + HEADER_SIZE))"
proof -
  obtain page s1 where a: "pmm_alloc_page s = (page, s1)" by force
  obtain ok s2 where m: "alloc_more_pages page 1
      (unat ((align4 n + HEADER_SIZE + PAGE_SIZE - 1) div PAGE_SIZE)) s1 = (ok, s2)" by force
  note f1 = pmm_heap_frames(1,3,5,7) [of s, unfolded a snd_conv]
  note f2 = alloc_more_frames [of page 1 "unat ((align4 n + HEADER_SIZE + PAGE_SIZE - 1) div PAGE_SIZE)" s1,
      unfolded m snd_conv]
  note bt = b_def t_def create_block_def Let_def a m prod.case
  show "heap_head t = heap_head s" unfolding bt using f1 f2 by simp
  show "heap_mem t =
     (if b = 0 then heap_mem s
      else (heap_mem s)(b := \<lparr>hb_size = align4 n + HEADER_SIZE, hb_used = 1, hb_next = 0, hb_prev = 0\<rparr>))"
    unfolding bt using f1 f2 by simp
  show "heap_total t = (if b = 0 then heap_total s else heap_total s + (align4 n + HEADER_SIZE))"
    unfolding bt using f1 f2 by simp
  show "heap_used t = (if b = 0 then heap_used s else heap_used s + (align4 n + HEADER_SIZE))"
    unfolding bt using f1 f2 by simp
qed

section \<open>kmalloc on a well-formed list\<close>

lemma find_last_put:
  "heap_seg m p a xs q 0 \<Longrightarrow> a \<noteq> 0 \<Longrightarrow> hb_next h = 0 \<Longrightarrow> \<exists>l. find_last (m(b := h)) a = Some l"
proof (induction xs arbitrary: p a)
  case (Cons x xs)
  let ?m = "m(b := h)"
  have ax: "a = x" using Cons.prems(1) by simp
  show ?case unfolding ax
  proof (cases "hb_next (?m x) = 0")
    case True
    then have "find_last ?m x = Some x" by (subst find_last.simps) simp
    then show "\<exists>l. find_last ?m x = Some l" by blast
  next
    case False
    then have nb: "x \<noteq> b" "hb_next (m x) \<noteq> 0" using Cons.prems(3) by (auto split: if_splits)
    obtain l where "find_last ?m (hb_next (m x)) = Some l"
      using Cons.IH [OF _ nb(2) Cons.prems(3)] Cons.prems(1) unfolding heap_seg.simps by blast
    then have "find_last ?m x = Some l" using nb by (subst find_last.simps) simp
    then show "\<exists>l. find_last ?m x = Some l" by blast
  qed
qed simp

lemma kmalloc_returns_on_list:
  assumes "heap_list (heap_mem s) (heap_head s) xs"
  shows "\<exists>r. kmalloc sz s = Some r"
proof -
  obtain q where seg: "heap_seg (heap_mem s) 0 (heap_head s) xs q 0"
    using assms by (auto simp add: heap_list_def)
  obtain b t where bt: "create_block (align4 sz) s = (b, t)" by force
  have t: "heap_head t = heap_head s" using create_block_head [of "align4 sz" s] bt by simp
  have "\<exists>l. find_last (heap_mem t) (heap_head t) = Some l" if "b \<noteq> 0" "heap_head s \<noteq> 0"
    using find_last_put [OF seg that(2)] create_block_mem [of "align4 sz" s] bt that(1) t by simp
  then show ?thesis
    using find_fit_list [OF assms] bt t
    by (auto simp add: kmalloc_def Let_def split: option.splits)
qed

text \<open>The new block at the end of the list, as lines 93--102 link it.\<close>

definition link_last :: "u32 list \<Rightarrow> u32 \<Rightarrow> 'a heap_sys_scheme \<Rightarrow> 'a heap_sys_scheme" where
  "link_last xs b t =
     (if xs = [] then t\<lparr>heap_head := b\<rparr>
      else t\<lparr>heap_mem := upd_block b (\<lambda>h. h\<lparr>hb_prev := last xs\<rparr>)
                 (upd_block (last xs) (\<lambda>h. h\<lparr>hb_next := b\<rparr>) (heap_mem t))\<rparr>)"

lemma kmalloc_hit:
  assumes "heap_list (heap_mem s) (heap_head s) xs" and "sz \<noteq> 0"
    and "List.find (\<lambda>x. fits (align4 sz) (heap_mem s x)) xs = Some x"
  shows "kmalloc sz s = Some (x + HEADER_SIZE,
     s\<lparr>heap_mem := upd_block x (\<lambda>h. h\<lparr>hb_used := 1\<rparr>) (heap_mem s),
       heap_used := heap_used s + hb_size (heap_mem s x)\<rparr>)"
proof -
  have "x \<in> set xs" using assms(3) by (auto simp add: find_Some_iff)
  then have "x \<noteq> 0" using heap_list_nonzero [OF assms(1)] by simp
  then show ?thesis using find_fit_list [OF assms(1)] assms(2,3) by (simp add: kmalloc_def Let_def)
qed

lemma kmalloc_miss:
  assumes list: "heap_list (heap_mem s) (heap_head s) xs" and "sz \<noteq> 0"
    and none: "List.find (\<lambda>x. fits (align4 sz) (heap_mem s x)) xs = None"
    and bt: "create_block (align4 sz) s = (b, t)" and fresh: "b \<notin> set xs"
  shows "kmalloc sz s = Some (if b = 0 then (0, t) else (b + HEADER_SIZE, link_last xs b t))"
proof -
  have head: "heap_head t = heap_head s" using create_block_head [of "align4 sz" s] bt by simp
  have last: "find_last (heap_mem t) (heap_head t) = Some (last xs)" if "b \<noteq> 0" "xs \<noteq> []"
  proof -
    obtain q where "heap_seg (heap_mem s) 0 (heap_head s) xs q 0"
      using list by (auto simp add: heap_list_def)
    then have "heap_seg (heap_mem t) 0 (heap_head t) xs q 0"
      using create_block_mem [of "align4 sz" s] bt that(1) head fresh by (simp add: heap_seg_put_other)
    then show ?thesis using that(2) by (rule find_last_seg)
  qed
  show ?thesis
    using find_fit_list [OF list] none assms(2) bt head heap_list_head [OF list] last
    by (auto simp add: kmalloc_def Let_def link_last_def)
qed

lemma heap_wf_mark_used:
  assumes wf: "heap_wf s xs" and x: "x \<in> set xs" and free: "hb_used (heap_mem s x) = 0"
  shows "heap_wf (s\<lparr>heap_mem := upd_block x (\<lambda>h. h\<lparr>hb_used := 1\<rparr>) (heap_mem s),
                    heap_used := heap_used s + hb_size (heap_mem s x)\<rparr>) xs"
proof -
  let ?m = "upd_block x (\<lambda>h. h\<lparr>hb_used := 1\<rparr>) (heap_mem s)"
  have d: "distinct xs" using wf by (simp add: heap_wf_def heap_list_def)
  have "(\<Sum>y \<leftarrow> xs. hb_size (?m y)) = (\<Sum>y \<leftarrow> xs. hb_size (heap_mem s y))"
    using sum_list_change_one [OF d x, of "\<lambda>y. hb_size (?m y)" "\<lambda>y. hb_size (heap_mem s y)"] by simp
  moreover have "(\<Sum>y \<leftarrow> xs. used_size (?m y)) = (\<Sum>y \<leftarrow> xs. used_size (heap_mem s y)) + hb_size (heap_mem s x)"
    using sum_list_change_one [OF d x, of "\<lambda>y. used_size (?m y)" "\<lambda>y. used_size (heap_mem s y)"] free
    by (simp add: used_size_def)
  ultimately show ?thesis
    using wf by (simp add: heap_wf_def heap_list_def heap_accounts_def heap_seg_upd_keep)
qed

lemma map_put_fresh: "b \<notin> set xs \<Longrightarrow> map (\<lambda>y. f ((m(b := h)) y)) xs = map (\<lambda>y. f (m y)) xs"
  by auto

lemma heap_wf_link_last:
  assumes wf: "heap_wf s xs" and bt: "create_block n s = (b, t)" and "b \<noteq> 0" and fresh: "b \<notin> set xs"
  shows "heap_wf (link_last xs b t) (xs @ [b])"
proof -
  let ?h = "\<lparr>hb_size = align4 n + HEADER_SIZE, hb_used = 1, hb_next = 0, hb_prev = 0\<rparr>"
  have t: "heap_head t = heap_head s" "heap_mem t = (heap_mem s)(b := ?h)"
      "heap_total t = heap_total s + (align4 n + HEADER_SIZE)"
      "heap_used t = heap_used s + (align4 n + HEADER_SIZE)"
    using create_block_effect [of n s] bt assms(3) by simp_all
  have d: "distinct xs" using wf by (simp add: heap_wf_def heap_list_def)
  obtain q where seg: "heap_seg (heap_mem s) 0 (heap_head s) xs q 0"
    using wf by (auto simp add: heap_wf_def heap_list_def)
  have sizes: "hb_size (heap_mem (link_last xs b t) y) = hb_size (((heap_mem s)(b := ?h)) y)"
    "used_size (heap_mem (link_last xs b t) y) = used_size (((heap_mem s)(b := ?h)) y)" for y
    by (auto simp add: link_last_def t upd_block_def used_size_def)
  have "(\<Sum>y \<leftarrow> xs @ [b]. hb_size (((heap_mem s)(b := ?h)) y)) =
      (\<Sum>y \<leftarrow> xs. hb_size (heap_mem s y)) + (align4 n + HEADER_SIZE)"
    and "(\<Sum>y \<leftarrow> xs @ [b]. used_size (((heap_mem s)(b := ?h)) y)) =
      (\<Sum>y \<leftarrow> xs. used_size (heap_mem s y)) + (align4 n + HEADER_SIZE)"
    unfolding map_append sum_list_append map_put_fresh [OF fresh] by (simp_all add: used_size_def)
  then have acc: "heap_accounts (link_last xs b t) (xs @ [b])"
    using wf unfolding heap_accounts_def sizes
    by (simp only: heap_wf_def heap_accounts_def) (simp add: link_last_def t)
  have "\<exists>q. heap_seg (heap_mem (link_last xs b t)) 0 (heap_head (link_last xs b t)) (xs @ [b]) q 0"
  proof (cases xs rule: rev_cases)
    case Nil
    then show ?thesis using assms(3) by (simp add: link_last_def t)
  next
    case (snoc ys l)
    have l: "l \<noteq> b" "l \<notin> set ys" "b \<notin> set ys" using fresh d snoc by auto
    let ?m' = "heap_mem (link_last xs b t)"
    have m': "?m' b = ?h\<lparr>hb_prev := l\<rparr>" "?m' l = (heap_mem s l)\<lparr>hb_next := b\<rparr>"
      "\<And>x. x \<noteq> b \<Longrightarrow> x \<noteq> l \<Longrightarrow> ?m' x = heap_mem s x"
      using l by (simp_all add: link_last_def snoc t upd_block_def)
    obtain r c where r: "heap_seg (heap_mem s) 0 (heap_head s) ys r c" "heap_seg (heap_mem s) r c [l] q 0"
      using seg unfolding snoc heap_seg_append by blast
    have "heap_seg ?m' 0 (heap_head s) ys r c"
    proof (subst heap_seg_cong [where m = "heap_mem s"])
      fix x assume "x \<in> set ys"
      then have "?m' x = heap_mem s x" using l by (intro m'(3)) auto
      then show "hb_prev (?m' x) = hb_prev (heap_mem s x) \<and> hb_next (?m' x) = hb_next (heap_mem s x)"
        by simp
    qed (rule r(1))
    moreover have "heap_seg ?m' r c [l, b] b 0" using r(2) m' assms(3) by auto
    ultimately have "heap_seg ?m' 0 (heap_head s) (ys @ [l, b]) b 0" unfolding heap_seg_append by blast
    then show ?thesis by (auto simp add: link_last_def snoc t)
  qed
  with acc d fresh show ?thesis by (auto simp add: heap_wf_def heap_list_def)
qed

end
