(* ===== verification/Heap_Free.thy ===== *)
theory Heap_Free
  imports Heap
begin

text \<open>
  The list side of \<open>kmalloc\<close> and \<open>kfree\<close>.

  Both coalescing steps of \<open>kfree\<close> are one operation, \<open>merge_into\<close>, on two neighbours of the list; it keeps
  the list well formed and the two totals exact.  The abstract view of the heap is \<open>live_blocks\<close>, the
  set of (block, size) pairs handed out: \<open>kmalloc\<close> adds one pair and \<open>kfree\<close> removes one.
\<close>

section \<open>The abstract view\<close>

definition live_blocks :: "'a heap_sys_scheme \<Rightarrow> u32 list \<Rightarrow> (u32 \<times> u32) set" where
  "live_blocks s xs = {(x, hb_size (heap_mem s x)) | x. x \<in> set xs \<and> hb_used (heap_mem s x) \<noteq> 0}"

section \<open>Merging two neighbours\<close>

definition merge_into :: "u32 \<Rightarrow> u32 \<Rightarrow> 'a heap_sys_scheme \<Rightarrow> 'a heap_sys_scheme" where
  "merge_into l r s =
     (let m = heap_mem s;
          m = upd_block l (\<lambda>h. h\<lparr>hb_size := hb_size h + hb_size (m r)\<rparr>) m;
          m = upd_block l (\<lambda>h. h\<lparr>hb_next := hb_next (m r)\<rparr>) m;
          m = (if hb_next (m r) \<noteq> 0
               then upd_block (hb_next (m r)) (\<lambda>h. h\<lparr>hb_prev := l\<rparr>) m else m)
      in free_page_run r (page_count (hb_size (m r))) (s\<lparr>heap_mem := m\<rparr>))"

lemma merge_next_eq:
  "merge_next b s =
     (if hb_next (heap_mem s b) \<noteq> 0 \<and> hb_used (heap_mem s (hb_next (heap_mem s b))) = 0
      then merge_into b (hb_next (heap_mem s b)) s else s)"
  by (simp only: merge_next_def merge_into_def Let_def)

lemma merge_prev_eq:
  "merge_prev b s =
     (if hb_prev (heap_mem s b) \<noteq> 0 \<and> hb_used (heap_mem s (hb_prev (heap_mem s b))) = 0
      then merge_into (hb_prev (heap_mem s b)) b s else s)"
  by (simp only: merge_prev_def merge_into_def Let_def)

lemma merge_into_frames [frame_simps]:
  "heap_head (merge_into l r s) = heap_head s" "heap_total (merge_into l r s) = heap_total s"
  "heap_used (merge_into l r s) = heap_used s"
  by (simp_all add: merge_into_def Let_def frame_simps)

lemma merge_into_mem:
  assumes "l \<noteq> r" and "hb_next (heap_mem s r) \<noteq> l" and "hb_next (heap_mem s r) \<noteq> r"
  shows "heap_mem (merge_into l r s) x =
    (if x = l then (heap_mem s l)\<lparr>hb_size := hb_size (heap_mem s l) + hb_size (heap_mem s r),
                                  hb_next := hb_next (heap_mem s r)\<rparr>
     else if x = hb_next (heap_mem s r) \<and> x \<noteq> 0 then (heap_mem s x)\<lparr>hb_prev := l\<rparr>
     else heap_mem s x)"
  using assms by (simp add: merge_into_def Let_def frame_simps upd_block_def)

lemma heap_seg_zs:
  "heap_seg m r c zs q b \<Longrightarrow> (zs = [] \<and> c = b) \<or> (\<exists>z zt. zs = z # zt \<and> c = z \<and> z \<noteq> 0)"
  by (cases zs) auto

lemma merge_into_list:
  assumes list: "heap_list (heap_mem s) (heap_head s) (ys @ l # r # zs)"
  shows "heap_list (heap_mem (merge_into l r s)) (heap_head s) (ys @ l # zs)"
proof -
  let ?m = "heap_mem s" and ?m' = "heap_mem (merge_into l r s)" and ?n = "hb_next (heap_mem s r)"
  from list obtain q p c where d: "distinct (ys @ l # r # zs)"
    and segs: "heap_seg ?m 0 (heap_head s) ys p c" "heap_seg ?m p c (l # r # zs) q 0"
    unfolding heap_list_def heap_seg_append by blast
  then have tail: "heap_seg ?m r ?n zs q 0" and lr: "c = l" "l \<noteq> 0" "hb_prev (?m l) = p" by auto
  have n: "?n = 0 \<or> ?n \<in> set zs" using heap_seg_zs [OF tail] by auto
  then have "?n \<noteq> l" "?n \<noteq> r" "l \<noteq> r" using d segs(2) by auto
  note m' = merge_into_mem [OF this(3,1,2)]
  have "heap_seg ?m' 0 (heap_head s) ys p c"
  proof (subst heap_seg_cong [where m = ?m])
    fix x assume "x \<in> set ys"
    then have "x \<noteq> l" "x \<noteq> ?n \<or> x = 0" using d n by auto
    then show "hb_prev (?m' x) = hb_prev (?m x) \<and> hb_next (?m' x) = hb_next (?m x)"
      by (auto simp add: m')
  qed (rule segs(1))
  moreover have "heap_seg ?m' l ?n zs (if zs = [] then l else q) 0"
  proof (cases zs)
    case Nil
    then have "?n = 0" using tail by auto
    then show ?thesis using Nil by simp
  next
    case (Cons z zt)
    have z: "?n = z" "z \<noteq> 0" "heap_seg ?m z (hb_next (?m z)) zt q 0" using tail Cons by auto
    have "heap_seg ?m' z (hb_next (?m z)) zt q 0"
      using z d Cons by (subst heap_seg_cong [where m = ?m]) (auto simp add: m')
    moreover have "z \<noteq> l" using d Cons by auto
    ultimately show ?thesis using z(1,2) Cons by (simp add: m')
  qed
  ultimately have "heap_seg ?m' 0 (heap_head s) (ys @ l # zs) (if zs = [] then l else q) 0"
    unfolding heap_seg_append using lr by (intro exI [of _ p] exI [of _ c]) (simp add: m')
  then show ?thesis using d by (auto simp add: heap_list_def)
qed

lemma merge_into_nbrs:
  assumes list: "heap_list (heap_mem s) (heap_head s) (ys @ l # r # zs)"
  shows "l \<noteq> r" and "hb_next (heap_mem s r) \<noteq> l" and "hb_next (heap_mem s r) \<noteq> r"
    and "hb_next (heap_mem s l) = r" and "hb_prev (heap_mem s r) = l"
proof -
  from list obtain q p c where d: "distinct (ys @ l # r # zs)"
    and seg: "heap_seg (heap_mem s) p c (l # r # zs) q 0"
    unfolding heap_list_def heap_seg_append by blast
  then have tail: "heap_seg (heap_mem s) r (hb_next (heap_mem s r)) zs q 0" and "l \<noteq> 0" "r \<noteq> 0"
    and "hb_next (heap_mem s l) = r" "hb_prev (heap_mem s r) = l" by auto
  then have "hb_next (heap_mem s r) = 0 \<or> hb_next (heap_mem s r) \<in> set zs"
    using heap_seg_zs [OF tail] by auto
  with d \<open>l \<noteq> 0\<close> \<open>r \<noteq> 0\<close> show "l \<noteq> r" "hb_next (heap_mem s r) \<noteq> l" "hb_next (heap_mem s r) \<noteq> r"
    by auto
  show "hb_next (heap_mem s l) = r" "hb_prev (heap_mem s r) = l" by fact+
qed

text \<open>Headers outside the merged pair keep their size and their \<open>used\<close> flag.\<close>

lemma merge_into_other:
  assumes "heap_list (heap_mem s) (heap_head s) (ys @ l # r # zs)" and "x \<noteq> l"
  shows "hb_size (heap_mem (merge_into l r s) x) = hb_size (heap_mem s x)"
    and "hb_used (heap_mem (merge_into l r s) x) = hb_used (heap_mem s x)"
  using assms(2) merge_into_mem [OF merge_into_nbrs(1-3) [OF assms(1)], of x] by auto

lemma merge_into_wf:
  assumes wf: "heap_wf s (ys @ l # r # zs)"
    and free: "hb_used (heap_mem s l) = 0" "hb_used (heap_mem s r) = 0"
  shows "heap_wf (merge_into l r s) (ys @ l # zs)"
    and "live_blocks (merge_into l r s) (ys @ l # zs) = live_blocks s (ys @ l # r # zs)"
proof -
  let ?t = "merge_into l r s"
  have list: "heap_list (heap_mem s) (heap_head s) (ys @ l # r # zs)"
    and acc: "heap_accounts s (ys @ l # r # zs)" using wf by (simp_all add: heap_wf_def)
  then have d: "distinct (ys @ l # r # zs)" by (simp add: heap_list_def)
  note other = merge_into_other [OF list]
  have l: "hb_size (heap_mem ?t l) = hb_size (heap_mem s l) + hb_size (heap_mem s r)"
    "hb_used (heap_mem ?t l) = 0"
    using free(1) merge_into_mem [OF merge_into_nbrs(1-3) [OF list], of l] by simp_all
  have sizes: "map (\<lambda>x. hb_size (heap_mem ?t x)) us = map (\<lambda>x. hb_size (heap_mem s x)) us"
    "map (\<lambda>x. used_size (heap_mem ?t x)) us = map (\<lambda>x. used_size (heap_mem s x)) us"
    if "l \<notin> set us" for us
  proof -
    have "\<forall>x \<in> set us. x \<noteq> l" using that by metis
    then show "map (\<lambda>x. hb_size (heap_mem ?t x)) us = map (\<lambda>x. hb_size (heap_mem s x)) us"
      "map (\<lambda>x. used_size (heap_mem ?t x)) us = map (\<lambda>x. used_size (heap_mem s x)) us"
      by (simp_all add: other used_size_def)
  qed
  have "heap_accounts ?t (ys @ l # zs)"
    using acc d sizes [of ys] sizes [of zs] l free
    by (simp add: heap_accounts_def frame_simps used_size_def [of "heap_mem s l"]
          used_size_def [of "heap_mem ?t l"] used_size_def [of "heap_mem s r"] algebra_simps
          del: map_eq_conv)
  then show "heap_wf ?t (ys @ l # zs)"
    using merge_into_list [OF list] by (simp add: heap_wf_def frame_simps)
  have used: "(x \<in> set (ys @ l # zs) \<and> hb_used (heap_mem ?t x) \<noteq> 0) =
      (x \<in> set (ys @ l # r # zs) \<and> hb_used (heap_mem s x) \<noteq> 0)" for x
    using other(2) [of x] l(2) free by (cases "x = l") auto
  have same: "hb_size (heap_mem ?t x) = hb_size (heap_mem s x)" if "hb_used (heap_mem s x) \<noteq> 0" for x
    using that other(1) [of x] free(1) by (cases "x = l") auto
  show "live_blocks ?t (ys @ l # zs) = live_blocks s (ys @ l # r # zs)"
    unfolding live_blocks_def by (rule Collect_cong, rule ex_cong1) (use used same in auto)
qed

section \<open>kfree\<close>

lemma merge_next_wf:
  assumes wf: "heap_wf s (ys @ x # zs)" and free: "hb_used (heap_mem s x) = 0"
  shows "\<exists>zs'. heap_wf (merge_next x s) (ys @ x # zs') \<and> set zs' \<subseteq> set zs \<and>
    live_blocks (merge_next x s) (ys @ x # zs') = live_blocks s (ys @ x # zs) \<and>
    hb_used (heap_mem (merge_next x s) x) = 0"
proof (cases "hb_next (heap_mem s x) \<noteq> 0 \<and> hb_used (heap_mem s (hb_next (heap_mem s x))) = 0")
  case False
  then show ?thesis using assms by (auto simp add: merge_next_eq)
next
  case True
  let ?r = "hb_next (heap_mem s x)"
  obtain p c q where "heap_seg (heap_mem s) p c (x # zs) q 0"
    using wf unfolding heap_wf_def heap_list_def heap_seg_append by blast
  then obtain zt where zs: "zs = ?r # zt"
    using True heap_seg_zs [of "heap_mem s" x ?r zs q 0] by auto
  have wf': "heap_wf s (ys @ x # ?r # zt)" using wf zs by simp
  then have list: "heap_list (heap_mem s) (heap_head s) (ys @ x # ?r # zt)" by (simp add: heap_wf_def)
  have "merge_next x s = merge_into x ?r s" using True by (simp add: merge_next_eq)
  moreover have "hb_used (heap_mem (merge_into x ?r s) x) = 0"
    using free merge_into_mem [OF merge_into_nbrs(1-3) [OF list], of x] by simp
  moreover have "heap_wf (merge_into x ?r s) (ys @ x # zt)"
    and "live_blocks (merge_into x ?r s) (ys @ x # zt) = live_blocks s (ys @ x # zs)"
    using merge_into_wf [OF wf' free] True zs by simp_all
  ultimately show ?thesis using zs by (intro exI [of _ zt]) auto
qed

lemma merge_prev_wf:
  assumes wf: "heap_wf s (ys @ x # zs)" and free: "hb_used (heap_mem s x) = 0"
  shows "\<exists>us. heap_wf (merge_prev x s) us \<and> set us \<subseteq> set (ys @ x # zs) \<and>
    live_blocks (merge_prev x s) us = live_blocks s (ys @ x # zs)"
proof (cases "hb_prev (heap_mem s x) \<noteq> 0 \<and> hb_used (heap_mem s (hb_prev (heap_mem s x))) = 0")
  case False
  then show ?thesis using wf by (intro exI [of _ "ys @ x # zs"]) (auto simp add: merge_prev_eq)
next
  case True
  let ?l = "hb_prev (heap_mem s x)"
  obtain p c q where segs: "heap_seg (heap_mem s) 0 (heap_head s) ys p c"
      "heap_seg (heap_mem s) p c (x # zs) q 0"
    using wf unfolding heap_wf_def heap_list_def heap_seg_append by blast
  then have p: "p = ?l" by simp
  have "ys \<noteq> []" using True p segs(1) by auto
  then obtain yt where ys: "ys = yt @ [?l]"
    using heap_seg_last [OF segs(1)] p by (metis append_butlast_last_id)
  then have wf': "heap_wf s (yt @ ?l # x # zs)" using wf by (metis append.assoc append_Cons append_Nil)
  have "merge_prev x s = merge_into ?l x s" using True by (simp add: merge_prev_eq)
  moreover have "live_blocks s (yt @ ?l # x # zs) = live_blocks s (ys @ x # zs)"
    by (subst ys) simp
  ultimately show ?thesis
    using merge_into_wf [OF wf'] True free ys
    by (intro exI [of _ "yt @ ?l # zs"]) (auto simp add: in_set_conv_decomp)
qed

lemma heap_wf_mark_free:
  assumes wf: "heap_wf s xs" and x: "x \<in> set xs" and used: "hb_used (heap_mem s x) \<noteq> 0"
    and t: "t = s\<lparr>heap_mem := upd_block x (\<lambda>h. h\<lparr>hb_used := 0\<rparr>) (heap_mem s),
                  heap_used := heap_used s - hb_size (heap_mem s x)\<rparr>"
  shows "heap_wf t xs" and "live_blocks t xs = live_blocks s xs - {(x, hb_size (heap_mem s x))}"
proof -
  let ?m = "upd_block x (\<lambda>h. h\<lparr>hb_used := 0\<rparr>) (heap_mem s)"
  have d: "distinct xs" using wf by (simp add: heap_wf_def heap_list_def)
  have "(\<Sum>y \<leftarrow> xs. hb_size (?m y)) = (\<Sum>y \<leftarrow> xs. hb_size (heap_mem s y))"
    using sum_list_change_one [OF d x, of "\<lambda>y. hb_size (?m y)" "\<lambda>y. hb_size (heap_mem s y)"] by simp
  moreover have "(\<Sum>y \<leftarrow> xs. used_size (?m y)) = (\<Sum>y \<leftarrow> xs. used_size (heap_mem s y)) - hb_size (heap_mem s x)"
    using sum_list_change_one [OF d x, of "\<lambda>y. used_size (?m y)" "\<lambda>y. used_size (heap_mem s y)"] used
    by (simp add: used_size_def)
  ultimately show "heap_wf t xs"
    using wf by (simp add: t heap_wf_def heap_list_def heap_accounts_def heap_seg_upd_keep)
  show "live_blocks t xs = live_blocks s xs - {(x, hb_size (heap_mem s x))}"
    unfolding t live_blocks_def by (auto simp add: upd_block_def split: if_splits)
qed

lemma kfree_live_effect:
  assumes wf: "heap_wf s xs" and x: "x \<in> set xs" and used: "hb_used (heap_mem s x) \<noteq> 0"
    and nz: "x + HEADER_SIZE \<noteq> 0"
  shows "\<exists>us. heap_wf (kfree (x + HEADER_SIZE) s) us \<and> set us \<subseteq> set xs \<and>
    live_blocks (kfree (x + HEADER_SIZE) s) us = live_blocks s xs - {(x, hb_size (heap_mem s x))}"
proof -
  define t where "t = s\<lparr>heap_mem := upd_block x (\<lambda>h. h\<lparr>hb_used := 0\<rparr>) (heap_mem s),
                        heap_used := heap_used s - hb_size (heap_mem s x)\<rparr>"
  obtain ys zs where xs: "xs = ys @ x # zs" using x by (auto simp add: in_set_conv_decomp)
  have t: "heap_wf t (ys @ x # zs)"
    "live_blocks t (ys @ x # zs) = live_blocks s xs - {(x, hb_size (heap_mem s x))}"
    using heap_wf_mark_free [OF wf x used t_def] xs by simp_all
  have "hb_used (heap_mem t x) = 0" by (simp add: t_def)
  from merge_next_wf [OF t(1) this] obtain zs' where
    n: "heap_wf (merge_next x t) (ys @ x # zs')" "set zs' \<subseteq> set zs"
      "live_blocks (merge_next x t) (ys @ x # zs') = live_blocks t (ys @ x # zs)"
      "hb_used (heap_mem (merge_next x t) x) = 0" by blast
  have "kfree (x + HEADER_SIZE) s = merge_prev x (merge_next x t)"
    using used nz by (simp add: kfree_def Let_def t_def)
  moreover obtain us where "heap_wf (merge_prev x (merge_next x t)) us" "set us \<subseteq> set (ys @ x # zs')"
      "live_blocks (merge_prev x (merge_next x t)) us = live_blocks (merge_next x t) (ys @ x # zs')"
    using merge_prev_wf [OF n(1,4)] by blast
  moreover have "set (ys @ x # zs') \<subseteq> set xs" using n(2) xs by auto
  ultimately show ?thesis using n(3) t(2) by (intro exI [of _ us]) auto
qed

lemma kfree_not_live:
  "ptr = 0 \<Longrightarrow> kfree ptr s = s"
  "ptr \<noteq> 0 \<Longrightarrow> hb_used (heap_mem s (ptr - HEADER_SIZE)) = 0 \<Longrightarrow>
   kfree ptr s = con_puts (lit ''[HEAP] Double free detected'' @ [ch_nl]) 0x1C s"
  by (simp_all add: kfree_def)

section \<open>kmalloc\<close>

lemma live_blocks_mark_used:
  assumes "x \<in> set xs"
    and "t = s\<lparr>heap_mem := upd_block x (\<lambda>h. h\<lparr>hb_used := 1\<rparr>) (heap_mem s),
              heap_used := heap_used s + hb_size (heap_mem s x)\<rparr>"
  shows "live_blocks t xs = insert (x, hb_size (heap_mem s x)) (live_blocks s xs)"
  using assms by (auto simp add: live_blocks_def upd_block_def)

lemma live_blocks_link_last:
  assumes bt: "create_block n s = (b, t)" and "b \<noteq> 0" and fresh: "b \<notin> set xs"
  shows "live_blocks (link_last xs b t) (xs @ [b]) = insert (b, align4 n + HEADER_SIZE) (live_blocks s xs)"
proof -
  let ?h = "\<lparr>hb_size = align4 n + HEADER_SIZE, hb_used = 1, hb_next = 0, hb_prev = 0\<rparr>"
  have mem: "heap_mem t = (heap_mem s)(b := ?h)"
    using create_block_mem [of n s] bt assms(2) by simp
  have "hb_size (heap_mem (link_last xs b t) y) = (if y = b then align4 n + HEADER_SIZE else hb_size (heap_mem s y))"
    "hb_used (heap_mem (link_last xs b t) y) = (if y = b then 1 else hb_used (heap_mem s y))" for y
    by (simp_all add: link_last_def mem upd_block_def)
  then show ?thesis using fresh unfolding live_blocks_def by auto
qed

end
