(* ===== verification/Heap_Owns.thy ===== *)
theory Heap_Owns
  imports Heap_Free "HOL-Library.Monad_Syntax"
begin

text \<open>
  The memory side of the heap: request rounding, the pages a block owns, and what \<open>kmalloc\<close> promises
  its callers.

  \<open>heap_owns\<close> says that the pages of the blocks in the list are taken from the page allocator and belong to
  one block each.  \<open>kmalloc\<close> keeps it when the pages it is given are consecutive (always so for requests of
  one page) and \<open>kfree\<close> keeps it when the freed block has no free neighbour.  The last section runs the
  model on concrete states in which the remaining cases hand out overlapping memory.
\<close>

section \<open>Rounding\<close>

lemma mask_2_u32: "(3 :: u32) = mask 2"
  by (simp add: mask_eq_exp_minus_1)

lemma unat_and_not_3: "unat ((w :: u32) AND NOT 3) = 4 * (unat w div 4)"
proof -
  have "unat (take_bit 2 w) = unat w mod 4" by (simp add: take_bit_eq_mod unat_mod)
  moreover have "take_bit 2 w \<le> w" unfolding word_le_nat_alt calculation by (rule mod_less_eq_dividend)
  ultimately have "unat (w - take_bit 2 w) = unat w - unat w mod 4"
    by (simp add: unat_sub_if' word_le_nat_alt)
  then show ?thesis unfolding mask_2_u32 and_not_mask_eq by (simp add: minus_mod_eq_mult_div)
qed

lemma unat_align4: "unat sz \<le> 0xFFFFFFFC \<Longrightarrow> unat (align4 sz) = 4 * ((unat sz + 3) div 4)"
  unfolding align4_def unat_and_not_3 by (subst unat_add_no_wrap) auto

lemma align4_idem: "align4 (align4 sz) = align4 sz"
proof -
  have m: "unat (align4 sz) = 4 * (unat (sz + 3) div 4)" unfolding align4_def unat_and_not_3 by (rule refl)
  then have "unat (align4 sz) \<le> 0xFFFFFFFC" using less_mult_imp_div_less [of "unat (sz + 3)" 1073741824 4] by simp
  then have "unat (align4 (align4 sz)) = unat (align4 sz)" using m unat_align4 by simp
  then show ?thesis by (simp only: word_unat_eq_iff)
qed

text \<open>The size of the block made for a request, and that it does not wrap for requests up to 4 GB less a page.\<close>

definition block_size :: "u32 \<Rightarrow> u32" where
  "block_size sz = align4 sz + HEADER_SIZE"

lemma unat_block_size:
  assumes "unat sz \<le> 0xFFFFEFE0"
  shows "unat (block_size sz) = 4 * ((unat sz + 3) div 4) + 16"
    and "unat sz + 16 \<le> unat (block_size sz)" and "unat (block_size sz) \<le> 0xFFFFF000"
proof -
  show a: "unat (block_size sz) = 4 * ((unat sz + 3) div 4) + 16"
    unfolding block_size_def using assms unat_align4 [of sz] by (subst unat_add_no_wrap) auto
  show "unat sz + 16 \<le> unat (block_size sz)" "unat (block_size sz) \<le> 0xFFFFF000"
    using assms unfolding a by linarith+
qed

lemma page_count_eq:
  assumes "unat n \<le> 0xFFFFF000"
  shows "page_count n = (unat n + 4095) div 4096"
proof -
  have "n + PAGE_SIZE - 1 = n + 4095" by (simp add: algebra_simps)
  then show ?thesis unfolding page_count_def using assms by (simp add: unat_div unat_add_no_wrap)
qed

section \<open>Ownership\<close>

definition block_pages :: "'a heap_sys_scheme \<Rightarrow> u32 \<Rightarrow> nat set" where
  "block_pages s x = {page_of x..<page_of x + page_count (hb_size (heap_mem s x))}"

definition heap_owns :: "'a heap_sys_scheme \<Rightarrow> u32 list \<Rightarrow> bool" where
  "heap_owns s xs \<longleftrightarrow>
     heap_wf s xs \<and> pmm_inv (pmm s) \<and> 0 \<notin> free_frames (pmm s) \<and>
     (\<forall>x \<in> set xs. x mod PAGE_SIZE = 0 \<and>
        16 \<le> unat (hb_size (heap_mem s x)) \<and> unat (hb_size (heap_mem s x)) \<le> 0xFFFFF000 \<and>
        block_pages s x \<subseteq> {..<unat (total_pages (pmm s))} - free_frames (pmm s)) \<and>
     (\<forall>x \<in> set xs. \<forall>y \<in> set xs. x \<noteq> y \<longrightarrow> block_pages s x \<inter> block_pages s y = {})"

text \<open>The bytes of a block, header included.\<close>

definition block_bytes :: "'a heap_sys_scheme \<Rightarrow> u32 \<Rightarrow> nat set" where
  "block_bytes s x = {unat x..<unat x + unat (hb_size (heap_mem s x))}"

lemma block_bytes_in_pages:
  assumes "x mod PAGE_SIZE = 0" and "unat (hb_size (heap_mem s x)) \<le> 0xFFFFF000" and "a \<in> block_bytes s x"
  shows "a div 4096 \<in> block_pages s x"
proof -
  have "unat x mod 4096 = 0" using assms(1) by (simp add: unat_eq_zero [symmetric] unat_mod)
  then show ?thesis
    using assms(2,3) unfolding block_pages_def page_count_eq [OF assms(2)] block_bytes_def page_of_def
    by auto
qed

lemma heap_owns_disjoint:
  assumes "heap_owns s xs" and "x \<in> set xs" and "y \<in> set xs" and "x \<noteq> y"
  shows "block_bytes s x \<inter> block_bytes s y = {}"
proof -
  have dis: "block_pages s x \<inter> block_pages s y = {}"
    and x: "x mod PAGE_SIZE = 0" "unat (hb_size (heap_mem s x)) \<le> 0xFFFFF000"
    and y: "y mod PAGE_SIZE = 0" "unat (hb_size (heap_mem s y)) \<le> 0xFFFFF000"
    using assms unfolding heap_owns_def by blast+
  have False if "a \<in> block_bytes s x" "a \<in> block_bytes s y" for a
    using block_bytes_in_pages [OF x that(1)] block_bytes_in_pages [OF y that(2)] dis
    by (meson disjoint_iff)
  then show ?thesis by (meson disjoint_iff)
qed

lemma heap_owns_head_page:
  assumes "heap_owns s xs" and "x \<in> set xs"
  shows "page_of x \<notin> free_frames (pmm s)"
proof -
  have sz: "16 \<le> unat (hb_size (heap_mem s x))" "unat (hb_size (heap_mem s x)) \<le> 0xFFFFF000"
    and sub: "block_pages s x \<inter> free_frames (pmm s) = {}"
    using assms by (fastforce simp add: heap_owns_def)+
  have "0 < page_count (hb_size (heap_mem s x))" unfolding page_count_eq [OF sz(2)] using sz(1) by simp
  then have "page_of x \<in> block_pages s x" by (simp add: block_pages_def)
  with sub show ?thesis by blast
qed

section \<open>Taking consecutive pages\<close>

lemma alloc_more_run:
  fixes s :: "'a pmm_sys_scheme"
  assumes "pmm_inv (pmm s)" and "0 \<notin> free_frames (pmm s)"
    and "{m + i..<m + n} \<subseteq> free_frames (pmm s)" and "\<forall>k \<in> free_frames (pmm s). m + i \<le> k"
  shows "\<exists>t. alloc_more_pages page i n s = (True, t) \<and> pmm_inv (pmm t) \<and>
    total_pages (pmm t) = total_pages (pmm s) \<and>
    free_frames (pmm t) = free_frames (pmm s) - {m + i..<m + n}"
  using assms
proof (induction page i n s rule: alloc_more_pages.induct)
  case (1 page i n s)
  show ?case
  proof (cases "i < n")
    case False
    then show ?thesis using "1.prems"(1) by (subst alloc_more_pages.simps) simp
  next
    case True
    have mem: "m + i \<in> free_frames (pmm s)" using "1.prems"(3) True by auto
    have Min: "Min (free_frames (pmm s)) = m + i"
      using "1.prems"(4) mem by (intro Min_eqI) auto
    let ?t = "s\<lparr>pmm := take_page (m + i) (pmm s)\<rparr>"
    have al: "pmm_alloc_page s = (page_addr (m + i), ?t)"
      using pmm_alloc_page_least [OF "1.prems"(1)] mem Min by auto
    have nz: "page_addr (m + i) \<noteq> 0"
      using page_addr_eq_0 free_frames_less [OF "1.prems"(1) mem] mem "1.prems"(2) by metis
    have inv: "pmm_inv (pmm ?t)" "free_frames (pmm ?t) = free_frames (pmm s) - {m + i}"
      using take_page_inv [OF "1.prems"(1) mem] by simp_all
    have "\<exists>t. alloc_more_pages page (Suc i) n ?t = (True, t) \<and> pmm_inv (pmm t) \<and>
        total_pages (pmm t) = total_pages (pmm ?t) \<and>
        free_frames (pmm t) = free_frames (pmm ?t) - {m + Suc i..<m + n}"
      using "1.prems" inv True
      by (intro "1.IH" [OF True al [symmetric] refl nz]) (auto simp add: Suc_le_eq order.not_eq_order_implies_strict)
    moreover have "free_frames (pmm s) - {m + i} - {m + Suc i..<m + n} = free_frames (pmm s) - {m + i..<m + n}"
      using True by auto
    ultimately show ?thesis
      using True al nz inv by (subst alloc_more_pages.simps) auto
  qed
qed

lemma create_block_unfold:
  "create_block n s =
     (let (page, s1) = pmm_alloc_page s
      in if page = 0 then (0, s1)
         else let (ok, s2) = alloc_more_pages page 1 (page_count (block_size n)) s1
              in if \<not> ok then (0, s2)
                 else (page, s2\<lparr>heap_mem := (heap_mem s2)
                         (page := \<lparr>hb_size = block_size n, hb_used = 1, hb_next = 0, hb_prev = 0\<rparr>),
                       heap_total := heap_total s2 + block_size n,
                       heap_used := heap_used s2 + block_size n\<rparr>))"
  by (simp only: create_block_def block_size_def page_count_def Let_def)

text \<open>The lowest free pages are consecutive, as many as the request needs.\<close>

definition run_available :: "u32 \<Rightarrow> pmm_t \<Rightarrow> bool" where
  "run_available sz p \<longleftrightarrow> free_frames p \<noteq> {} \<and>
     {Min (free_frames p)..<Min (free_frames p) + page_count (block_size sz)} \<subseteq> free_frames p"

lemma create_block_run:
  fixes s :: "'a heap_sys_scheme"
  assumes inv: "pmm_inv (pmm s)" and z: "0 \<notin> free_frames (pmm s)" and run: "run_available n (pmm s)"
    and pos: "0 < page_count (block_size n)"
  defines "m \<equiv> Min (free_frames (pmm s))"
  shows "\<exists>t. create_block n s = (page_addr m, t) \<and> pmm_inv (pmm t) \<and>
    total_pages (pmm t) = total_pages (pmm s) \<and>
    free_frames (pmm t) = free_frames (pmm s) - {m..<m + page_count (block_size n)} \<and>
    page_addr m \<noteq> 0 \<and> m \<in> free_frames (pmm s)"
proof -
  have ne: "free_frames (pmm s) \<noteq> {}" and sub: "{m..<m + page_count (block_size n)} \<subseteq> free_frames (pmm s)"
    using run by (simp_all add: run_available_def m_def)
  have mem: "m \<in> free_frames (pmm s)" using ne by (simp add: m_def)
  let ?t = "s\<lparr>pmm := take_page m (pmm s)\<rparr>"
  have al: "pmm_alloc_page s = (page_addr m, ?t)"
    using pmm_alloc_page_least [OF inv ne] by (simp add: m_def)
  have nz: "page_addr m \<noteq> 0"
    using page_addr_eq_0 free_frames_less [OF inv mem] mem z by metis
  have t: "pmm_inv (pmm ?t)" "free_frames (pmm ?t) = free_frames (pmm s) - {m}"
    using take_page_inv [OF inv mem] by simp_all
  have "\<forall>k \<in> free_frames (pmm s). m \<le> k" by (simp add: m_def)
  then have least: "\<forall>k \<in> free_frames (pmm ?t). m + 1 \<le> k" using t(2) by (auto simp add: Suc_le_eq order.not_eq_order_implies_strict)
  have sub': "{m + 1..<m + page_count (block_size n)} \<subseteq> free_frames (pmm ?t)" using sub t(2) by auto
  obtain t2 where t2: "alloc_more_pages (page_addr m) 1 (page_count (block_size n)) ?t = (True, t2)"
      "pmm_inv (pmm t2)" "total_pages (pmm t2) = total_pages (pmm ?t)"
      "free_frames (pmm t2) = free_frames (pmm ?t) - {m + 1..<m + page_count (block_size n)}"
    using alloc_more_run [OF t(1) _ _ least, where n = "page_count (block_size n)" and page = "page_addr m"]
      sub' z t(2) by auto
  have "free_frames (pmm s) - {m} - {m + 1..<m + page_count (block_size n)} =
      free_frames (pmm s) - {m..<m + page_count (block_size n)}"
    using pos by auto
  then show ?thesis
    unfolding create_block_unfold al Let_def prod.case t2(1) using nz t2 t(2) mem by simp
qed

section \<open>kmalloc keeps the blocks apart\<close>

lemma heap_owns_keep:
  assumes "heap_owns s xs" and "heap_wf t xs" and "pmm t = pmm s"
    and same: "\<And>x. x \<in> set xs \<Longrightarrow> hb_size (heap_mem t x) = hb_size (heap_mem s x)"
  shows "heap_owns t xs"
proof -
  have "block_pages t x = block_pages s x" if "x \<in> set xs" for x
    using same [OF that] by (simp add: block_pages_def)
  with assms show ?thesis unfolding heap_owns_def by simp
qed

lemma heap_owns_add:
  fixes s :: "'a heap_sys_scheme"
  assumes owns: "heap_owns s xs" and wf: "heap_wf t (xs @ [b])"
    and pmm: "pmm_inv (pmm t)" "total_pages (pmm t) = total_pages (pmm s)"
      "free_frames (pmm t) = free_frames (pmm s) - {page_of b..<page_of b + page_count n}"
    and run: "{page_of b..<page_of b + page_count n} \<subseteq> free_frames (pmm s)"
    and b: "b mod PAGE_SIZE = 0" "16 \<le> unat n" "unat n \<le> 0xFFFFF000" "hb_size (heap_mem t b) = n"
    and same: "\<And>x. x \<in> set xs \<Longrightarrow> hb_size (heap_mem t x) = hb_size (heap_mem s x)"
  shows "heap_owns t (xs @ [b])"
proof -
  have new: "block_pages t b = {page_of b..<page_of b + page_count n}"
    by (simp add: block_pages_def b(4))
  have old: "block_pages t x = block_pages s x" if "x \<in> set xs" for x
    using same [OF that] by (simp add: block_pages_def)
  have used: "block_pages s x \<subseteq> {..<unat (total_pages (pmm s))} - free_frames (pmm s)" if "x \<in> set xs" for x
    using owns that by (simp add: heap_owns_def)
  have frames: "{page_of b..<page_of b + page_count n} \<subseteq> {..<unat (total_pages (pmm s))}"
    using run by (auto simp add: free_frames_def)
  have apart: "block_pages t x \<inter> block_pages t b = {}" if "x \<in> set xs" for x
    using used [OF that] run unfolding old [OF that] new by blast
  have "x mod PAGE_SIZE = 0 \<and> 16 \<le> unat (hb_size (heap_mem t x)) \<and>
      unat (hb_size (heap_mem t x)) \<le> 0xFFFFF000 \<and>
      block_pages t x \<subseteq> {..<unat (total_pages (pmm t))} - free_frames (pmm t)"
    if "x \<in> set (xs @ [b])" for x
  proof (cases "x \<in> set xs")
    case True
    moreover have "block_pages t x \<subseteq> {..<unat (total_pages (pmm t))} - free_frames (pmm t)"
      using used [OF True] unfolding pmm(2,3) old [OF True] by blast
    ultimately show ?thesis using owns same [OF True] by (simp add: heap_owns_def)
  next
    case False
    then have x: "x = b" using that by simp
    show ?thesis unfolding x pmm(2,3) new b(4) using b(1-3) frames by blast
  qed
  moreover have "block_pages t x \<inter> block_pages t y = {}"
    if "x \<in> set (xs @ [b])" "y \<in> set (xs @ [b])" "x \<noteq> y" for x y
  proof (cases "x = b \<or> y = b")
    case True
    then show ?thesis using that apart by (auto simp add: Int_commute)
  next
    case False
    then have "x \<in> set xs" "y \<in> set xs" using that by auto
    then show ?thesis using owns that(3) old unfolding heap_owns_def by simp
  qed
  moreover have "0 \<notin> free_frames (pmm t)" using owns pmm(3) by (simp add: heap_owns_def)
  ultimately show ?thesis using wf pmm(1) unfolding heap_owns_def by blast
qed

lemma block_size_align4 [simp]: "block_size (align4 sz) = block_size sz"
  by (simp add: block_size_def align4_idem)

lemma page_count_pos: "16 \<le> unat n \<Longrightarrow> unat n \<le> 0xFFFFF000 \<Longrightarrow> 0 < page_count n"
  by (simp add: page_count_eq)

lemma kmalloc_hit_owns:
  assumes owns: "heap_owns s xs" and sz: "sz \<noteq> 0" "unat sz \<le> 0xFFFFEFE0"
    and hit: "List.find (\<lambda>x. fits (align4 sz) (heap_mem s x)) xs = Some x"
  shows "\<exists>t. kmalloc sz s = Some (x + HEADER_SIZE, t) \<and> heap_owns t xs \<and> x \<in> set xs \<and>
    unat sz + 16 \<le> unat (hb_size (heap_mem t x)) \<and>
    live_blocks t xs = insert (x, hb_size (heap_mem t x)) (live_blocks s xs) \<and>
    hb_used (heap_mem s x) = 0"
proof -
  let ?t = "s\<lparr>heap_mem := upd_block x (\<lambda>h. h\<lparr>hb_used := 1\<rparr>) (heap_mem s),
              heap_used := heap_used s + hb_size (heap_mem s x)\<rparr>"
  have wf: "heap_wf s xs" using owns by (simp add: heap_owns_def)
  then have list: "heap_list (heap_mem s) (heap_head s) xs" by (simp add: heap_wf_def)
  have x: "x \<in> set xs" and fit: "fits (align4 sz) (heap_mem s x)"
    using hit by (auto simp add: find_Some_iff)
  have free: "hb_used (heap_mem s x) = 0" using fit by (simp add: fits_def)
  have "heap_owns ?t xs"
    by (rule heap_owns_keep [OF owns heap_wf_mark_used [OF wf x free]]) (simp_all add: upd_block_def)
  moreover have "unat (block_size sz) \<le> unat (hb_size (heap_mem s x))"
    using fit by (simp add: fits_def block_size_def word_le_nat_alt)
  moreover have "live_blocks ?t xs = insert (x, hb_size (heap_mem ?t x)) (live_blocks s xs)"
    using live_blocks_mark_used [OF x, of ?t s] by simp
  ultimately show ?thesis
    using kmalloc_hit [OF list sz(1) hit] x free unat_block_size(2) [OF sz(2)]
    by (intro exI [of _ ?t]) simp
qed

lemma kmalloc_miss_owns:
  fixes s :: "'a heap_sys_scheme"
  assumes owns: "heap_owns s xs" and sz: "sz \<noteq> 0" "unat sz \<le> 0xFFFFEFE0"
    and miss: "List.find (\<lambda>x. fits (align4 sz) (heap_mem s x)) xs = None"
    and run: "run_available sz (pmm s)"
  shows "\<exists>b t. kmalloc sz s = Some (b + HEADER_SIZE, t) \<and> heap_owns t (xs @ [b]) \<and>
    hb_size (heap_mem t b) = block_size sz \<and> b \<notin> set xs \<and>
    live_blocks t (xs @ [b]) = insert (b, block_size sz) (live_blocks s xs)"
proof -
  have wf: "heap_wf s xs" and inv: "pmm_inv (pmm s)" and z: "0 \<notin> free_frames (pmm s)"
    using owns by (simp_all add: heap_owns_def)
  have list: "heap_list (heap_mem s) (heap_head s) xs" using wf by (simp add: heap_wf_def)
  note bs = unat_block_size [OF sz(2)]
  have ge: "16 \<le> unat (block_size sz)" using bs(1) by simp
  note pos = page_count_pos [OF ge bs(3)]
  let ?m = "Min (free_frames (pmm s))"
  obtain t where t: "create_block (align4 sz) s = (page_addr ?m, t)" "pmm_inv (pmm t)"
      "total_pages (pmm t) = total_pages (pmm s)"
      "free_frames (pmm t) = free_frames (pmm s) - {?m..<?m + page_count (block_size sz)}"
      "page_addr ?m \<noteq> 0" "?m \<in> free_frames (pmm s)"
    using create_block_run [OF inv z, of "align4 sz"] run pos by (auto simp add: run_available_def)
  have m: "?m < 1048576" by (rule free_frames_less [OF inv t(6)])
  let ?b = "page_addr ?m"
  have pb: "page_of ?b = ?m" by (rule page_of_page_addr [OF m])
  have fresh: "?b \<notin> set xs" using heap_owns_head_page [OF owns, of ?b] pb t(6) by auto
  let ?t = "link_last xs ?b t"
  have size_t: "hb_size (heap_mem ?t x) = (if x = ?b then block_size sz else hb_size (heap_mem s x))" for x
    using create_block_mem [of "align4 sz" s] t(1,5)
    by (simp add: link_last_def upd_block_def block_size_def align4_idem)
  have pmm_t: "pmm ?t = pmm t" by (simp add: link_last_def)
  have "heap_owns ?t (xs @ [?b])"
  proof (rule heap_owns_add [OF owns heap_wf_link_last [OF wf t(1,5) fresh], of "block_size sz"])
    show "free_frames (pmm ?t) = free_frames (pmm s) - {page_of ?b..<page_of ?b + page_count (block_size sz)}"
      using t(4) pmm_t pb by simp
    show "{page_of ?b..<page_of ?b + page_count (block_size sz)} \<subseteq> free_frames (pmm s)"
      using run pb by (simp add: run_available_def)
    show "?b mod PAGE_SIZE = 0" using page_addr_aligned [OF m] .
    show "hb_size (heap_mem ?t x) = hb_size (heap_mem s x)" if "x \<in> set xs" for x
      using that fresh size_t by auto
  qed (use t(2,3) pmm_t ge bs(3) size_t in simp_all)
  moreover have "live_blocks ?t (xs @ [?b]) = insert (?b, block_size sz) (live_blocks s xs)"
    using live_blocks_link_last [OF t(1,5) fresh] by (simp add: block_size_def align4_idem)
  moreover have "kmalloc sz s = Some (?b + HEADER_SIZE, ?t)"
    using kmalloc_miss [OF list sz(1) miss t(1) fresh] t(5) by simp
  moreover have "hb_size (heap_mem ?t ?b) = block_size sz" using size_t by simp
  ultimately show ?thesis using fresh by (intro exI [of _ ?b] exI [of _ ?t] conjI)
qed

lemma kmalloc_exhausted:
  assumes owns: "heap_owns s xs" and sz: "sz \<noteq> 0"
    and miss: "List.find (\<lambda>x. fits (align4 sz) (heap_mem s x)) xs = None"
    and empty: "free_frames (pmm s) = {}"
  shows "kmalloc sz s = Some (0, con_puts (lit ''[PMM] Out of memory!'' @ [ch_nl]) 0x1C s)"
proof -
  let ?t = "con_puts (lit ''[PMM] Out of memory!'' @ [ch_nl]) 0x1C s"
  have list: "heap_list (heap_mem s) (heap_head s) xs" and inv: "pmm_inv (pmm s)"
    using owns by (simp_all add: heap_owns_def heap_wf_def)
  have "create_block (align4 sz) s = (0, ?t)"
    unfolding create_block_unfold pmm_alloc_page_empty [OF inv empty] by simp
  moreover have "0 \<notin> set xs" using heap_list_nonzero [OF list] by metis
  ultimately show ?thesis using kmalloc_miss [OF list sz miss] by simp
qed

lemma run_available_one_page:
  assumes "unat sz \<le> 4080" and "free_frames p \<noteq> {}"
  shows "run_available sz p"
proof -
  have "unat (block_size sz) = 4 * ((unat sz + 3) div 4) + 16" using assms(1) by (intro unat_block_size) simp
  then have "unat (block_size sz) \<le> 4096" using assms(1) by simp
  then have "page_count (block_size sz) \<le> 1" by (simp add: page_count_eq)
  moreover have "Min (free_frames p) \<in> free_frames p" using assms(2) by simp
  ultimately have "{Min (free_frames p)..<Min (free_frames p) + page_count (block_size sz)} \<subseteq> free_frames p"
    by (metis atLeastLessThan_empty atLeastLessThan_singleton add.right_neutral add_Suc_right empty_subsetI
        insert_subset le_Suc_eq le_zero_eq One_nat_def order_refl)
  then show ?thesis using assms(2) by (simp add: run_available_def)
qed

section \<open>kfree without coalescing\<close>

lemma kfree_no_merge:
  assumes "x + HEADER_SIZE \<noteq> 0" and "hb_used (heap_mem s x) \<noteq> 0"
    and "hb_next (heap_mem s x) = 0 \<or> (hb_next (heap_mem s x) \<noteq> x \<and> hb_used (heap_mem s (hb_next (heap_mem s x))) \<noteq> 0)"
    and "hb_prev (heap_mem s x) = 0 \<or> (hb_prev (heap_mem s x) \<noteq> x \<and> hb_used (heap_mem s (hb_prev (heap_mem s x))) \<noteq> 0)"
  shows "kfree (x + HEADER_SIZE) s =
    s\<lparr>heap_mem := upd_block x (\<lambda>h. h\<lparr>hb_used := 0\<rparr>) (heap_mem s),
      heap_used := heap_used s - hb_size (heap_mem s x)\<rparr>"
  using assms by (auto simp add: kfree_def Let_def merge_next_eq merge_prev_eq)

lemma kfree_no_merge_owns:
  assumes owns: "heap_owns s xs" and x: "x \<in> set xs" and nz: "x + HEADER_SIZE \<noteq> 0"
    and used: "hb_used (heap_mem s x) \<noteq> 0"
    and "hb_next (heap_mem s x) = 0 \<or> (hb_next (heap_mem s x) \<noteq> x \<and> hb_used (heap_mem s (hb_next (heap_mem s x))) \<noteq> 0)"
    and "hb_prev (heap_mem s x) = 0 \<or> (hb_prev (heap_mem s x) \<noteq> x \<and> hb_used (heap_mem s (hb_prev (heap_mem s x))) \<noteq> 0)"
  shows "heap_owns (kfree (x + HEADER_SIZE) s) xs"
proof -
  have wf: "heap_wf s xs" using owns by (simp add: heap_owns_def)
  show ?thesis
    unfolding kfree_no_merge [OF nz used assms(5,6)]
    by (rule heap_owns_keep [OF owns heap_wf_mark_free(1) [OF wf x used refl]]) (simp_all add: upd_block_def)
qed

lemma aligned_plus_header:
  assumes "x mod PAGE_SIZE = 0"
  shows "unat (x + HEADER_SIZE) = unat x + 16" and "x + HEADER_SIZE \<noteq> 0"
proof -
  have "unat x mod 4096 = 0" using assms by (simp add: unat_eq_zero [symmetric] unat_mod)
  then obtain k where "unat x = 4096 * k" by (auto simp add: mod_eq_0_iff_dvd dvd_def)
  then have "unat x + 16 < 4294967296" using unat_u32_less [of x] by simp
  then show *: "unat (x + HEADER_SIZE) = unat x + 16" by (subst unat_add_no_wrap) auto
  then show "x + HEADER_SIZE \<noteq> 0" by (metis add_is_0 unat_0 zero_neq_numeral)
qed

lemma heap_owns_con_puts: "heap_owns (con_puts str col s) xs \<longleftrightarrow> heap_owns s xs"
  by (simp add: heap_owns_def heap_wf_def heap_accounts_def block_pages_def con_puts_def)

lemma live_blocks_con_puts: "live_blocks (con_puts str col s) xs = live_blocks s xs"
  by (simp add: live_blocks_def con_puts_def)

text \<open>All three outcomes of \<open>kmalloc\<close>: a reused block, a new block, no memory.\<close>

lemma kmalloc_outcome:
  fixes s :: "'a heap_sys_scheme"
  assumes owns: "heap_owns s xs" and sz: "sz \<noteq> 0" "unat sz \<le> 0xFFFFEFE0"
    and run: "free_frames (pmm s) \<noteq> {} \<longrightarrow> run_available sz (pmm s)"
  shows "\<exists>t ys. heap_owns t ys \<and>
    ((kmalloc sz s = Some (0, t) \<and> free_frames (pmm s) = {} \<and> ys = xs \<and> live_blocks t ys = live_blocks s xs)
     \<or> (\<exists>x n. kmalloc sz s = Some (x + HEADER_SIZE, t) \<and> x \<in> set ys \<and> set xs \<subseteq> set ys \<and>
          hb_size (heap_mem t x) = n \<and> unat sz + 16 \<le> unat n \<and>
          live_blocks t ys = insert (x, n) (live_blocks s xs) \<and> (\<forall>k. (x, k) \<notin> live_blocks s xs)))"
proof (cases "List.find (\<lambda>x. fits (align4 sz) (heap_mem s x)) xs")
  case (Some x)
  from kmalloc_hit_owns [OF owns sz Some] obtain t where
    t: "kmalloc sz s = Some (x + HEADER_SIZE, t)" "heap_owns t xs" "x \<in> set xs"
      "unat sz + 16 \<le> unat (hb_size (heap_mem t x))"
      "live_blocks t xs = insert (x, hb_size (heap_mem t x)) (live_blocks s xs)"
      "hb_used (heap_mem s x) = 0" by blast
  moreover have "\<forall>k. (x, k) \<notin> live_blocks s xs" using t(6) by (simp add: live_blocks_def)
  ultimately show ?thesis by (intro exI [of _ t] exI [of _ xs]) auto
next
  case None
  show ?thesis
  proof (cases "free_frames (pmm s) = {}")
    case True
    then show ?thesis
      using kmalloc_exhausted [OF owns sz(1) None] owns
      by (intro exI [of _ "con_puts (lit ''[PMM] Out of memory!'' @ [ch_nl]) 0x1C s"] exI [of _ xs])
        (simp add: heap_owns_con_puts live_blocks_con_puts)
  next
    case False
    with run have "run_available sz (pmm s)" by simp
    from kmalloc_miss_owns [OF owns sz None this] obtain b t where
      b: "kmalloc sz s = Some (b + HEADER_SIZE, t)" "heap_owns t (xs @ [b])"
        "hb_size (heap_mem t b) = block_size sz" "b \<notin> set xs"
        "live_blocks t (xs @ [b]) = insert (b, block_size sz) (live_blocks s xs)" by blast
    moreover have "\<forall>k. (b, k) \<notin> live_blocks s xs" using b(4) by (simp add: live_blocks_def)
    moreover note unat_block_size(2) [OF sz(2)]
    ultimately show ?thesis by (intro exI [of _ t] exI [of _ "xs @ [b]"]) auto
  qed
qed

lemma payload_apart:
  assumes owns: "heap_owns t ys" and x: "x \<in> set ys" "k + 16 \<le> unat (hb_size (heap_mem t x))"
    and y: "(y, n) \<in> live_blocks t ys" "y \<noteq> x"
  shows "{unat (x + HEADER_SIZE)..<unat (x + HEADER_SIZE) + k} \<inter> {unat y..<unat y + unat n} = {}"
proof -
  have "x mod PAGE_SIZE = 0" using owns x by (simp add: heap_owns_def)
  then have sub: "{unat (x + HEADER_SIZE)..<unat (x + HEADER_SIZE) + k} \<subseteq> block_bytes t x"
    unfolding aligned_plus_header(1) [OF \<open>x mod PAGE_SIZE = 0\<close>] using x(2) by (auto simp add: block_bytes_def)
  have "y \<in> set ys" and n: "n = hb_size (heap_mem t y)" using y(1) by (auto simp add: live_blocks_def)
  then have "block_bytes t x \<inter> block_bytes t y = {}"
    using heap_owns_disjoint [OF owns x(1)] y(2) by metis
  with sub show ?thesis unfolding n block_bytes_def [of t y, symmetric] by blast
qed

text \<open>The used total is the sum over the blocks handed out.\<close>

lemma heap_used_live:
  assumes "heap_wf s xs"
  shows "heap_used s = (\<Sum>(x, n) \<in> live_blocks s xs. n)"
proof -
  let ?U = "{x \<in> set xs. hb_used (heap_mem s x) \<noteq> 0}"
  have "heap_used s = (\<Sum>x \<in> set xs. used_size (heap_mem s x))"
    using assms by (simp add: heap_wf_def heap_accounts_def heap_list_def sum_list_distinct_conv_sum_set)
  also have "\<dots> = (\<Sum>x \<in> ?U. hb_size (heap_mem s x))"
    by (rule sum.mono_neutral_cong_right) (auto simp add: used_size_def)
  also have "\<dots> = (\<Sum>(x, n) \<in> (\<lambda>x. (x, hb_size (heap_mem s x))) ` ?U. n)"
    by (subst sum.reindex) (auto simp add: inj_on_def)
  also have "(\<lambda>x. (x, hb_size (heap_mem s x))) ` ?U = live_blocks s xs"
    by (auto simp add: live_blocks_def)
  finally show ?thesis .
qed

section \<open>Properties\<close>

text \<open>
  A booted machine with 32 page frames, frame 0 reserved, and an empty heap; and one on which frame
  2 is reserved as well.
\<close>

definition demo_heap :: "u32 \<Rightarrow> u32 \<Rightarrow> heap_sys" where
  "demo_heap map_word used = \<lparr>io_trace = [], ram = (\<lambda>_. 0),
     vga = \<lparr>vga_buffer = (\<lambda>_. 0), cursor_x = 0, cursor_y = 0\<rparr>,
     pmm = \<lparr>bitmap = (\<lambda>_. map_word), total_pages = 32, used_pages = used, free_pages = 32 - used,
       bitmap_size = 1\<rparr>,
     heap_head = 0, heap_total = 0, heap_used = 0,
     heap_mem = (\<lambda>_. \<lparr>hb_size = 0, hb_used = 0, hb_next = 0, hb_prev = 0\<rparr>)\<rparr>"

lemma bit_one_word: "bit (1 :: u32) j \<longleftrightarrow> j = 0"
  by (auto simp add: bit_1_iff)

lemma demo_heap_free: "free_frames (pmm (demo_heap 1 1)) = {1..<32}"
  by (auto simp add: free_frames_def demo_heap_def page_used_def bit_one_word)

lemma demo_heap_owns: "heap_owns (demo_heap 1 1) []"
proof -
  have "count_below 32 (\<lambda>i. i = 0) = 1" "count_below 32 (\<lambda>i. i \<noteq> 0) = 31"
  proof -
    have "{i. i < 32 \<and> i = (0::nat)} = {0}" "{i. i < 32 \<and> i \<noteq> (0::nat)} = {1..<32}" by auto
    then show "count_below 32 (\<lambda>i. i = 0) = 1" "count_below 32 (\<lambda>i. i \<noteq> 0) = 31"
      by (simp_all add: count_below_def)
  qed
  moreover have "count_below 32 (page_used (\<lambda>_. 1)) = count_below 32 (\<lambda>i. i = 0)"
    "count_below 32 (\<lambda>i. \<not> page_used (\<lambda>_. 1) i) = count_below 32 (\<lambda>i. i \<noteq> 0)"
    by (rule count_below_cong, simp add: page_used_def bit_one_word)+
  ultimately have "pmm_inv (pmm (demo_heap 1 1))" by (simp add: pmm_inv_def demo_heap_def)
  then show ?thesis
    using demo_heap_free
    by (simp add: heap_owns_def heap_wf_def heap_list_def heap_accounts_def)
       (simp add: demo_heap_def)
qed



text \<open>C16. \<open>kfree\<close> of a block in use keeps the block list and the two totals right, coalescing included, and
  removes exactly that block from the blocks handed out.\<close>

theorem kfree_contract:
  assumes "heap_wf s xs" and "(x, n) \<in> live_blocks s xs" and "x + HEADER_SIZE \<noteq> 0"
  shows "\<exists>ys. heap_wf (kfree (x + HEADER_SIZE) s) ys \<and> set ys \<subseteq> set xs \<and>
    live_blocks (kfree (x + HEADER_SIZE) s) ys = live_blocks s xs - {(x, n)}"
proof -
  have "x \<in> set xs" "hb_used (heap_mem s x) \<noteq> 0" "n = hb_size (heap_mem s x)"
    using assms(2) by (auto simp add: live_blocks_def)
  then show ?thesis using kfree_live_effect [OF assms(1) _ _ assms(3)] by simp
qed

text \<open>Two neighbouring blocks, the second one free: freeing the first coalesces them.\<close>

definition demo_two :: heap_sys where
  "demo_two = (demo_heap 7 3)\<lparr>heap_head := 0x1000, heap_total := 200, heap_used := 100,
     heap_mem := (\<lambda>a. if a = 0x1000 then \<lparr>hb_size = 100, hb_used = 1, hb_next = 0x2000, hb_prev = 0\<rparr>
                      else \<lparr>hb_size = 100, hb_used = 0, hb_next = 0, hb_prev = 0x1000\<rparr>)\<rparr>"

theorem kfree_contract_witness:
  "\<exists>ys. heap_wf (kfree (0x1000 + HEADER_SIZE) demo_two) ys \<and> set ys \<subseteq> set [0x1000, 0x2000] \<and>
    live_blocks (kfree (0x1000 + HEADER_SIZE) demo_two) ys =
      live_blocks demo_two [0x1000, 0x2000] - {(0x1000, 100)}"
  by (rule kfree_contract)
     (simp_all add: demo_two_def heap_wf_def heap_list_def heap_accounts_def used_size_def live_blocks_def)

text \<open>Releasing a block right after it was allocated leaves the set of blocks handed out, and with it
  the used total that \<open>heap_get_used\<close> reports, as they were.\<close>

theorem kmalloc_kfree_used:
  assumes "heap_owns s xs" and "sz \<noteq> 0" and "unat sz \<le> 0xFFFFEFE0"
    and "free_frames (pmm s) \<noteq> {}" and "run_available sz (pmm s)"
  shows "\<exists>p t ys. kmalloc sz s = Some (p, t) \<and> p \<noteq> 0 \<and> live_blocks (kfree p t) ys = live_blocks s xs \<and>
    heap_get_used (kfree p t) = heap_get_used s"
proof -
  from kmalloc_outcome [OF assms(1-3)] assms(4,5) obtain t ys x n where owns: "heap_owns t ys" and
    x: "kmalloc sz s = Some (x + HEADER_SIZE, t)" "x \<in> set ys"
      "live_blocks t ys = insert (x, n) (live_blocks s xs)" "\<forall>k. (x, k) \<notin> live_blocks s xs" by metis
  have nz: "x + HEADER_SIZE \<noteq> 0" using owns x(2) by (intro aligned_plus_header) (simp add: heap_owns_def)
  have "(x, n) \<in> live_blocks t ys" using x(3) by simp
  then have "hb_used (heap_mem t x) \<noteq> 0" and n: "n = hb_size (heap_mem t x)" by (auto simp add: live_blocks_def)
  with kfree_live_effect [of t ys x] owns x(2) nz obtain us where
    us: "heap_wf (kfree (x + HEADER_SIZE) t) us"
      "live_blocks (kfree (x + HEADER_SIZE) t) us = live_blocks t ys - {(x, n)}"
    unfolding heap_owns_def by blast
  have live: "live_blocks (kfree (x + HEADER_SIZE) t) us = live_blocks s xs" using us(2) x(3,4) by auto
  have "heap_wf s xs" using assms(1) by (simp add: heap_owns_def)
  then have "heap_used (kfree (x + HEADER_SIZE) t) = heap_used s"
    using heap_used_live [OF us(1)] live heap_used_live [of s xs] by simp
  then show ?thesis
    using x(1) nz live
    by (intro exI [of _ "x + HEADER_SIZE"] exI [of _ t] exI [of _ us]) (simp add: heap_get_used_def)
qed

theorem kmalloc_kfree_used_witness:
  "\<exists>p t ys. kmalloc 100 (demo_heap 1 1) = Some (p, t) \<and> p \<noteq> 0 \<and>
    live_blocks (kfree p t) ys = live_blocks (demo_heap 1 1) [] \<and>
    heap_get_used (kfree p t) = heap_get_used (demo_heap 1 1)"
  using run_available_one_page [of 100 "pmm (demo_heap 1 1)"]
  by (intro kmalloc_kfree_used [OF demo_heap_owns]) (simp_all add: demo_heap_free)

text \<open>Coalescing gives the pages of the absorbed block back while the surviving block keeps claiming
  their bytes: after two blocks were allocated and freed, a block of 8000 bytes at \<open>0x1010\<close> and a block
  of 4000 bytes at \<open>0x2010\<close>, inside the first one, are handed out together.\<close>

theorem kfree_merge_overlap:
  "kmalloc 4000 (demo_heap 1 1) \<bind> (\<lambda>(a, s). kmalloc 4000 s \<bind> (\<lambda>(b, s).
     kmalloc 8000 (kfree a (kfree b s)) \<bind> (\<lambda>(c, s). kmalloc 4000 s \<bind> (\<lambda>(d, s).
       Some (c, d, hb_size (heap_mem s (c - HEADER_SIZE)), hb_size (heap_mem s (d - HEADER_SIZE)))))))
   = Some (0x1010, 0x2010, 8032, 4016)"
  by code_simp

text \<open>A block of several pages is built on the assumption that successive page allocations are adjacent:
  with frame 2 in use by someone else, a request for 5000 bytes is given frames 1 and 3, and the block at
  \<open>0x1000\<close> of 5016 bytes covers frame 2.\<close>

theorem kmalloc_not_contiguous:
  "map_option (\<lambda>(p, s). (p, hb_size (heap_mem s (p - HEADER_SIZE)), bitmap (pmm s) 0)) (kmalloc 5000 (demo_heap 5 2))
   = Some (0x1010, 5016, 0b1111)"
  by code_simp

text \<open>The rounding of a request wraps around: asking for \<open>0xFFFFFFFF\<close> bytes yields a block of 16 bytes,
  the header alone, and asking for \<open>0xFFFFF000\<close> bytes takes one page from the page allocator.\<close>

theorem kmalloc_size_wraps:
  "map_option (\<lambda>(p, s). (p, hb_size (heap_mem s (p - HEADER_SIZE)))) (kmalloc 0xFFFFFFFF (demo_heap 1 1))
     = Some (0x1010, 16) \<and>
   map_option (\<lambda>(p, s). (p, hb_size (heap_mem s (p - HEADER_SIZE)), pmm_get_used_pages s)) (kmalloc 0xFFFFF000 (demo_heap 1 1))
     = Some (0x1010, 0xFFFFF010, 2)"
  by code_simp

end
