(* ===== verification/Paging.thy ===== *)
theory Paging
  imports Heap_Owns
begin

text \<open>
  Two-level paging, \<^verbatim>\<open>src/kernel/paging.c\<close>.

  Directory and tables live in page frames; \<open>page_mem base i\<close> is entry \<open>i\<close> of the frame at the page-aligned
  address \<open>base\<close>, so a table that shares its frame with the directory aliases it, as in the program.
  The bit fields of \<open>page_entry_t\<close> keep their widths.

  The abstract view is \<open>vmap\<close>, the partial map from virtual page numbers to frames that the tables encode.
  On a well-formed hierarchy \<open>page_map\<close> and \<open>page_unmap\<close> update that map at one page and
  \<open>page_get_physical\<close> looks it up; the locale \<open>virtual_memory\<close> is this contract.
\<close>

section \<open>State\<close>

record page_entry_t =
  present :: "1 word"
  rw :: "1 word"
  user :: "1 word"
  pwt :: "1 word"
  pcd :: "1 word"
  accessed :: "1 word"
  dirty :: "1 word"
  pat :: "1 word"
  global :: "1 word"
  available :: "3 word"
  frame :: "20 word"

record paging_sys = heap_sys +
  kernel_page_directory :: u32
  kernel_page_tables :: "nat \<Rightarrow> u32"
  page_mem :: "u32 \<Rightarrow> nat \<Rightarrow> page_entry_t"

abbreviation PAGE_PRESENT :: u32 where "PAGE_PRESENT \<equiv> 0x001"
abbreviation PAGE_WRITE :: u32 where "PAGE_WRITE \<equiv> 0x002"
abbreviation PAGE_USER :: u32 where "PAGE_USER \<equiv> 0x004"

section \<open>Operations\<close>

definition clear_entry :: page_entry_t where
  "clear_entry = \<lparr>present = 0, rw = 0, user = 0, pwt = 0, pcd = 0, accessed = 0, dirty = 0, pat = 0,
     global = 0, available = 0, frame = 0\<rparr>"

definition upd_entry ::
    "u32 \<Rightarrow> nat \<Rightarrow> (page_entry_t \<Rightarrow> page_entry_t) \<Rightarrow> 'a paging_sys_scheme \<Rightarrow> 'a paging_sys_scheme" where
  "upd_entry base i f s =
     s\<lparr>page_mem := (page_mem s)(base := (page_mem s base)(i := f (page_mem s base i)))\<rparr>"

definition clear_entries :: "u32 \<Rightarrow> nat \<Rightarrow> 'a paging_sys_scheme \<Rightarrow> 'a paging_sys_scheme" where
  "clear_entries base n s = fold (\<lambda>i. upd_entry base i (\<lambda>_. clear_entry)) [0..<n] s"

definition identity_entries :: "u32 \<Rightarrow> nat \<Rightarrow> nat \<Rightarrow> 'a paging_sys_scheme \<Rightarrow> 'a paging_sys_scheme" where
  "identity_entries base dir_index n s =
     fold (\<lambda>table_index. upd_entry base table_index
             (\<lambda>e. e\<lparr>present := 1, rw := 1, user := 1,
                frame := ucast (drop_bit 12 (of_nat (dir_index * 1024 + table_index) * PAGE_SIZE :: u32))\<rparr>))
       [0..<n] s"

definition paging_init :: "hardware \<Rightarrow> 'a paging_sys_scheme \<Rightarrow> 'a paging_sys_scheme" where
  "paging_init hw s =
     (let s = con_puts (lit ''[PAGING] Initializing...'' @ [ch_nl]) 0x1A s;
          (dir, s) = pmm_alloc_page s;
          s = s\<lparr>kernel_page_directory := dir\<rparr>
      in if dir = 0
         then con_puts (lit ''[PAGING] Failed to allocate page directory'' @ [ch_nl]) 0x1C s
         else
           (let s = clear_entries dir 1024 s;
                (table, s) = pmm_alloc_page s;
                s = s\<lparr>kernel_page_tables := (kernel_page_tables s)(0 := table)\<rparr>
            in if table = 0
               then con_puts (lit ''[PAGING] Failed to allocate page table'' @ [ch_nl]) 0x1C s
               else
                 (let s = clear_entries table 1024 s;
                      s = identity_entries table 0 1024 s;
                      s = upd_entry dir 0 (\<lambda>e. e\<lparr>present := 1, rw := 1, user := 1,
                                                 frame := ucast (drop_bit 12 table)\<rparr>) s;
                      s = emit (MovCr3 dir) s;
                      cr0 = hw_cr0 hw (io_trace s) OR 0x80000000;
                      s = emit (MovCr0 cr0) s
                  in con_puts (lit ''[PAGING] Enabled (identity-mapped first 4 MB)'' @ [ch_nl]) 0x1A s)))"

text \<open>The three computations every lookup starts with.\<close>

definition dir_index_of :: "u32 \<Rightarrow> nat" where
  "dir_index_of va = unat (drop_bit 22 va)"

definition table_index_of :: "u32 \<Rightarrow> nat" where
  "table_index_of va = unat (drop_bit 12 va AND 0x3FF)"

definition entry_table :: "page_entry_t \<Rightarrow> u32" where
  "entry_table e = push_bit 12 (ucast (frame e))"

definition page_map :: "u32 \<Rightarrow> u32 \<Rightarrow> u32 \<Rightarrow> 'a paging_sys_scheme \<Rightarrow> 'a paging_sys_scheme" where
  "page_map virtual_addr physical_addr flags s =
     (let dir_index = dir_index_of virtual_addr;
          table_index = table_index_of virtual_addr;
          dir_entry = page_mem s (kernel_page_directory s) dir_index
      in if present dir_entry = 0
         then con_puts (lit ''[PAGING] Page table not present'' @ [ch_nl]) 0x1C s
         else emit (Invlpg virtual_addr)
                (upd_entry (entry_table dir_entry) table_index
                  (\<lambda>e. e\<lparr>present := (if flags AND PAGE_PRESENT \<noteq> 0 then 1 else 0),
                         rw := (if flags AND PAGE_WRITE \<noteq> 0 then 1 else 0),
                         user := (if flags AND PAGE_USER \<noteq> 0 then 1 else 0),
                         frame := ucast (drop_bit 12 physical_addr)\<rparr>) s))"

definition page_unmap :: "u32 \<Rightarrow> 'a paging_sys_scheme \<Rightarrow> 'a paging_sys_scheme" where
  "page_unmap virtual_addr s =
     (let dir_index = dir_index_of virtual_addr;
          table_index = table_index_of virtual_addr;
          dir_entry = page_mem s (kernel_page_directory s) dir_index
      in if present dir_entry = 0 then s
         else emit (Invlpg virtual_addr)
                (upd_entry (entry_table dir_entry) table_index (\<lambda>e. e\<lparr>present := 0\<rparr>) s))"

definition page_get_physical :: "u32 \<Rightarrow> 'a paging_sys_scheme \<Rightarrow> u32" where
  "page_get_physical virtual_addr s =
     (let dir_index = dir_index_of virtual_addr;
          table_index = table_index_of virtual_addr;
          offset = virtual_addr AND 0xFFF;
          dir_entry = page_mem s (kernel_page_directory s) dir_index
      in if present dir_entry = 0 then 0
         else (let e = page_mem s (entry_table dir_entry) table_index
               in if present e = 0 then 0 else push_bit 12 (ucast (frame e)) + offset))"

section \<open>Address arithmetic\<close>

lemma unat_drop_bit: "unat (drop_bit n (w :: 'a :: len word)) = unat w div 2 ^ n"
  unfolding unsigned_drop_bit_eq by (simp only: drop_bit_eq_div take_bit_nat_eq_self [OF unsigned_less])

lemma dir_index_eq: "dir_index_of va = page_of va div 1024"
  by (simp add: dir_index_of_def unat_drop_bit page_of_def div_mult2_eq [symmetric])

lemma table_index_eq: "table_index_of va = page_of va mod 1024"
proof -
  have "drop_bit 12 va AND 0x3FF = take_bit 10 (drop_bit 12 va)"
    by (simp add: take_bit_eq_mask mask_eq_exp_minus_1)
  then show ?thesis
    by (simp add: table_index_of_def page_of_def unat_drop_bit take_bit_eq_mod unat_mod)
qed

lemma page_split: "v div 1024 = w div 1024 \<Longrightarrow> v mod 1024 = w mod 1024 \<Longrightarrow> v = (w :: nat)"
  by (metis div_mult_mod_eq)

lemma unat_entry_table: "unat (push_bit 12 (ucast (f :: 20 word) :: u32)) = unat f * 4096"
proof -
  have "unat f < 2 ^ 20" using unsigned_less [of f] by simp
  moreover have "unat (ucast f :: u32) = unat f"
    using calculation by (simp add: unsigned_ucast_eq take_bit_nat_eq_self)
  ultimately show ?thesis
    by (simp add: push_bit_eq_mult) (subst unat_mult_no_wrap, auto)
qed

lemma entry_table_inj: "entry_table d = entry_table e \<longleftrightarrow> frame d = frame e"
proof
  assume "entry_table d = entry_table e"
  then have "unat (entry_table d) = unat (entry_table e)" by simp
  then show "frame d = frame e" by (simp add: entry_table_def unat_entry_table word_unat_eq_iff)
qed (simp add: entry_table_def)

lemma frame_of_page_addr: "k < 1048576 \<Longrightarrow> ucast (drop_bit 12 (page_addr k)) = (of_nat k :: 20 word)"
proof -
  assume k: "k < 1048576"
  have "unat (drop_bit 12 (page_addr k)) = k" using k by (simp add: unat_drop_bit unat_page_addr)
  then have "drop_bit 12 (page_addr k) = of_nat k" by (metis of_nat_unat ucast_id)
  then show ?thesis by (simp add: word_unat_eq_iff unsigned_ucast_eq unsigned_of_nat take_bit_take_bit)
qed

section \<open>The map the tables encode\<close>

definition vmap :: "'a paging_sys_scheme \<Rightarrow> nat \<Rightarrow> 20 word option" where
  "vmap s v =
     (let d = page_mem s (kernel_page_directory s) (v div 1024)
      in if present d = 0 then None
         else let e = page_mem s (entry_table d) (v mod 1024)
              in if present e = 0 then None else Some (frame e))"

text \<open>
  No page table shares its frame with the directory or with another table.
\<close>

definition paging_wf :: "'a paging_sys_scheme \<Rightarrow> bool" where
  "paging_wf s \<longleftrightarrow>
     (\<forall>i < 1024. present (page_mem s (kernel_page_directory s) i) \<noteq> 0 \<longrightarrow>
        entry_table (page_mem s (kernel_page_directory s) i) \<noteq> kernel_page_directory s) \<and>
     (\<forall>i < 1024. \<forall>j < 1024. i \<noteq> j \<longrightarrow>
        present (page_mem s (kernel_page_directory s) i) \<noteq> 0 \<longrightarrow>
        present (page_mem s (kernel_page_directory s) j) \<noteq> 0 \<longrightarrow>
        entry_table (page_mem s (kernel_page_directory s) i) \<noteq>
          entry_table (page_mem s (kernel_page_directory s) j))"

definition has_table :: "'a paging_sys_scheme \<Rightarrow> nat \<Rightarrow> bool" where
  "has_table s v \<longleftrightarrow> present (page_mem s (kernel_page_directory s) (v div 1024)) \<noteq> 0"

lemma upd_entry_frames [simp]:
  "kernel_page_directory (upd_entry b i f s) = kernel_page_directory s"
  "pmm (upd_entry b i f s) = pmm s"
  by (simp_all add: upd_entry_def)

lemma page_mem_upd: "page_mem (upd_entry b i f s) c j =
    (if c = b \<and> j = i then f (page_mem s b i) else page_mem s c j)"
  by (simp add: upd_entry_def)

lemma emit_paging [simp]:
  "page_mem (emit ev s) = page_mem s" "kernel_page_directory (emit ev s) = kernel_page_directory s"
  "page_mem (con_puts str col s) = page_mem s"
  "kernel_page_directory (con_puts str col s) = kernel_page_directory s"
  by (simp_all add: emit_def con_puts_def)

text \<open>A store into the table of page \<open>w\<close> leaves the directory and the entries of the other pages alone.\<close>

lemma table_store:
  fixes s :: "'a paging_sys_scheme" and f :: "page_entry_t \<Rightarrow> page_entry_t"
  assumes wf: "paging_wf s" and tab: "has_table s w" and w: "w < 1048576"
  defines "t \<equiv> upd_entry (entry_table (page_mem s (kernel_page_directory s) (w div 1024))) (w mod 1024) f s"
  shows "page_mem t (kernel_page_directory s) = page_mem s (kernel_page_directory s)"
    and "paging_wf t" and "has_table t v \<longleftrightarrow> has_table s v"
    and "v < 1048576 \<Longrightarrow> vmap t v =
      (if v = w then let e = f (page_mem s (entry_table (page_mem s (kernel_page_directory s) (w div 1024))) (w mod 1024))
                     in if present e = 0 then None else Some (frame e)
       else vmap s v)"
proof -
  let ?dir = "kernel_page_directory s"
  have wi: "w div 1024 < 1024" using w by (simp add: less_mult_imp_div_less)
  have ne: "entry_table (page_mem s ?dir (w div 1024)) \<noteq> ?dir"
    using wf tab wi by (simp add: paging_wf_def has_table_def)
  show dir: "page_mem t ?dir = page_mem s ?dir"
    using ne by (simp add: t_def upd_entry_def)
  have kd: "kernel_page_directory t = ?dir" by (simp add: t_def)
  show "paging_wf t" using wf unfolding paging_wf_def kd dir .
  show "has_table t v \<longleftrightarrow> has_table s v" unfolding has_table_def kd dir ..
  assume v: "v < 1048576"
  then have vi: "v div 1024 < 1024" by (simp add: less_mult_imp_div_less)
  show "vmap t v =
      (if v = w then let e = f (page_mem s (entry_table (page_mem s ?dir (w div 1024))) (w mod 1024))
                     in if present e = 0 then None else Some (frame e)
       else vmap s v)"
  proof (cases "v = w")
    case True
    then show ?thesis using tab unfolding vmap_def kd dir by (simp add: t_def page_mem_upd has_table_def Let_def)
  next
    case False
    have "entry_table (page_mem s ?dir (v div 1024)) \<noteq> entry_table (page_mem s ?dir (w div 1024)) \<or>
        v mod 1024 \<noteq> w mod 1024" if "present (page_mem s ?dir (v div 1024)) \<noteq> 0"
    proof (cases "v div 1024 = w div 1024")
      case True
      then show ?thesis using False page_split by blast
    next
      case False
      then show ?thesis using wf that tab vi wi unfolding paging_wf_def has_table_def by blast
    qed
    then show ?thesis using False unfolding vmap_def kd dir
      by (cases "present (page_mem s ?dir (v div 1024)) = 0") (auto simp add: t_def page_mem_upd Let_def)
  qed
qed

lemma page_get_physical_eq:
  "page_get_physical va s =
     (case vmap s (page_of va) of None \<Rightarrow> 0 | Some f \<Rightarrow> push_bit 12 (ucast f) + (va AND 0xFFF))"
  by (simp add: page_get_physical_def vmap_def dir_index_eq table_index_eq Let_def)

section \<open>The contract of an address space\<close>

abbreviation frame_of :: "u32 \<Rightarrow> 20 word" where
  "frame_of pa \<equiv> ucast (drop_bit 12 pa)"

locale virtual_memory =
  fixes map_page :: "u32 \<Rightarrow> u32 \<Rightarrow> 's \<Rightarrow> 's"
    and unmap_page :: "u32 \<Rightarrow> 's \<Rightarrow> 's"
    and lookup :: "'s \<Rightarrow> nat \<Rightarrow> 20 word option"
    and inv :: "'s \<Rightarrow> bool"
    and backed :: "'s \<Rightarrow> nat \<Rightarrow> bool"
  assumes map_keeps: "inv s \<Longrightarrow> backed s (page_of va) \<Longrightarrow>
        inv (map_page va pa s) \<and> (backed (map_page va pa s) v \<longleftrightarrow> backed s v)"
    and map_lookup: "inv s \<Longrightarrow> backed s (page_of va) \<Longrightarrow> v < 1048576 \<Longrightarrow>
        lookup (map_page va pa s) v = (if v = page_of va then Some (frame_of pa) else lookup s v)"
    and unmap_keeps: "inv s \<Longrightarrow> backed s (page_of va) \<Longrightarrow>
        inv (unmap_page va s) \<and> (backed (unmap_page va s) v \<longleftrightarrow> backed s v)"
    and unmap_lookup: "inv s \<Longrightarrow> backed s (page_of va) \<Longrightarrow> v < 1048576 \<Longrightarrow>
        lookup (unmap_page va s) v = (if v = page_of va then None else lookup s v)"
    and not_backed: "\<not> backed s v \<Longrightarrow> lookup s v = None"
begin

lemma map_then_unmap:
  assumes "inv s" and "backed s (page_of va)" and "lookup s (page_of va) = None" and "v < 1048576"
  shows "lookup (unmap_page va (map_page va pa s)) v = lookup s v"
  using assms map_keeps [OF assms(1,2)] by (simp add: unmap_lookup map_lookup)

lemma map_many:
  assumes "inv s" and "\<forall>(va, pa) \<in> set ms. backed s (page_of va)" and "v < 1048576"
  shows "inv (fold (\<lambda>(va, pa). map_page va pa) ms s) \<and>
    lookup (fold (\<lambda>(va, pa). map_page va pa) ms s) v =
      (case map_of (rev (map (\<lambda>(va, pa). (page_of va, frame_of pa)) ms)) v of
         None \<Rightarrow> lookup s v | Some f \<Rightarrow> Some f)"
  using assms
proof (induction ms arbitrary: s)
  case (Cons m ms)
  obtain va pa where m: "m = (va, pa)" by force
  have b: "backed s (page_of va)" using Cons.prems(2) m by simp
  have "\<forall>(va, pa) \<in> set ms. backed (map_page (fst m) (snd m) s) (page_of va)"
    using Cons.prems(2) map_keeps [OF Cons.prems(1) b] m by auto
  with Cons.IH [of "map_page va pa s"] Cons.prems m map_keeps [OF Cons.prems(1) b]
    map_lookup [OF Cons.prems(1) b Cons.prems(3)]
  show ?case by (auto simp add: map_add_def map_of_append split: option.split)
qed simp

end

text \<open>What \<open>page_map\<close> and \<open>page_unmap\<close> do to the map, for every combination of flags.\<close>

lemma page_map_effect:
  fixes s :: "'a paging_sys_scheme" and pa flags :: u32
  assumes wf: "paging_wf s" and tab: "has_table s (page_of va)"
  defines "t \<equiv> page_map va pa flags s"
  shows "paging_wf t" and "has_table t v \<longleftrightarrow> has_table s v"
    and "v < 1048576 \<Longrightarrow> vmap t v =
      (if v = page_of va then if flags AND PAGE_PRESENT \<noteq> 0 then Some (frame_of pa) else None else vmap s v)"
proof -
  let ?f = "\<lambda>e. e\<lparr>present := (if flags AND PAGE_PRESENT \<noteq> 0 then 1 else 0),
      rw := (if flags AND PAGE_WRITE \<noteq> 0 then 1 else 0),
      user := (if flags AND PAGE_USER \<noteq> 0 then 1 else 0), frame := frame_of pa\<rparr>"
  let ?t = "upd_entry (entry_table (page_mem s (kernel_page_directory s) (page_of va div 1024)))
      (page_of va mod 1024) ?f s"
  have t: "t = emit (Invlpg va) ?t"
    using tab by (simp add: t_def page_map_def Let_def dir_index_eq table_index_eq has_table_def)
  note st = table_store [OF wf tab page_of_less, where f = ?f]
  show "paging_wf t" using st(2) by (simp add: t paging_wf_def)
  show "has_table t v \<longleftrightarrow> has_table s v" using st(3) by (simp add: t has_table_def)
  assume "v < 1048576"
  moreover have "vmap t v = vmap ?t v" by (simp add: t vmap_def Let_def)
  ultimately show "vmap t v =
      (if v = page_of va then if flags AND PAGE_PRESENT \<noteq> 0 then Some (frame_of pa) else None else vmap s v)"
    using st(4) by (simp add: Let_def)
qed

lemma page_unmap_effect:
  fixes s :: "'a paging_sys_scheme"
  assumes wf: "paging_wf s" and tab: "has_table s (page_of va)"
  defines "t \<equiv> page_unmap va s"
  shows "paging_wf t" and "has_table t v \<longleftrightarrow> has_table s v"
    and "v < 1048576 \<Longrightarrow> vmap t v = (if v = page_of va then None else vmap s v)"
proof -
  let ?t = "upd_entry (entry_table (page_mem s (kernel_page_directory s) (page_of va div 1024)))
      (page_of va mod 1024) (\<lambda>e. e\<lparr>present := 0\<rparr>) s"
  have t: "t = emit (Invlpg va) ?t"
    using tab by (simp add: t_def page_unmap_def Let_def dir_index_eq table_index_eq has_table_def)
  note st = table_store [OF wf tab page_of_less, where f = "\<lambda>e. e\<lparr>present := 0\<rparr>"]
  show "paging_wf t" using st(2) by (simp add: t paging_wf_def)
  show "has_table t v \<longleftrightarrow> has_table s v" using st(3) by (simp add: t has_table_def)
  assume "v < 1048576"
  moreover have "vmap t v = vmap ?t v" by (simp add: t vmap_def Let_def)
  ultimately show "vmap t v = (if v = page_of va then None else vmap s v)"
    using st(4) by (simp add: Let_def)
qed

interpretation kernel_space: virtual_memory
  "\<lambda>va pa. page_map va pa (PAGE_PRESENT OR PAGE_WRITE)" page_unmap vmap paging_wf has_table
proof
  fix s :: "'a paging_sys_scheme" and va pa :: u32 and v :: nat
  assume a: "paging_wf s" "has_table s (page_of va)"
  show "paging_wf (page_map va pa (PAGE_PRESENT OR PAGE_WRITE) s) \<and>
      (has_table (page_map va pa (PAGE_PRESENT OR PAGE_WRITE) s) v \<longleftrightarrow> has_table s v)"
    using page_map_effect [OF a] by blast
  show "paging_wf (page_unmap va s) \<and> (has_table (page_unmap va s) v \<longleftrightarrow> has_table s v)"
    using page_unmap_effect [OF a] by blast
  assume "v < 1048576"
  then show "vmap (page_map va pa (PAGE_PRESENT OR PAGE_WRITE) s) v =
      (if v = page_of va then Some (frame_of pa) else vmap s v)"
    and "vmap (page_unmap va s) v = (if v = page_of va then None else vmap s v)"
    using page_map_effect(3) [OF a, of v pa "PAGE_PRESENT OR PAGE_WRITE"] page_unmap_effect(3) [OF a, of v] by simp_all
next
  fix s :: "'a paging_sys_scheme" and v :: nat
  assume "\<not> has_table s v"
  then show "vmap s v = None" by (simp add: vmap_def has_table_def)
qed

section \<open>Initialisation\<close>

lemma clear_entries_mem:
  "page_mem (clear_entries b n s) c j = (if c = b \<and> j < n then clear_entry else page_mem s c j)"
  by (induction n) (auto simp add: clear_entries_def page_mem_upd less_Suc_eq)

lemma clear_entries_frames:
  "kernel_page_directory (clear_entries b n s) = kernel_page_directory s" "pmm (clear_entries b n s) = pmm s"
  "io_trace (clear_entries b n s) = io_trace s"
  by (induction n) (simp_all add: clear_entries_def upd_entry_def)

lemma identity_entries_mem:
  "page_mem (identity_entries b d n s) c j =
     (if c = b \<and> j < n
      then (page_mem s b j)\<lparr>present := 1, rw := 1, user := 1, frame := frame_of (page_addr (d * 1024 + j))\<rparr>
      else page_mem s c j)"
  by (induction n arbitrary: c j) (auto simp add: identity_entries_def page_mem_upd less_Suc_eq page_addr_def)

lemma identity_entries_frames:
  "kernel_page_directory (identity_entries b d n s) = kernel_page_directory s"
  "io_trace (identity_entries b d n s) = io_trace s"
  by (induction n) (simp_all add: identity_entries_def upd_entry_def)

lemma entry_table_frame_of:
  assumes "a mod PAGE_SIZE = 0"
  shows "push_bit 12 (ucast (frame_of a) :: u32) = a"
proof -
  have "frame_of a = (of_nat (page_of a) :: 20 word)"
    using frame_of_page_addr [of "page_of a"] page_addr_page_of [OF assms] by simp
  then have "unat (frame_of a) = page_of a" by (simp add: unat_of_nat take_bit_nat_eq_self)
  then have "unat (push_bit 12 (ucast (frame_of a) :: u32)) = page_of a * 4096" by (simp only: unat_entry_table)
  also have "\<dots> = unat a" using unat_page_addr [of "page_of a"] page_addr_page_of [OF assms] by simp
  finally show ?thesis by (simp only: word_unat_eq_iff)
qed

text \<open>A directory whose only table maps the first 1024 pages to themselves.\<close>

definition mapped_entry :: "20 word \<Rightarrow> page_entry_t" where
  "mapped_entry f = clear_entry\<lparr>present := 1, rw := 1, user := 1, frame := f\<rparr>"

lemma mapped_entry_fields [simp]:
  "present (mapped_entry f) = 1" "frame (mapped_entry f) = f" "present clear_entry = 0"
  by (simp_all add: mapped_entry_def clear_entry_def)

lemma identity_tables:
  assumes dir: "kernel_page_directory t \<noteq> tab" and tab: "tab mod PAGE_SIZE = 0"
    and d: "\<And>j. j < 1024 \<Longrightarrow> page_mem t (kernel_page_directory t) j =
              (if j = 0 then mapped_entry (frame_of tab) else clear_entry)"
    and e: "\<And>j. j < 1024 \<Longrightarrow> page_mem t tab j = mapped_entry (frame_of (page_addr j))"
  shows "paging_wf t" and "v < 1048576 \<Longrightarrow> vmap t v = (if v < 1024 then Some (of_nat v) else None)"
proof -
  have et: "entry_table (mapped_entry (frame_of tab)) = tab"
    using entry_table_frame_of [OF tab] by (simp add: entry_table_def)
  show "paging_wf t" unfolding paging_wf_def using dir by (simp add: d et)
  assume "v < 1048576"
  then have "v div 1024 < 1024" by (simp add: less_mult_imp_div_less)
  moreover have "v div 1024 = 0 \<longleftrightarrow> v < 1024" by (simp add: div_eq_0_iff)
  ultimately show "vmap t v = (if v < 1024 then Some (of_nat v) else None)"
    by (simp add: vmap_def d et e frame_of_page_addr Let_def)
qed

text \<open>The two frames \<open>paging_init\<close> takes.\<close>

lemma two_frames:
  fixes s :: "'a pmm_sys_scheme"
  assumes inv: "pmm_inv (pmm s)" and z: "0 \<notin> free_frames (pmm s)" and two: "2 \<le> card (free_frames (pmm s))"
  shows "\<exists>m1 m2. m1 \<noteq> m2 \<and> 0 < m1 \<and> 0 < m2 \<and> m1 < 1048576 \<and> m2 < 1048576 \<and>
    pmm_alloc_page s = (page_addr m1, s\<lparr>pmm := take_page m1 (pmm s)\<rparr>) \<and>
    (\<forall>r :: 'a pmm_sys_scheme. pmm r = take_page m1 (pmm s) \<longrightarrow>
       pmm_alloc_page r = (page_addr m2, r\<lparr>pmm := take_page m2 (take_page m1 (pmm s))\<rparr>))"
proof -
  let ?F = "free_frames (pmm s)"
  have ne: "?F \<noteq> {}" using two by auto
  define m1 where "m1 = Min ?F"
  have m1: "m1 \<in> ?F" using ne by (simp add: m1_def)
  let ?p = "take_page m1 (pmm s)"
  have p: "pmm_inv ?p" "free_frames ?p = ?F - {m1}" using take_page_inv [OF inv m1] by simp_all
  have "card (?F - {m1}) = card ?F - 1" using m1 by simp
  then have "0 < card (?F - {m1})" using two by linarith
  then have ne2: "free_frames ?p \<noteq> {}" unfolding p(2) by (metis card.empty less_irrefl)
  define m2 where "m2 = Min (free_frames ?p)"
  have m2: "m2 \<in> ?F - {m1}" using Min_in [OF finite_free_frames ne2] p(2) by (simp add: m2_def)
  have f1: "pmm_alloc_page s = (page_addr m1, s\<lparr>pmm := ?p\<rparr>)"
    using pmm_alloc_page_least [OF inv ne] by (simp add: m1_def)
  have f2: "pmm_alloc_page r = (page_addr m2, r\<lparr>pmm := take_page m2 ?p\<rparr>)" if "pmm r = ?p" for r :: "'a pmm_sys_scheme"
    using pmm_alloc_page_least [of r] p(1) ne2 that by (simp add: m2_def)
  have f3: "0 < m1" "0 < m2" using m1 m2 z by (metis gr0I, metis DiffD1 gr0I)
  have f4: "m1 < 1048576" "m2 < 1048576" using m1 m2 free_frames_less [OF inv] by auto
  have f5: "m1 \<noteq> m2" using m2 by auto
  show ?thesis by (rule exI [where x = m1], rule exI [where x = m2]) (use f1 f2 f3 f4 f5 in simp)
qed

lemma paging_init_spec:
  fixes s :: "'a paging_sys_scheme" and hw :: hardware
  assumes inv: "pmm_inv (pmm s)" and z: "0 \<notin> free_frames (pmm s)"
    and two: "2 \<le> card (free_frames (pmm s))"
  defines "t \<equiv> paging_init hw s"
  shows "paging_wf t" and "v < 1048576 \<Longrightarrow> vmap t v = (if v < 1024 then Some (of_nat v) else None)"
    and "io_trace t = MovCr0 (hw_cr0 hw (MovCr3 (kernel_page_directory t) # io_trace s) OR 0x80000000)
      # MovCr3 (kernel_page_directory t) # io_trace s"
proof -
  let ?s = "con_puts (lit ''[PAGING] Initializing...'' @ [ch_nl]) 0x1A s"
  have pmm: "pmm ?s = pmm s" by (simp add: con_puts_def)
  obtain m1 m2 where m: "m1 \<noteq> m2" "0 < m1" "0 < m2" "m1 < 1048576" "m2 < 1048576"
    and al1: "pmm_alloc_page ?s = (page_addr m1, ?s\<lparr>pmm := take_page m1 (pmm s)\<rparr>)"
    and al2: "\<And>r :: 'a paging_sys_scheme. pmm r = take_page m1 (pmm s) \<Longrightarrow>
       pmm_alloc_page r = (page_addr m2, r\<lparr>pmm := take_page m2 (take_page m1 (pmm s))\<rparr>)"
    using two_frames [of ?s] inv z two unfolding pmm by blast
  let ?dir = "page_addr m1" and ?tab = "page_addr m2"
  have ne: "?dir \<noteq> ?tab" using page_addr_inj m by blast
  have nz: "?dir \<noteq> 0" "?tab \<noteq> 0" using m page_addr_eq_0 by auto
  define r1 where "r1 = clear_entries ?dir 1024 (?s\<lparr>pmm := take_page m1 (pmm s), kernel_page_directory := ?dir\<rparr>)"
  have r1: "pmm r1 = take_page m1 (pmm s)" by (simp add: r1_def clear_entries_frames)
  define r2 where "r2 = r1\<lparr>pmm := take_page m2 (take_page m1 (pmm s)), kernel_page_tables := (kernel_page_tables r1)(0 := ?tab)\<rparr>"
  define r3 where "r3 = upd_entry ?dir 0 (\<lambda>e. e\<lparr>present := 1, rw := 1, user := 1, frame := frame_of ?tab\<rparr>)
      (identity_entries ?tab 0 1024 (clear_entries ?tab 1024 r2))"
  define r4 where "r4 = emit (MovCr3 ?dir) r3"
  have t: "t = con_puts (lit ''[PAGING] Enabled (identity-mapped first 4 MB)'' @ [ch_nl]) 0x1A
      (emit (MovCr0 (hw_cr0 hw (io_trace r4) OR 0x80000000)) r4)"
    unfolding t_def paging_init_def Let_def al1 prod.case
    using nz al2 [OF r1] by (simp add: r1_def r2_def r3_def r4_def)
  have kd: "kernel_page_directory t = ?dir" "io_trace r3 = io_trace s"
    by (simp_all add: t r4_def r3_def r2_def r1_def emit_def con_puts_def upd_entry_def
        clear_entries_frames identity_entries_frames)
  show "io_trace t = MovCr0 (hw_cr0 hw (MovCr3 (kernel_page_directory t) # io_trace s) OR 0x80000000)
      # MovCr3 (kernel_page_directory t) # io_trace s"
    unfolding kd by (simp add: t r4_def emit_def con_puts_def kd)
  have mem: "page_mem t = page_mem r3" by (simp add: t r4_def)
  have dir: "page_mem t ?dir j = (if j = 0 then mapped_entry (frame_of ?tab) else clear_entry)" if "j < 1024" for j
    using that ne unfolding mem
    by (simp add: r3_def r2_def r1_def page_mem_upd identity_entries_mem clear_entries_mem mapped_entry_def)
  have tab: "page_mem t ?tab j = mapped_entry (frame_of (page_addr j))" if "j < 1024" for j
    using that ne unfolding mem
    by (simp add: r3_def page_mem_upd identity_entries_mem clear_entries_mem mapped_entry_def)
  note id = identity_tables [of t ?tab, unfolded kd(1), OF ne page_addr_aligned [OF m(5)] dir tab]
  show "paging_wf t" by (rule id)
  show "vmap t v = (if v < 1024 then Some (of_nat v) else None)" if "v < 1048576" using id(2) that by simp
qed

section \<open>Properties\<close>

definition blank_hw :: hardware where
  "blank_hw = \<lparr>hw_inb = (\<lambda>_ _. 0), hw_inw = (\<lambda>_ _. 0), hw_cr0 = (\<lambda>_. 0x11), hw_cr2 = (\<lambda>_. 0),
     hw_cpuid = (\<lambda>_. (0, 0, 0, 0))\<rparr>"

definition demo_paging :: paging_sys where
  "demo_paging = heap_sys.extend (demo_heap 1 1)
     (paging_sys.fields 0 (\<lambda>_. 0) (\<lambda>_ _. clear_entry))"

lemma demo_paging_pmm [simp]: "pmm demo_paging = pmm (demo_heap 1 1)"
  by (simp add: demo_paging_def heap_sys.extend_def paging_sys.fields_def)

lemma demo_paging_ready:
  "pmm_inv (pmm demo_paging)" "0 \<notin> free_frames (pmm demo_paging)"
  "2 \<le> card (free_frames (pmm demo_paging))"
  using demo_heap_owns demo_heap_free by (simp_all add: heap_owns_def)

text \<open>With two free frames, \<open>paging_init\<close> builds a table hierarchy without aliasing that maps the first
  1024 pages to themselves and nothing else, and loads the directory before it turns paging on.\<close>

theorem paging_init_identity:
  assumes "pmm_inv (pmm s)" and "0 \<notin> free_frames (pmm s)" and "2 \<le> card (free_frames (pmm s))"
  shows "paging_wf (paging_init hw s) \<and>
    (\<forall>a. vmap (paging_init hw s) (page_of a) = (if page_of a < 1024 then Some (frame_of a) else None)) \<and>
    events_since s (paging_init hw s) =
      [MovCr3 (kernel_page_directory (paging_init hw s)),
       MovCr0 (hw_cr0 hw (MovCr3 (kernel_page_directory (paging_init hw s)) # io_trace s) OR 0x80000000)]"
proof -
  note spec = paging_init_spec [OF assms, where hw = hw]
  have "of_nat (page_of a) = frame_of a" for a
    by (simp add: word_unat_eq_iff unsigned_ucast_eq unat_drop_bit unat_of_nat page_of_def take_bit_eq_mod)
  then have "vmap (paging_init hw s) (page_of a) = (if page_of a < 1024 then Some (frame_of a) else None)" for a
    using spec(2) [of "page_of a"] by simp
  moreover have "events_since s (paging_init hw s) =
      [MovCr3 (kernel_page_directory (paging_init hw s)),
       MovCr0 (hw_cr0 hw (MovCr3 (kernel_page_directory (paging_init hw s)) # io_trace s) OR 0x80000000)]"
    by (rule events_since_append) (subst spec(3), simp)
  ultimately show ?thesis using spec(1) by blast
qed

theorem paging_init_identity_witness:
  "paging_wf (paging_init blank_hw demo_paging) \<and>
    (\<forall>a. vmap (paging_init blank_hw demo_paging) (page_of a) = (if page_of a < 1024 then Some (frame_of a) else None)) \<and>
    events_since demo_paging (paging_init blank_hw demo_paging) =
      [MovCr3 (kernel_page_directory (paging_init blank_hw demo_paging)),
       MovCr0 (hw_cr0 blank_hw (MovCr3 (kernel_page_directory (paging_init blank_hw demo_paging)) # io_trace demo_paging) OR 0x80000000)]"
  by (rule paging_init_identity [OF demo_paging_ready])

text \<open>C19. Where the page table exists, \<open>page_map\<close> makes \<open>page_get_physical\<close> answer the mapped frame with the
  offset kept for every address of that page, and no other page changes; \<open>page_unmap\<close> takes it away.\<close>

theorem page_map_get_physical:
  assumes "paging_wf s" and "has_table s (page_of va)" and "flags AND PAGE_PRESENT \<noteq> 0"
  shows "page_get_physical a (page_map va pa flags s) =
      (if page_of a = page_of va then push_bit 12 (ucast (frame_of pa)) + (a AND 0xFFF)
       else page_get_physical a s) \<and>
    page_get_physical a (page_unmap va (page_map va pa flags s)) =
      (if page_of a = page_of va then 0 else page_get_physical a s)"
proof -
  note m = page_map_effect [OF assms(1,2), where pa = pa and flags = flags]
  have "has_table (page_map va pa flags s) (page_of va)" using m(2) assms(2) by simp
  note u = page_unmap_effect(3) [OF m(1) this, OF page_of_less, of a]
  show ?thesis using m(3) [OF page_of_less, of a] u assms(3) by (simp add: page_get_physical_eq)
qed

lemma demo_paging_table:
  "paging_wf (paging_init blank_hw demo_paging)" "has_table (paging_init blank_hw demo_paging) (page_of 0x3000)"
proof -
  note spec = paging_init_spec [OF demo_paging_ready, where hw = blank_hw]
  show "paging_wf (paging_init blank_hw demo_paging)" by (rule spec)
  have "page_of 0x3000 = 3" by (simp add: page_of_def)
  then show "has_table (paging_init blank_hw demo_paging) (page_of 0x3000)"
    using spec(2) [of 3] kernel_space.not_backed [of "paging_init blank_hw demo_paging" 3] by force
qed

theorem page_map_get_physical_witness:
  "page_get_physical 0x3123 (page_map 0x3000 0x5000 3 (paging_init blank_hw demo_paging)) =
      (if page_of 0x3123 = page_of 0x3000 then push_bit 12 (ucast (frame_of 0x5000)) + (0x3123 AND 0xFFF)
       else page_get_physical 0x3123 (paging_init blank_hw demo_paging)) \<and>
    page_get_physical 0x3123 (page_unmap 0x3000 (page_map 0x3000 0x5000 3 (paging_init blank_hw demo_paging))) =
      (if page_of 0x3123 = page_of 0x3000 then 0 else page_get_physical 0x3123 (paging_init blank_hw demo_paging))"
  by (rule page_map_get_physical [OF demo_paging_table]) simp

end
