(* ===== verification/Descriptors.thy ===== *)
theory Descriptors
  imports Paging
begin

text \<open>
  The descriptor tables, \<^verbatim>\<open>src/kernel/gdt.c\<close> and \<^verbatim>\<open>src/kernel/idt.c\<close>, with the two loaders of
  \<^verbatim>\<open>src/arch/i386/gdt_flush.s\<close>.

  Descriptors keep the packed fields of the structs; \<open>gdt_base\<close>, \<open>gdt_limit\<close>, \<open>gate_offset\<close>, \<dots> put the
  pieces together again the way the processor does, and the theorems say what it then sees.  Addresses that
  the linker chooses (of the static tables and of the assembly stubs) are the record \<open>image\<close>, an argument
  of the operations that take such an address.
\<close>

section \<open>State\<close>

record image =
  addr_gdt_ptr :: u32
  addr_gdt_entries :: u32
  addr_tss_entry :: u32
  addr_idt_ptr :: u32
  addr_idt_entries :: u32
  addr_isr :: "nat \<Rightarrow> u32"
  addr_syscall_stub :: u32
  addr_irq0_stub :: u32
  addr_irq1_stub :: u32
  addr_process_wrapper :: u32

record gdt_entry_t =
  limit_low :: u16
  base_low :: u16
  base_middle :: u8
  access :: u8
  granularity :: u8
  base_high :: u8

record table_ptr_t =
  ptr_limit :: u16
  ptr_base :: u32

record tss_entry_t =
  tss_prev :: u32
  tss_esp0 :: u32
  tss_ss0 :: u32
  tss_esp1 :: u32
  tss_ss1 :: u32
  tss_esp2 :: u32
  tss_ss2 :: u32
  tss_cr3 :: u32
  tss_eip :: u32
  tss_eflags :: u32
  tss_eax :: u32
  tss_ecx :: u32
  tss_edx :: u32
  tss_ebx :: u32
  tss_esp :: u32
  tss_ebp :: u32
  tss_esi :: u32
  tss_edi :: u32
  tss_es :: u32
  tss_cs :: u32
  tss_ss :: u32
  tss_ds :: u32
  tss_fs :: u32
  tss_gs :: u32
  tss_ldt :: u32
  tss_trap :: u16
  tss_iomap_base :: u16

record idt_entry_t =
  idt_base_low :: u16
  idt_sel :: u16
  idt_always0 :: u8
  idt_flags :: u8
  idt_base_high :: u16

record desc_sys = paging_sys +
  gdt_entries :: "nat \<Rightarrow> gdt_entry_t"
  gdt_ptr :: table_ptr_t
  tss_entry :: tss_entry_t
  idt_entries :: "u8 \<Rightarrow> idt_entry_t"
  idt_ptr :: table_ptr_t

abbreviation KERNEL_CS :: u16 where "KERNEL_CS \<equiv> 0x08"
abbreviation KERNEL_DS :: u16 where "KERNEL_DS \<equiv> 0x10"
abbreviation USER_CS :: u16 where "USER_CS \<equiv> 0x1B"
abbreviation USER_DS :: u16 where "USER_DS \<equiv> 0x23"
abbreviation TSS_SEG :: u16 where "TSS_SEG \<equiv> 0x2B"

section \<open>The global descriptor table\<close>

definition gdt_set_gate ::
    "nat \<Rightarrow> u32 \<Rightarrow> u32 \<Rightarrow> u8 \<Rightarrow> u8 \<Rightarrow> 'a desc_sys_scheme \<Rightarrow> 'a desc_sys_scheme" where
  "gdt_set_gate num base limit acc gran s =
     s\<lparr>gdt_entries := (gdt_entries s)(num := (gdt_entries s num)
         \<lparr>base_low := ucast (base AND 0xFFFF),
          base_middle := ucast (drop_bit 16 base AND 0xFF),
          base_high := ucast (drop_bit 24 base AND 0xFF),
          limit_low := ucast (limit AND 0xFFFF),
          granularity := ucast (drop_bit 16 limit AND 0x0F) OR (gran AND 0xF0),
          access := acc\<rparr>)\<rparr>"

definition zero_tss :: tss_entry_t where
  "zero_tss = \<lparr>tss_prev = 0, tss_esp0 = 0, tss_ss0 = 0, tss_esp1 = 0, tss_ss1 = 0, tss_esp2 = 0,
     tss_ss2 = 0, tss_cr3 = 0, tss_eip = 0, tss_eflags = 0, tss_eax = 0, tss_ecx = 0, tss_edx = 0,
     tss_ebx = 0, tss_esp = 0, tss_ebp = 0, tss_esi = 0, tss_edi = 0, tss_es = 0, tss_cs = 0,
     tss_ss = 0, tss_ds = 0, tss_fs = 0, tss_gs = 0, tss_ldt = 0, tss_trap = 0, tss_iomap_base = 0\<rparr>"

text \<open>\<open>sizeof(tss_entry)\<close>: 25 words and two half-words, packed.\<close>

abbreviation SIZEOF_TSS :: u32 where "SIZEOF_TSS \<equiv> 104"

definition write_tss :: "image \<Rightarrow> nat \<Rightarrow> u16 \<Rightarrow> u32 \<Rightarrow> 'a desc_sys_scheme \<Rightarrow> 'a desc_sys_scheme" where
  "write_tss img num ss0 esp0 s =
     (let base = addr_tss_entry img;
          limit = SIZEOF_TSS - 1;
          s = gdt_set_gate num base limit 0xE9 0x00 s
      in s\<lparr>tss_entry := zero_tss
            \<lparr>tss_ss0 := ucast ss0, tss_esp0 := esp0, tss_cs := ucast (KERNEL_CS OR 3),
             tss_ss := ucast (KERNEL_DS OR 3), tss_ds := ucast (KERNEL_DS OR 3),
             tss_es := ucast (KERNEL_DS OR 3), tss_fs := ucast (KERNEL_DS OR 3),
             tss_gs := ucast (KERNEL_DS OR 3)\<rparr>\<rparr>)"

definition tss_set_kernel_stack :: "u32 \<Rightarrow> 'a desc_sys_scheme \<Rightarrow> 'a desc_sys_scheme" where
  "tss_set_kernel_stack kstack s = s\<lparr>tss_entry := (tss_entry s)\<lparr>tss_esp0 := kstack\<rparr>\<rparr>"

definition gdt_flush :: "u32 \<Rightarrow> 'a machine_scheme \<Rightarrow> 'a machine_scheme" where
  "gdt_flush ptr s = emit (Lgdt ptr) s"

definition tss_flush :: "'a machine_scheme \<Rightarrow> 'a machine_scheme" where
  "tss_flush s = emit (Ltr TSS_SEG) s"

definition gdt_init :: "image \<Rightarrow> 'a desc_sys_scheme \<Rightarrow> 'a desc_sys_scheme" where
  "gdt_init img s =
     (let s = s\<lparr>gdt_ptr := \<lparr>ptr_limit = 8 * 6 - 1, ptr_base = addr_gdt_entries img\<rparr>\<rparr>;
          s = gdt_set_gate 0 0 0 0 0 s;
          s = gdt_set_gate 1 0 0xFFFFFFFF 0x9A 0xCF s;
          s = gdt_set_gate 2 0 0xFFFFFFFF 0x92 0xCF s;
          s = gdt_set_gate 3 0 0xFFFFFFFF 0xFA 0xCF s;
          s = gdt_set_gate 4 0 0xFFFFFFFF 0xF2 0xCF s;
          s = write_tss img 5 KERNEL_DS 0x0 s;
          s = gdt_flush (addr_gdt_ptr img) s
      in tss_flush s)"

section \<open>The interrupt descriptor table\<close>

definition idt_set_gate ::
    "u8 \<Rightarrow> u32 \<Rightarrow> u16 \<Rightarrow> u8 \<Rightarrow> 'a desc_sys_scheme \<Rightarrow> 'a desc_sys_scheme" where
  "idt_set_gate num base sel flags s =
     s\<lparr>idt_entries := (idt_entries s)(num := (idt_entries s num)
         \<lparr>idt_base_low := ucast (base AND 0xFFFF),
          idt_base_high := ucast (drop_bit 16 base AND 0xFFFF),
          idt_sel := sel, idt_always0 := 0, idt_flags := flags\<rparr>)\<rparr>"

definition idt_load :: "u32 \<Rightarrow> 'a machine_scheme \<Rightarrow> 'a machine_scheme" where
  "idt_load ptr s = emit (Lidt ptr) s"

text \<open>The 32 calls for the exception vectors, one per stub \<open>isr0\<close> \<dots> \<open>isr31\<close>, in order.\<close>

definition idt_init :: "image \<Rightarrow> 'a desc_sys_scheme \<Rightarrow> 'a desc_sys_scheme" where
  "idt_init img s =
     (let s = s\<lparr>idt_ptr := \<lparr>ptr_limit = 8 * 256 - 1, ptr_base = addr_idt_entries img\<rparr>\<rparr>;
          s = fold (\<lambda>i. idt_set_gate (of_nat i) 0 0 0) [0..<256] s;
          s = fold (\<lambda>i. idt_set_gate (of_nat i) (addr_isr img i) 0x08 0x8E) [0..<32] s;
          s = idt_set_gate 0x80 (addr_syscall_stub img) 0x08 0xEE s
      in idt_load (addr_idt_ptr img) s)"

section \<open>What the processor reads\<close>

definition gdt_base :: "gdt_entry_t \<Rightarrow> u32" where
  "gdt_base e = ucast (base_low e) OR push_bit 16 (ucast (base_middle e)) OR push_bit 24 (ucast (base_high e))"

definition gdt_limit :: "gdt_entry_t \<Rightarrow> u32" where
  "gdt_limit e = ucast (limit_low e) OR push_bit 16 (ucast (granularity e AND 0x0F))"

definition gdt_dpl :: "gdt_entry_t \<Rightarrow> u8" where
  "gdt_dpl e = drop_bit 5 (access e) AND 3"

definition gdt_present :: "gdt_entry_t \<Rightarrow> bool" where
  "gdt_present e \<longleftrightarrow> bit (access e) 7"

definition gate_offset :: "idt_entry_t \<Rightarrow> u32" where
  "gate_offset g = ucast (idt_base_low g) OR push_bit 16 (ucast (idt_base_high g))"

definition gate_present :: "idt_entry_t \<Rightarrow> bool" where
  "gate_present g \<longleftrightarrow> bit (idt_flags g) 7"

definition gate_dpl :: "idt_entry_t \<Rightarrow> u8" where
  "gate_dpl g = drop_bit 5 (idt_flags g) AND 3"

text \<open>A vector that \<open>int n\<close> in user mode may enter.\<close>

definition user_callable :: "'a desc_sys_scheme \<Rightarrow> u8 \<Rightarrow> bool" where
  "user_callable s n \<longleftrightarrow> gate_present (idt_entries s n) \<and> gate_dpl (idt_entries s n) = 3"

lemma u32_bytes:
  fixes w :: u32
  shows "ucast (ucast (w AND 0xFFFF) :: u16) OR push_bit 16 (ucast (ucast (drop_bit 16 w AND 0xFF) :: u8))
      OR push_bit 24 (ucast (ucast (drop_bit 24 w AND 0xFF) :: u8)) = w"
    and "ucast (ucast (w AND 0xFFFF) :: u16) OR push_bit 16 (ucast (ucast (drop_bit 16 w AND 0xFFFF) :: u16)) = w"
proof -
  have m: "(0xFFFF :: u32) = mask 16" "(0xFF :: u32) = mask 8" by (simp_all add: mask_eq_exp_minus_1)
  show "ucast (ucast (w AND 0xFFFF) :: u16) OR push_bit 16 (ucast (ucast (drop_bit 16 w AND 0xFF) :: u8))
      OR push_bit 24 (ucast (ucast (drop_bit 24 w AND 0xFF) :: u8)) = w"
    unfolding m
  proof (rule bit_word_eqI)
    fix n assume "n < LENGTH(32)"
    then show "bit (ucast (ucast (w AND mask 16) :: u16) OR push_bit 16 (ucast (ucast (drop_bit 16 w AND mask 8) :: u8))
      OR push_bit 24 (ucast (ucast (drop_bit 24 w AND mask 8) :: u8)) :: u32) n = bit w n"
      by (cases "n < 24") (auto simp add: bit_simps)
  qed
  show "ucast (ucast (w AND 0xFFFF) :: u16) OR push_bit 16 (ucast (ucast (drop_bit 16 w AND 0xFFFF) :: u16)) = w"
    unfolding m by (rule bit_word_eqI) (auto simp add: bit_simps)
qed

lemma gdt_set_gate_decodes:
  "gdt_base (gdt_entries (gdt_set_gate n b l a g s) n) = b"
  "access (gdt_entries (gdt_set_gate n b l a g s) n) = a"
  "gdt_limit (gdt_entries (gdt_set_gate n b l a g s) n) = l AND 0xFFFFF"
  "granularity (gdt_entries (gdt_set_gate n b l a g s) n) AND 0xF0 = g AND 0xF0"
proof -
  let ?e = "gdt_entries (gdt_set_gate n b l a g s) n"
  show "gdt_base ?e = b" by (simp add: gdt_base_def gdt_set_gate_def u32_bytes)
  show "access ?e = a" by (simp add: gdt_set_gate_def)
  have m: "(0xFFFF :: u32) = mask 16" "(0x0F :: u32) = mask 4" "(0x0F :: u8) = mask 4"
      "(0xF0 :: u8) = push_bit 4 (mask 4)" "(0xFFFFF :: u32) = mask 20"
    by (simp_all add: mask_eq_exp_minus_1)
  show "gdt_limit ?e = l AND 0xFFFFF"
    unfolding gdt_limit_def gdt_set_gate_def m by (rule bit_word_eqI) (auto simp add: bit_simps)
  show "granularity ?e AND 0xF0 = g AND 0xF0"
    unfolding gdt_set_gate_def m by (rule bit_word_eqI) (auto simp add: bit_simps)
qed

lemma gdt_set_gate_other: "k \<noteq> n \<Longrightarrow> gdt_entries (gdt_set_gate n b l a g s) k = gdt_entries s k"
  by (simp add: gdt_set_gate_def)

lemma idt_set_gate_entry:
  "idt_entries (idt_set_gate n b sel f s) k =
     (if k = n then \<lparr>idt_base_low = ucast (b AND 0xFFFF), idt_sel = sel, idt_always0 = 0, idt_flags = f,
        idt_base_high = ucast (drop_bit 16 b AND 0xFFFF)\<rparr> else idt_entries s k)"
  by (simp add: idt_set_gate_def)

lemma gate_offset_set: "gate_offset (idt_entries (idt_set_gate n b sel f s) n) = b"
  by (simp add: idt_set_gate_entry gate_offset_def u32_bytes)

text \<open>Setting the gates of the vectors below \<open>n\<close>.\<close>

lemma fold_set_gates:
  assumes "n \<le> 256"
  shows "idt_entries (fold (\<lambda>i. idt_set_gate (of_nat i) (h i) sel f) [0..<n] s) k =
    (if unat k < n then \<lparr>idt_base_low = ucast (h (unat k) AND 0xFFFF), idt_sel = sel, idt_always0 = 0,
        idt_flags = f, idt_base_high = ucast (drop_bit 16 (h (unat k)) AND 0xFFFF)\<rparr>
     else idt_entries s k)"
  using assms
proof (induction n)
  case (Suc n)
  then have "unat (of_nat n :: u8) = n" by (simp add: unat_of_nat)
  then have "k = of_nat n \<longleftrightarrow> unat k = n" by (auto simp add: word_unat_eq_iff)
  then show ?case using Suc by (auto simp add: idt_set_gate_entry less_Suc_eq)
qed simp

lemma idt_init_entries:
  "idt_entries (idt_init img s) k =
     (let g = (\<lambda>b f sel. \<lparr>idt_base_low = ucast (b AND 0xFFFF), idt_sel = sel, idt_always0 = 0, idt_flags = f,
                idt_base_high = ucast (drop_bit 16 b AND 0xFFFF)\<rparr>)
      in if k = 0x80 then g (addr_syscall_stub img) 0xEE 0x08
         else if unat k < 32 then g (addr_isr img (unat k)) 0x8E 0x08
         else g 0 0 0)"
proof -
  have "unat k < 256" using unsigned_less [of k] by simp
  then show ?thesis
    unfolding idt_init_def Let_def idt_load_def
    by (simp add: emit_def idt_set_gate_entry fold_set_gates fold_set_gates [where h = "\<lambda>_. 0"]
          del: upt_rec_numeral)
qed

section \<open>Properties\<close>

text \<open>After \<open>gdt_init\<close> the selectors the kernel uses are what their names say: flat 4 GB code and data
  segments at privilege 0 and 3, and a task state segment of 104 bytes at the address of the TSS, whose ring-0
  stack segment is the kernel's; the table is loaded before the task register.\<close>

theorem gdt_init_segments:
  "let t = gdt_init img s; seg = (\<lambda>sel :: u16. gdt_entries t (unat (drop_bit 3 sel)));
       flat = (\<lambda>e. gdt_base e = 0 \<and> gdt_limit e = 0xFFFFF \<and> granularity e AND 0xF0 = 0xC0 \<and> gdt_present e)
   in flat (seg KERNEL_CS) \<and> flat (seg KERNEL_DS) \<and> flat (seg USER_CS) \<and> flat (seg USER_DS) \<and>
      map (\<lambda>sel. access (seg sel)) [KERNEL_CS, KERNEL_DS, USER_CS, USER_DS] = [0x9A, 0x92, 0xFA, 0xF2] \<and>
      map (\<lambda>sel. gdt_dpl (seg sel)) [KERNEL_CS, KERNEL_DS, USER_CS, USER_DS] = [0, 0, 3, 3] \<and>
      gdt_base (seg TSS_SEG) = addr_tss_entry img \<and> gdt_limit (seg TSS_SEG) = 103 \<and> gdt_present (seg TSS_SEG) \<and>
      tss_ss0 (tss_entry t) = 0x10 \<and>
      events_since s t = [Lgdt (addr_gdt_ptr img), Ltr TSS_SEG]"
proof -
  have idx: "unat (drop_bit 3 KERNEL_CS) = 1" "unat (drop_bit 3 KERNEL_DS) = 2"
      "unat (drop_bit 3 USER_CS) = 3" "unat (drop_bit 3 USER_DS) = 4" "unat (drop_bit 3 TSS_SEG) = 5"
    by (simp_all add: drop_bit_eq_div)
  have bits: "bit (0x9A :: u8) 7" "bit (0x92 :: u8) 7" "bit (0xFA :: u8) 7" "bit (0xF2 :: u8) 7" "bit (0xE9 :: u8) 7"
    by (simp_all add: bit_numeral_rec)
  have ev: "events_since s (gdt_init img s) = [Lgdt (addr_gdt_ptr img), Ltr TSS_SEG]"
    by (rule events_since_append)
       (simp add: gdt_init_def Let_def write_tss_def gdt_flush_def tss_flush_def emit_def gdt_set_gate_def)
  have entries: "gdt_entries (gdt_init img s) = gdt_entries (write_tss img 5 KERNEL_DS 0x0
      (gdt_set_gate 4 0 0xFFFFFFFF 0xF2 0xCF (gdt_set_gate 3 0 0xFFFFFFFF 0xFA 0xCF
      (gdt_set_gate 2 0 0xFFFFFFFF 0x92 0xCF (gdt_set_gate 1 0 0xFFFFFFFF 0x9A 0xCF
      (gdt_set_gate 0 0 0 0 0 (s\<lparr>gdt_ptr := \<lparr>ptr_limit = 8 * 6 - 1, ptr_base = addr_gdt_entries img\<rparr>\<rparr>)))))))"
    and ss0: "tss_ss0 (tss_entry (gdt_init img s)) = 0x10"
    by (simp_all add: gdt_init_def Let_def gdt_flush_def tss_flush_def emit_def write_tss_def)
  show ?thesis
    unfolding Let_def idx entries
    by (simp add: write_tss_def Let_def gdt_set_gate_other gdt_set_gate_decodes gdt_dpl_def gdt_present_def
          bits ev ss0 drop_bit_eq_div)
qed

text \<open>After \<open>idt_init\<close> every processor exception has a present gate to its own stub in the kernel code
  segment, the system-call vector enters \<open>syscall_stub\<close>, no other vector is present, and \<open>int 0x80\<close> is the
  only one a user program may raise.\<close>

theorem idt_init_gates:
  "(\<forall>n. gate_present (idt_entries (idt_init img s) n) \<longleftrightarrow> unat n < 32 \<or> n = 0x80) \<and>
   (\<forall>n. user_callable (idt_init img s) n \<longleftrightarrow> n = 0x80) \<and>
   map (\<lambda>n. gate_offset (idt_entries (idt_init img s) (of_nat n))) [0..<32] = map (addr_isr img) [0..<32] \<and>
   gate_offset (idt_entries (idt_init img s) 0x80) = addr_syscall_stub img \<and>
   idt_sel ` idt_entries (idt_init img s) ` {n. gate_present (idt_entries (idt_init img s) n)} = {KERNEL_CS}"
proof -
  have bits: "bit (0x8E :: u8) 7" "bit (0xEE :: u8) 7" by (simp_all add: bit_numeral_rec)
  have dpl: "drop_bit 5 (0x8E :: u8) AND 3 = 0" "drop_bit 5 (0xEE :: u8) AND 3 = 3"
    by (simp_all add: drop_bit_eq_div)
  have pres: "gate_present (idt_entries (idt_init img s) n) \<longleftrightarrow> unat n < 32 \<or> n = 0x80" for n
    by (simp add: idt_init_entries gate_present_def Let_def bits)
  have off: "gate_offset (idt_entries (idt_init img s) (of_nat n)) = addr_isr img n" if "n < 32" for n
  proof -
    have "unat (of_nat n :: u8) = n" using that by (simp add: unat_of_nat)
    moreover from this have "(of_nat n :: u8) \<noteq> 0x80" using that by auto
    ultimately show ?thesis using that by (simp add: idt_init_entries gate_offset_def Let_def u32_bytes)
  qed
  have "idt_sel (idt_entries (idt_init img s) n) = KERNEL_CS" if "unat n < 32 \<or> n = 0x80" for n
    using that by (auto simp add: idt_init_entries Let_def)
  then have "idt_sel ` idt_entries (idt_init img s) ` {n. unat n < 32 \<or> n = 0x80} = {KERNEL_CS}"
    by (auto simp add: image_iff intro: exI [of _ "0x80"])
  moreover have "user_callable (idt_init img s) n \<longleftrightarrow> n = 0x80" for n
    by (simp add: user_callable_def gate_dpl_def pres) (auto simp add: idt_init_entries Let_def dpl)
  ultimately show ?thesis
    using off by (simp add: pres del: upt_rec_numeral) (simp add: idt_init_entries gate_offset_def Let_def u32_bytes)
qed

end
