(* ===== verification/Scheduler.thy ===== *)
theory Scheduler
  imports Descriptors
begin

text \<open>
  The round-robin scheduler, \<^verbatim>\<open>src/kernel/scheduler.c\<close>, with the context-switch frames of
  \<^verbatim>\<open>src/arch/i386/interrupts.s\<close>.

  Process control blocks live in heap blocks: \<open>processes\<close> is the array of pointers, \<open>proc_mem\<close> the block found
  at an address, \<open>stack_mem\<close> the word at a stack address.  A block's name is kept as the characters before its
  terminating NUL (the copy loop keeps 31 of them).  The stack pointer that the assembly stubs pass to
  \<open>scheduler_yield_impl\<close> is an argument \<open>esp\<close>.

  \<open>process_wait\<close> blocks and then yields until its target has terminated; between two iterations other
  processes run, so it is split into its entry and one iteration of the loop.
\<close>

section \<open>State\<close>

datatype process_state_t = PROCESS_RUNNING | PROCESS_READY | PROCESS_BLOCKED | PROCESS_TERMINATED

record cpu_context_t =
  ctx_edi :: u32
  ctx_esi :: u32
  ctx_ebp :: u32
  ctx_esp :: u32
  ctx_ebx :: u32
  ctx_edx :: u32
  ctx_ecx :: u32
  ctx_eax :: u32
  ctx_eflags :: u32
  ctx_eip :: u32

record process_t =
  pid :: u32
  p_state :: process_state_t
  exit_code :: u32
  waiting_for_pid :: u32
  cpu_context :: cpu_context_t
  entry_point :: u32
  p_name :: bytes

record sched_sys = desc_sys +
  processes :: "nat \<Rightarrow> u32"
  proc_mem :: "u32 \<Rightarrow> process_t"
  stack_mem :: "u32 \<Rightarrow> u32"
  current_process :: u32
  process_count :: u32
  next_pid :: u32
  schedule_needed :: u8
  tick_counter :: u32

abbreviation MAX_PROCESSES :: u32 where "MAX_PROCESSES \<equiv> 16"
abbreviation KERNEL_STACK_SIZE :: u32 where "KERNEL_STACK_SIZE \<equiv> 4096"

text \<open>\<open>sizeof(process_t)\<close> and the offset of its \<open>kernel_stack\<close>: four words, ten context words, 4096 bytes of
  stack, a pointer and 32 bytes of name.\<close>

abbreviation SIZEOF_PROCESS :: u32 where "SIZEOF_PROCESS \<equiv> 4188"

definition stack_addr :: "u32 \<Rightarrow> u32 \<Rightarrow> u32" where
  "stack_addr p offset = p + 56 + offset"

definition upd_proc :: "u32 \<Rightarrow> (process_t \<Rightarrow> process_t) \<Rightarrow> 'a sched_sys_scheme \<Rightarrow> 'a sched_sys_scheme" where
  "upd_proc p f s = s\<lparr>proc_mem := (proc_mem s)(p := f (proc_mem s p))\<rparr>"

text \<open>The process in slot \<open>i\<close> of the table.\<close>

definition slot :: "'a sched_sys_scheme \<Rightarrow> nat \<Rightarrow> process_t" where
  "slot s i = proc_mem s (processes s i)"

definition copy_name :: "bytes \<Rightarrow> bytes" where
  "copy_name name = take 31 name"

section \<open>Creation\<close>

definition scheduler_init :: "'a sched_sys_scheme \<Rightarrow> 'a sched_sys_scheme" where
  "scheduler_init s =
     (let s = s\<lparr>processes := fold (\<lambda>i ps. ps(i := 0)) [0..<16] (processes s)\<rparr>;
          s = s\<lparr>current_process := 0, process_count := 0, next_pid := 1\<rparr>
      in con_puts (lit ''[SCHEDULER] Initialized'' @ [ch_nl]) 0x1A s)"

definition proc_setup ::
    "process_state_t \<Rightarrow> u32 \<Rightarrow> bytes \<Rightarrow> u32 \<Rightarrow> 'a sched_sys_scheme \<Rightarrow> 'a sched_sys_scheme" where
  "proc_setup st entry name proc s =
     (let s = upd_proc proc (\<lambda>q. q\<lparr>pid := next_pid s\<rparr>) s;
          s = s\<lparr>next_pid := next_pid s + 1\<rparr>
      in upd_proc proc (\<lambda>q. q\<lparr>p_state := st, entry_point := entry, exit_code := 0, waiting_for_pid := 0,
                              p_name := copy_name name\<rparr>) s)"

definition proc_context :: "u32 \<Rightarrow> u32 \<Rightarrow> 'a sched_sys_scheme \<Rightarrow> 'a sched_sys_scheme" where
  "proc_context proc esp s =
     upd_proc proc (\<lambda>q. q\<lparr>cpu_context := (cpu_context q)\<lparr>ctx_esp := esp, ctx_eflags := 0x202\<rparr>\<rparr>) s"

definition scheduler_convert_current_process ::
    "bytes \<Rightarrow> 'a sched_sys_scheme \<Rightarrow> 'a sched_sys_scheme option" where
  "scheduler_convert_current_process name s =
     (if process_count s \<ge> MAX_PROCESSES
      then Some (con_puts (lit ''[SCHEDULER] Max processes reached'' @ [ch_nl]) 0x1C s)
      else case kmalloc SIZEOF_PROCESS s of
             None \<Rightarrow> None
           | Some (proc, s) \<Rightarrow>
               if proc = 0
               then Some (con_puts (lit ''[SCHEDULER] Failed to allocate process'' @ [ch_nl]) 0x1C s)
               else
                 (let s = proc_setup PROCESS_RUNNING 0 name proc s;
                      s = proc_context proc 0 s;
                      s = s\<lparr>processes := (processes s)(0 := proc), process_count := 1, current_process := 0\<rparr>;
                      s = con_puts (lit ''[SCHEDULER] Converted current process: '') 0x1A s;
                      s = con_puts (p_name (proc_mem s proc)) 0x1A s
                  in Some (con_putc ch_nl 0x1A s)))"

text \<open>\<^verbatim>\<open>stack_top--; *stack_top = v;\<close>\<close>

definition push32 :: "u32 \<Rightarrow> u32 \<times> (u32 \<Rightarrow> u32) \<Rightarrow> u32 \<times> (u32 \<Rightarrow> u32)" where
  "push32 v tm = (fst tm - 4, (snd tm)(fst tm - 4 := v))"

definition push_all :: "u32 list \<Rightarrow> u32 \<times> (u32 \<Rightarrow> u32) \<Rightarrow> u32 \<times> (u32 \<Rightarrow> u32)" where
  "push_all vs tm = fold push32 vs tm"

text \<open>The words pushed for a new kernel process and for a new user process, in the order of the pushes.\<close>

definition kernel_frame :: "image \<Rightarrow> u32 list" where
  "kernel_frame img =
     [0x202, ucast KERNEL_CS, addr_process_wrapper img, 0, 0, 0, 0, 0, 0, 0, 0,
      ucast KERNEL_DS, ucast KERNEL_DS, ucast KERNEL_DS, ucast KERNEL_DS]"

definition user_frame :: "u32 \<Rightarrow> u32 \<Rightarrow> u32 list" where
  "user_frame proc entry =
     [ucast USER_DS, stack_addr proc (KERNEL_STACK_SIZE - 256), 0x202, ucast USER_CS, entry,
      0, 0, 0, 0, 0, 0, 0, 0,
      ucast USER_DS, ucast USER_DS, ucast USER_DS, ucast USER_DS]"

definition add_common ::
    "(u32 \<Rightarrow> u32 list) \<Rightarrow> bytes \<Rightarrow> u8 \<Rightarrow> u32 \<Rightarrow> bytes \<Rightarrow> 'a sched_sys_scheme \<Rightarrow> 'a sched_sys_scheme option" where
  "add_common words msg color entry name s =
     (if process_count s \<ge> MAX_PROCESSES
      then Some (con_puts (lit ''[SCHEDULER] Max processes reached'' @ [ch_nl]) 0x1C s)
      else case kmalloc SIZEOF_PROCESS s of
             None \<Rightarrow> None
           | Some (proc, s) \<Rightarrow>
               if proc = 0
               then Some (con_puts (lit ''[SCHEDULER] Failed to allocate process'' @ [ch_nl]) 0x1C s)
               else
                 (let s = proc_setup PROCESS_READY entry name proc s;
                      (stack_top, mem) = push_all (words proc) (stack_addr proc KERNEL_STACK_SIZE, stack_mem s);
                      s = s\<lparr>stack_mem := mem\<rparr>;
                      s = proc_context proc stack_top s;
                      s = s\<lparr>processes := (processes s)(unat (process_count s) := proc),
                            process_count := process_count s + 1\<rparr>;
                      s = con_puts msg color s;
                      s = con_puts (p_name (proc_mem s proc)) color s
                  in Some (con_putc ch_nl color s)))"

definition scheduler_add_process ::
    "image \<Rightarrow> u32 \<Rightarrow> bytes \<Rightarrow> 'a sched_sys_scheme \<Rightarrow> 'a sched_sys_scheme option" where
  "scheduler_add_process img entry name s =
     add_common (\<lambda>_. kernel_frame img) (lit ''[SCHEDULER] Added Kernel Process (Ring 0): '') 0x1A entry name s"

definition scheduler_add_user_process ::
    "u32 \<Rightarrow> bytes \<Rightarrow> 'a sched_sys_scheme \<Rightarrow> 'a sched_sys_scheme option" where
  "scheduler_add_user_process entry name s =
     add_common (\<lambda>proc. user_frame proc entry) (lit ''[SCHEDULER] Added User Process (Ring 3): '')
       COLOR_LIGHT_GREEN entry name s"

section \<open>Switching\<close>

definition is_ready :: "'a sched_sys_scheme \<Rightarrow> u32 \<Rightarrow> bool" where
  "is_ready s i \<longleftrightarrow> processes s (unat i) \<noteq> 0 \<and> p_state (slot s (unat i)) = PROCESS_READY"

text \<open>The scan loop; \<open>None\<close> when all \<open>process_count\<close> slots were looked at in vain.\<close>

primrec scan_ready :: "(u32 \<Rightarrow> bool) \<Rightarrow> u32 \<Rightarrow> nat \<Rightarrow> u32 \<Rightarrow> u32 option" where
  "scan_ready P n 0 i = None"
| "scan_ready P n (Suc k) i = (if P i then Some i else scan_ready P n k ((i + 1) mod n))"

text \<open>The second half of \<open>scheduler_yield_impl\<close>: the switch to slot \<open>next\<close>.\<close>

definition switch_to :: "u32 \<Rightarrow> u32 \<Rightarrow> 'a sched_sys_scheme \<Rightarrow> u32 \<times> 'a sched_sys_scheme" where
  "switch_to current_esp next s =
     (let current_proc = processes s (unat (current_process s));
          next_proc = processes s (unat next);
          s = (if current_proc \<noteq> 0 \<and> p_state (proc_mem s current_proc) = PROCESS_RUNNING
               then upd_proc current_proc
                      (\<lambda>q. q\<lparr>p_state := PROCESS_READY,
                             cpu_context := (cpu_context q)\<lparr>ctx_esp := current_esp\<rparr>\<rparr>) s
               else if current_proc \<noteq> 0
               then upd_proc current_proc
                      (\<lambda>q. q\<lparr>cpu_context := (cpu_context q)\<lparr>ctx_esp := current_esp\<rparr>\<rparr>) s
               else s);
          s = s\<lparr>current_process := next\<rparr>;
          s = upd_proc next_proc (\<lambda>q. q\<lparr>p_state := PROCESS_RUNNING\<rparr>) s;
          s = tss_set_kernel_stack (stack_addr next_proc KERNEL_STACK_SIZE) s
      in (ctx_esp (cpu_context (proc_mem s next_proc)), s))"

definition scheduler_yield_impl :: "u32 \<Rightarrow> 'a sched_sys_scheme \<Rightarrow> u32 \<times> 'a sched_sys_scheme" where
  "scheduler_yield_impl current_esp s =
     (if process_count s \<le> 1 then (0, s)
      else
        case scan_ready (is_ready s) (process_count s) (unat (process_count s))
               ((current_process s + 1) mod process_count s) of
          None \<Rightarrow> (0, s)
        | Some next \<Rightarrow>
            if next = current_process s then (0, s) else switch_to current_esp next s)"

definition scheduler_yield :: "u32 \<Rightarrow> 'a sched_sys_scheme \<Rightarrow> 'a sched_sys_scheme" where
  "scheduler_yield esp s =
     (if process_count s \<le> 1 then s else snd (scheduler_yield_impl esp s))"

definition scheduler_tick :: "'a sched_sys_scheme \<Rightarrow> 'a sched_sys_scheme" where
  "scheduler_tick s =
     (if process_count s \<le> 1 then s
      else
        (let s = s\<lparr>tick_counter := tick_counter s + 1\<rparr>
         in if tick_counter s \<ge> 10 then s\<lparr>tick_counter := 0, schedule_needed := 1\<rparr> else s))"

definition scheduler_get_current_pid :: "'a sched_sys_scheme \<Rightarrow> u32" where
  "scheduler_get_current_pid s =
     (if process_count s = 0 then 0 else pid (slot s (unat (current_process s))))"

definition scheduler_get_current_process :: "'a sched_sys_scheme \<Rightarrow> u32" where
  "scheduler_get_current_process s =
     (if process_count s = 0 then 0 else processes s (unat (current_process s)))"

definition scheduler_check :: "u32 \<Rightarrow> 'a sched_sys_scheme \<Rightarrow> 'a sched_sys_scheme" where
  "scheduler_check esp s =
     (if schedule_needed s \<noteq> 0 then scheduler_yield esp (s\<lparr>schedule_needed := 0\<rparr>) else s)"

section \<open>Termination and waiting\<close>

definition wake_one :: "u32 \<Rightarrow> nat \<Rightarrow> 'a sched_sys_scheme \<Rightarrow> 'a sched_sys_scheme" where
  "wake_one target i s =
     (if processes s i \<noteq> 0 \<and> p_state (slot s i) = PROCESS_BLOCKED \<and> waiting_for_pid (slot s i) = target
      then upd_proc (processes s i) (\<lambda>q. q\<lparr>p_state := PROCESS_READY, waiting_for_pid := 0\<rparr>) s
      else s)"

definition wake_waiters :: "u32 \<Rightarrow> 'a sched_sys_scheme \<Rightarrow> 'a sched_sys_scheme" where
  "wake_waiters target s = fold (wake_one target) [0..<unat (process_count s)] s"

definition process_exit :: "u32 \<Rightarrow> u32 \<Rightarrow> 'a sched_sys_scheme \<Rightarrow> 'a sched_sys_scheme" where
  "process_exit code esp s =
     (let current = processes s (unat (current_process s))
      in if current = 0 then s
         else
           (let s = upd_proc current (\<lambda>q. q\<lparr>p_state := PROCESS_TERMINATED, exit_code := code\<rparr>) s;
                q = proc_mem s current;
                s = con_puts (lit ''[SCHEDULER] Process '' @ [ch_quote]) 0x1E s;
                s = con_puts (p_name q) 0x1E s;
                s = con_puts (ch_quote # lit '' (PID '') 0x1E s;
                s = con_puts (dec_text (sint (pid q))) 0x1E s;
                s = con_puts (lit '') exited with code '') 0x1E s;
                s = (if sint code < 0 then con_putc 0x2D 0x1E s else s);
                s = con_puts (dec_text0 (sint (if sint code < 0 then - code else code))) 0x1E s;
                s = con_puts [ch_nl] 0x1E s;
                s = wake_waiters (pid q) s
            in scheduler_yield esp s))"

text \<open>The loop of \<open>process_kill\<close> over the slots; the Boolean is whether a process was killed.\<close>

fun kill_scan :: "u32 \<Rightarrow> u32 \<Rightarrow> nat list \<Rightarrow> 'a sched_sys_scheme \<Rightarrow> bool \<times> 'a sched_sys_scheme" where
  "kill_scan target esp [] s = (False, s)"
| "kill_scan target esp (i # is) s =
     (if processes s i \<noteq> 0 \<and> pid (slot s i) = target \<and> p_state (slot s i) \<noteq> PROCESS_TERMINATED
      then
        (let s = upd_proc (processes s i) (\<lambda>q. q\<lparr>p_state := PROCESS_TERMINATED, exit_code := - 1\<rparr>) s;
             s = con_puts (lit ''[SCHEDULER] Process '' @ [ch_quote]) 0x1C s;
             s = con_puts (p_name (slot s i)) 0x1C s;
             s = con_puts (ch_quote # lit '' killed.'' @ [ch_nl]) 0x1C s;
             s = wake_waiters target s
         in (True, if i = unat (current_process s) then scheduler_yield esp s else s))
      else kill_scan target esp is s)"

definition process_kill :: "u32 \<Rightarrow> u32 \<Rightarrow> 'a sched_sys_scheme \<Rightarrow> u32 \<times> 'a sched_sys_scheme" where
  "process_kill target esp s =
     (let (killed, s) = kill_scan target esp [0..<unat (process_count s)] s in (if killed then 0 else - 1, s))"

datatype wait_result = Wait_Return u32 | Wait_Loop u32

definition find_process :: "u32 \<Rightarrow> 'a sched_sys_scheme \<Rightarrow> u32" where
  "find_process target s =
     (case List.find (\<lambda>i. processes s i \<noteq> 0 \<and> pid (slot s i) = target) [0..<unat (process_count s)] of
        None \<Rightarrow> 0 | Some i \<Rightarrow> processes s i)"

definition process_wait :: "u32 \<Rightarrow> 'a sched_sys_scheme \<Rightarrow> wait_result \<times> 'a sched_sys_scheme" where
  "process_wait target_pid s =
     (let current = processes s (unat (current_process s))
      in if current = 0 then (Wait_Return (- 1), s)
         else
           (let target = find_process target_pid s
            in if target = 0 then (Wait_Return (- 1), s)
               else if p_state (proc_mem s target) = PROCESS_TERMINATED
               then (Wait_Return (exit_code (proc_mem s target)), s)
               else (Wait_Loop target,
                     upd_proc current (\<lambda>q. q\<lparr>p_state := PROCESS_BLOCKED, waiting_for_pid := target_pid\<rparr>) s)))"

definition process_wait_loop :: "u32 \<Rightarrow> u32 \<Rightarrow> 'a sched_sys_scheme \<Rightarrow> wait_result \<times> 'a sched_sys_scheme" where
  "process_wait_loop target esp s =
     (if p_state (proc_mem s target) \<noteq> PROCESS_TERMINATED then (Wait_Loop target, scheduler_yield esp s)
      else (Wait_Return (exit_code (proc_mem s target)), s))"

text \<open>The trampoline of kernel processes; \<open>call\<close> is what running the entry point does.\<close>

definition process_wrapper ::
    "(u32 \<Rightarrow> 'a sched_sys_scheme \<Rightarrow> 'a sched_sys_scheme) \<Rightarrow> u32 \<Rightarrow> 'a sched_sys_scheme \<Rightarrow> 'a sched_sys_scheme" where
  "process_wrapper call esp s =
     (let current = processes s (unat (current_process s));
          s = (if current \<noteq> 0 \<and> entry_point (proc_mem s current) \<noteq> 0
               then call (entry_point (proc_mem s current)) s else s)
      in process_exit 0 esp s)"

definition scheduler_terminate_all :: "'a sched_sys_scheme \<Rightarrow> 'a sched_sys_scheme" where
  "scheduler_terminate_all s =
     (let curr_pid = scheduler_get_current_pid s
      in fold (\<lambda>i s. if processes s i \<noteq> 0 \<and> pid (slot s i) \<noteq> curr_pid
                     then upd_proc (processes s i) (\<lambda>q. q\<lparr>p_state := PROCESS_TERMINATED\<rparr>) s else s)
           [0..<unat (process_count s)] s)"

end
