(* ===== verification/Scheduler_Inv.thy ===== *)
theory Scheduler_Inv
  imports Scheduler
begin

text \<open>
  Invariants of the process table and the behaviour of the round robin.

  \<open>sched_tab\<close> is the structural part: the used prefix of the table holds distinct non-null pointers, slot \<open>i\<close>
  has process identifier \<open>i + 1\<close>, and the current slot is in use.  \<open>sched_states\<close> is the scheduling part: at
  most the current process is RUNNING, and a BLOCKED process waits for one that has not terminated yet, so no
  wake-up is lost.  Every operation keeps both.
\<close>

section \<open>The invariant\<close>

abbreviation slots_used :: "'a sched_sys_scheme \<Rightarrow> nat" where
  "slots_used s \<equiv> unat (process_count s)"

definition sched_tab :: "'a sched_sys_scheme \<Rightarrow> bool" where
  "sched_tab s \<longleftrightarrow>
     slots_used s \<le> 16 \<and> (0 < slots_used s \<longrightarrow> unat (current_process s) < slots_used s) \<and>
     (\<forall>i < slots_used s. processes s i \<noteq> 0 \<and> pid (slot s i) = of_nat (Suc i)) \<and>
     inj_on (processes s) {..<slots_used s} \<and> next_pid s = process_count s + 1"

definition state_of :: "'a sched_sys_scheme \<Rightarrow> nat \<Rightarrow> process_state_t" where
  "state_of s i = p_state (slot s i)"

definition sched_states :: "'a sched_sys_scheme \<Rightarrow> bool" where
  "sched_states s \<longleftrightarrow>
     (\<forall>i < slots_used s. state_of s i = PROCESS_RUNNING \<longrightarrow> i = unat (current_process s)) \<and>
     (\<forall>i < slots_used s. state_of s i = PROCESS_BLOCKED \<longrightarrow>
        (\<exists>j < slots_used s. waiting_for_pid (slot s i) = pid (slot s j) \<and> state_of s j \<noteq> PROCESS_TERMINATED))"

definition sched_wf :: "'a sched_sys_scheme \<Rightarrow> bool" where
  "sched_wf s \<longleftrightarrow> sched_tab s \<and> sched_states s"

text \<open>Two states that agree on the table and on the identity of every process.\<close>

definition same_table :: "'a sched_sys_scheme \<Rightarrow> 'a sched_sys_scheme \<Rightarrow> bool" where
  "same_table s t \<longleftrightarrow> processes t = processes s \<and> process_count t = process_count s \<and>
     next_pid t = next_pid s \<and> (\<forall>i < slots_used s. pid (slot t i) = pid (slot s i))"

lemma same_table_refl [simp]: "same_table s s"
  by (simp add: same_table_def)

lemma same_table_trans: "same_table s t \<Longrightarrow> same_table t u \<Longrightarrow> same_table s u"
  by (simp add: same_table_def)

lemma same_table_tab:
  "same_table s t \<Longrightarrow> sched_tab s \<Longrightarrow> (0 < slots_used s \<Longrightarrow> unat (current_process t) < slots_used s) \<Longrightarrow> sched_tab t"
  by (simp add: same_table_def sched_tab_def)

lemma slot_upd_proc:
  assumes "sched_tab s" and "i < slots_used s" and "j < slots_used s"
  shows "slot (upd_proc (processes s i) f s) j = (if j = i then f (slot s i) else slot s j)"
proof -
  have "processes s j = processes s i \<longleftrightarrow> j = i"
    using assms by (auto simp add: sched_tab_def inj_on_eq_iff)
  then show ?thesis by (simp add: slot_def upd_proc_def)
qed

lemma upd_proc_frames [simp]:
  "processes (upd_proc p f s) = processes s" "process_count (upd_proc p f s) = process_count s"
  "next_pid (upd_proc p f s) = next_pid s" "current_process (upd_proc p f s) = current_process s"
  "tss_entry (upd_proc p f s) = tss_entry s" "tick_counter (upd_proc p f s) = tick_counter s"
  "schedule_needed (upd_proc p f s) = schedule_needed s" "stack_mem (upd_proc p f s) = stack_mem s"
  by (simp_all add: upd_proc_def)

lemma same_table_upd:
  assumes "sched_tab s" and "i < slots_used s" and "\<And>q. pid (f q) = pid q"
  shows "same_table s (upd_proc (processes s i) f s)"
  using assms slot_upd_proc [OF assms(1,2)] by (simp add: same_table_def)

lemma con_sched [simp]:
  "slot (con_puts str col s) i = slot s i" "processes (con_puts str col s) = processes s"
  "process_count (con_puts str col s) = process_count s" "next_pid (con_puts str col s) = next_pid s"
  "current_process (con_puts str col s) = current_process s" "proc_mem (con_puts str col s) = proc_mem s"
  "slot (con_putc c col s) i = slot s i" "processes (con_putc c col s) = processes s"
  "process_count (con_putc c col s) = process_count s" "next_pid (con_putc c col s) = next_pid s"
  "current_process (con_putc c col s) = current_process s" "proc_mem (con_putc c col s) = proc_mem s"
  by (simp_all add: con_puts_def con_putc_def slot_def)

lemma con_same_table [simp]: "same_table s (con_puts str col s)" "same_table s (con_putc c col s)"
  by (simp_all add: same_table_def)

lemma current_slot:
  "sched_tab s \<Longrightarrow> 0 < slots_used s \<Longrightarrow> unat (current_process s) < slots_used s"
  by (simp add: sched_tab_def)

section \<open>The scan\<close>

lemma unat_next_slot:
  assumes "unat i < unat n" and "unat n \<le> 16"
  shows "unat ((i + 1) mod n :: u32) = (unat i + 1) mod unat n"
  using assms by (simp add: unat_mod unat_plus_one_no_wrap)

lemma scan_ready_spec:
  assumes "unat i < unat n" and "unat n \<le> 16"
  shows "case scan_ready P n k i of
      None \<Rightarrow> \<forall>d < k. \<not> P (of_nat ((unat i + d) mod unat n))
    | Some r \<Rightarrow> \<exists>d < k. r = of_nat ((unat i + d) mod unat n) \<and> P r \<and>
        (\<forall>e < d. \<not> P (of_nat ((unat i + e) mod unat n)))"
  using assms(1)
proof (induction k arbitrary: i)
  case (Suc k)
  have i: "of_nat ((unat i + 0) mod unat n) = i" using Suc.prems by simp
  let ?i = "(i + 1) mod n"
  have step: "(unat ?i + d) mod unat n = (unat i + Suc d) mod unat n" for d
    unfolding unat_next_slot [OF Suc.prems assms(2)] by (simp add: mod_simps)
  have lt: "unat ?i < unat n" using Suc.prems by (simp add: unat_mod)
  show ?case
  proof (cases "P i")
    case True
    then show ?thesis using i by (auto intro!: exI [of _ 0])
  next
    case False
    note IH = Suc.IH [OF lt, unfolded step]
    have split: "\<not> P (of_nat ((unat i + e) mod unat n))" if "e < Suc d"
      "\<forall>e < d. \<not> P (of_nat ((unat i + Suc e) mod unat n))" for d e
      using that False i by (cases e) auto
    show ?thesis
    proof (cases "scan_ready P n k ?i")
      case None
      with IH False split [of _ k] show ?thesis by auto
    next
      case (Some r)
      with IH obtain d where "d < k" "r = of_nat ((unat i + Suc d) mod unat n)" "P r"
        "\<forall>e < d. \<not> P (of_nat ((unat i + Suc e) mod unat n))" by auto
      then show ?thesis using Some False split [of _ d] by (auto intro!: exI [of _ "Suc d"])
    qed
  qed
qed simp

text \<open>Slot at distance \<open>d\<close> after the current one, in the order of the scan.\<close>

definition slot_after :: "'a sched_sys_scheme \<Rightarrow> nat \<Rightarrow> nat" where
  "slot_after s d = (unat (current_process s) + 1 + d) mod slots_used s"

lemma slot_after_less: "0 < slots_used s \<Longrightarrow> slot_after s d < slots_used s"
  by (simp add: slot_after_def)

lemma slot_after_last:
  assumes "unat (current_process s) < slots_used s"
  shows "slot_after s (slots_used s - 1) = unat (current_process s)"
proof -
  have "unat (current_process s) + 1 + (slots_used s - 1) = unat (current_process s) + slots_used s"
    using assms by simp
  then show ?thesis using assms by (simp add: slot_after_def)
qed

lemma slot_after_surj:
  assumes "unat (current_process s) < slots_used s" and "k < slots_used s"
  shows "\<exists>d < slots_used s. slot_after s d = k"
proof (cases "unat (current_process s) < k")
  case True
  then show ?thesis using assms by (intro exI [of _ "k - unat (current_process s) - 1"]) (simp add: slot_after_def)
next
  case False
  let ?d = "slots_used s + k - unat (current_process s) - 1"
  have "unat (current_process s) + 1 + ?d = k + slots_used s" using False assms by simp
  then have "slot_after s ?d = k" unfolding slot_after_def using assms by simp
  moreover have "?d < slots_used s" using False assms by linarith
  ultimately show ?thesis by blast
qed

lemma is_ready_slot:
  "sched_tab s \<Longrightarrow> k < slots_used s \<Longrightarrow> is_ready s (of_nat k) \<longleftrightarrow> state_of s k = PROCESS_READY"
  by (auto simp add: is_ready_def sched_tab_def state_of_def unat_of_nat take_bit_nat_eq_self)

lemma scan_from_current:
  assumes tab: "sched_tab s" and n: "0 < slots_used s"
  shows "case scan_ready (is_ready s) (process_count s) (slots_used s) ((current_process s + 1) mod process_count s) of
      None \<Rightarrow> \<forall>k < slots_used s. state_of s k \<noteq> PROCESS_READY
    | Some r \<Rightarrow> \<exists>d < slots_used s. unat r = slot_after s d \<and> state_of s (slot_after s d) = PROCESS_READY \<and>
        (\<forall>e < d. state_of s (slot_after s e) \<noteq> PROCESS_READY)"
proof -
  have le: "slots_used s \<le> 16" and c: "unat (current_process s) < slots_used s"
    using tab n by (simp_all add: sched_tab_def)
  let ?i = "(current_process s + 1) mod process_count s"
  have lt: "unat ?i < slots_used s" using n by (simp add: unat_mod)
  have sa: "(unat ?i + d) mod slots_used s = slot_after s d" for d
    unfolding unat_next_slot [OF c le] slot_after_def by (simp add: mod_simps)
  have small: "slot_after s d < slots_used s" for d using n by (rule slot_after_less)
  have un: "unat (of_nat (slot_after s d) :: u32) = slot_after s d" for d
    using small [of d] le by (simp add: unat_of_nat take_bit_nat_eq_self)
  have rdy: "is_ready s (of_nat (slot_after s d)) \<longleftrightarrow> state_of s (slot_after s d) = PROCESS_READY" for d
    using is_ready_slot [OF tab small] .
  note spec = scan_ready_spec [OF lt le, where P = "is_ready s" and k = "slots_used s", unfolded sa]
  show ?thesis
  proof (cases "scan_ready (is_ready s) (process_count s) (slots_used s) ?i")
    case None
    with spec rdy have "\<forall>d < slots_used s. state_of s (slot_after s d) \<noteq> PROCESS_READY" by simp
    with slot_after_surj [OF c] show ?thesis unfolding None option.case by metis
  next
    case (Some r)
    with spec obtain d where "d < slots_used s" "r = of_nat (slot_after s d)" "is_ready s r"
      "\<forall>e < d. \<not> is_ready s (of_nat (slot_after s e))" by auto
    then show ?thesis unfolding Some option.case using un rdy by (intro exI [of _ d]) simp
  qed
qed

section \<open>A yield\<close>

text \<open>What a switch to slot \<open>k\<close> does to the table.\<close>

definition switched :: "u32 \<Rightarrow> nat \<Rightarrow> 'a sched_sys_scheme \<Rightarrow> 'a sched_sys_scheme \<Rightarrow> bool" where
  "switched esp k s t \<longleftrightarrow>
     same_table s t \<and> unat (current_process t) = k \<and>
     slot t k = (slot s k)\<lparr>p_state := PROCESS_RUNNING\<rparr> \<and>
     (let c = unat (current_process s) in
       slot t c = (slot s c)\<lparr>p_state := (if state_of s c = PROCESS_RUNNING then PROCESS_READY else state_of s c),
                            cpu_context := (cpu_context (slot s c))\<lparr>ctx_esp := esp\<rparr>\<rparr> \<and>
       (\<forall>j < slots_used s. j \<noteq> c \<longrightarrow> j \<noteq> k \<longrightarrow> slot t j = slot s j)) \<and>
     tss_esp0 (tss_entry t) = stack_addr (processes s k) KERNEL_STACK_SIZE \<and>
     tick_counter t = tick_counter s \<and> schedule_needed t = schedule_needed s"

lemma tss_stack_sched [simp]:
  "slot (tss_set_kernel_stack a s) i = slot s i" "processes (tss_set_kernel_stack a s) = processes s"
  "process_count (tss_set_kernel_stack a s) = process_count s" "next_pid (tss_set_kernel_stack a s) = next_pid s"
  "current_process (tss_set_kernel_stack a s) = current_process s"
  "proc_mem (tss_set_kernel_stack a s) = proc_mem s"
  "tss_esp0 (tss_entry (tss_set_kernel_stack a s)) = a"
  "tick_counter (tss_set_kernel_stack a s) = tick_counter s"
  "schedule_needed (tss_set_kernel_stack a s) = schedule_needed s"
  by (simp_all add: tss_set_kernel_stack_def slot_def)

lemma switch_effect:
  fixes s :: "'a sched_sys_scheme" and esp r :: u32
  assumes tab: "sched_tab s" and c: "unat (current_process s) < slots_used s" and k: "unat r < slots_used s"
    and ne: "unat r \<noteq> unat (current_process s)"
  defines "t \<equiv> snd (switch_to esp r s)"
  shows "switched esp (unat r) s t" and "fst (switch_to esp r s) = ctx_esp (cpu_context (slot s (unat r)))"
proof -
  let ?c = "unat (current_process s)"
  have cp: "processes s ?c \<noteq> 0" using tab c by (simp add: sched_tab_def)
  have ptr: "processes s i = processes s j \<longleftrightarrow> i = j" if "i < slots_used s" "j < slots_used s" for i j
    using tab that by (auto simp add: sched_tab_def inj_on_eq_iff)
  have t: "processes t = processes s" "process_count t = process_count s" "next_pid t = next_pid s"
      "current_process t = r" "tss_esp0 (tss_entry t) = stack_addr (processes s (unat r)) KERNEL_STACK_SIZE"
      "tick_counter t = tick_counter s" "schedule_needed t = schedule_needed s"
    by (simp_all add: t_def switch_to_def Let_def)
  have slots: "slot t j = (if j = unat r then (slot s j)\<lparr>p_state := PROCESS_RUNNING\<rparr>
      else if j = ?c then (slot s j)\<lparr>p_state := (if state_of s j = PROCESS_RUNNING then PROCESS_READY else state_of s j),
              cpu_context := (cpu_context (slot s j))\<lparr>ctx_esp := esp\<rparr>\<rparr>
      else slot s j)" if "j < slots_used s" for j
    using that cp ne ptr [OF that k] ptr [OF that c] ptr [OF k c] ptr [OF c k]
    by (auto simp add: t_def switch_to_def Let_def slot_def upd_proc_def state_of_def)
  show "switched esp (unat r) s t"
    unfolding switched_def same_table_def Let_def using t slots k c ne by simp
  have "fst (switch_to esp r s) = ctx_esp (cpu_context (slot t (unat r)))"
    by (simp add: switch_to_def Let_def t_def slot_def)
  then show "fst (switch_to esp r s) = ctx_esp (cpu_context (slot s (unat r)))"
    using slots [OF k] by simp
qed

lemma slot_after_current:
  assumes "unat (current_process s) < slots_used s" and "d < slots_used s"
  shows "slot_after s d = unat (current_process s) \<longleftrightarrow> d = slots_used s - 1"
proof
  assume eq: "slot_after s d = unat (current_process s)"
  show "d = slots_used s - 1"
  proof (rule ccontr)
    assume "d \<noteq> slots_used s - 1"
    then have "d + 1 < slots_used s" using assms(2) by simp
    then show False using eq assms(1)
      by (cases "unat (current_process s) + 1 + d < slots_used s") (auto simp add: slot_after_def mod_if split: if_splits)
  qed
qed (use slot_after_last [OF assms(1)] in simp)

lemma yield_impl_cases:
  fixes s :: "'a sched_sys_scheme"
  assumes tab: "sched_tab s" and n: "1 < slots_used s"
  shows "(scheduler_yield_impl esp s = (0, s) \<and>
      (\<forall>k < slots_used s. k \<noteq> unat (current_process s) \<longrightarrow> state_of s k \<noteq> PROCESS_READY))
    \<or> (\<exists>d t. d < slots_used s \<and> slot_after s d \<noteq> unat (current_process s) \<and>
          state_of s (slot_after s d) = PROCESS_READY \<and>
          (\<forall>e < d. state_of s (slot_after s e) \<noteq> PROCESS_READY) \<and> switched esp (slot_after s d) s t \<and>
          scheduler_yield_impl esp s = (ctx_esp (cpu_context (slot s (slot_after s d))), t))"
proof -
  have n1: "\<not> process_count s \<le> 1" using n by (simp add: word_le_nat_alt)
  have c: "unat (current_process s) < slots_used s" using tab n by (simp add: sched_tab_def)
  have n0: "0 < slots_used s" using n by simp
  show ?thesis
  proof (cases "scan_ready (is_ready s) (process_count s) (slots_used s) ((current_process s + 1) mod process_count s)")
    case None
    then have "\<forall>k < slots_used s. state_of s k \<noteq> PROCESS_READY" using scan_from_current [OF tab n0] by simp
    moreover have "scheduler_yield_impl esp s = (0, s)"
      unfolding scheduler_yield_impl_def using n1 None by simp
    ultimately show ?thesis by blast
  next
    case (Some r)
    then obtain d where d: "d < slots_used s" "unat r = slot_after s d" "state_of s (slot_after s d) = PROCESS_READY"
        "\<forall>e < d. state_of s (slot_after s e) \<noteq> PROCESS_READY"
      using scan_from_current [OF tab n0] by auto
    show ?thesis
    proof (cases "r = current_process s")
      case True
      then have "d = slots_used s - 1" using slot_after_current [OF c d(1)] d(2) by simp
      then have "state_of s k \<noteq> PROCESS_READY" if k: "k < slots_used s" "k \<noteq> unat (current_process s)" for k
      proof -
        obtain e where "e < slots_used s" "slot_after s e = k" using slot_after_surj [OF c k(1)] by blast
        with slot_after_current [OF c] k(2) \<open>d = slots_used s - 1\<close> have "e < d" by fastforce
        with d(4) \<open>slot_after s e = k\<close> show ?thesis by blast
      qed
      moreover have "scheduler_yield_impl esp s = (0, s)"
        unfolding scheduler_yield_impl_def using n1 Some True by simp
      ultimately show ?thesis by blast
    next
      case False
      then have ne: "unat r \<noteq> unat (current_process s)" by (simp add: word_unat_eq_iff)
      have k: "unat r < slots_used s" using d(2) n0 by (simp add: slot_after_less)
      have "scheduler_yield_impl esp s = switch_to esp r s"
        unfolding scheduler_yield_impl_def using n1 Some False by simp
      then have "scheduler_yield_impl esp s =
          (ctx_esp (cpu_context (slot s (slot_after s d))), snd (switch_to esp r s))"
        using switch_effect(2) [OF tab c k ne, of esp] d(2) by (simp add: prod_eq_iff)
      then show ?thesis using d ne switch_effect(1) [OF tab c k ne, of esp] by metis
    qed
  qed
qed

lemma switched_slots:
  assumes "switched esp k s t" and "k < slots_used s" and "unat (current_process s) < slots_used s"
    and "k \<noteq> unat (current_process s)" and "j < slots_used s"
  shows "state_of t j = (if j = k then PROCESS_RUNNING
      else if j = unat (current_process s) \<and> state_of s j = PROCESS_RUNNING then PROCESS_READY else state_of s j)"
    and "waiting_for_pid (slot t j) = waiting_for_pid (slot s j)" and "pid (slot t j) = pid (slot s j)"
    and "exit_code (slot t j) = exit_code (slot s j)"
proof -
  consider "j = k" | "j = unat (current_process s)" "j \<noteq> k" | "j \<noteq> k" "j \<noteq> unat (current_process s)" by blast
  then have "slot t j = (if j = k then (slot s j)\<lparr>p_state := PROCESS_RUNNING\<rparr>
      else if j = unat (current_process s)
      then (slot s j)\<lparr>p_state := (if state_of s j = PROCESS_RUNNING then PROCESS_READY else state_of s j),
              cpu_context := (cpu_context (slot s j))\<lparr>ctx_esp := esp\<rparr>\<rparr>
      else slot s j)"
    using assms unfolding switched_def Let_def by cases auto
  then show "state_of t j = (if j = k then PROCESS_RUNNING
      else if j = unat (current_process s) \<and> state_of s j = PROCESS_RUNNING then PROCESS_READY else state_of s j)"
    "waiting_for_pid (slot t j) = waiting_for_pid (slot s j)" "pid (slot t j) = pid (slot s j)"
    "exit_code (slot t j) = exit_code (slot s j)"
    by (simp_all add: state_of_def)
qed

lemma switched_wf:
  assumes wf: "sched_wf s" and sw: "switched esp k s t" and k: "k < slots_used s" "k \<noteq> unat (current_process s)"
  shows "sched_wf t"
proof -
  have tab: "sched_tab s" and c: "unat (current_process s) < slots_used s"
    using wf k by (auto simp add: sched_wf_def sched_tab_def)
  have st: "same_table s t" and ct: "unat (current_process t) = k" using sw by (simp_all add: switched_def)
  have n: "slots_used t = slots_used s" using st by (simp add: same_table_def)
  note sl = switched_slots [OF sw k(1) c k(2)]
  have "i = unat (current_process t)" if "i < slots_used s" "state_of t i = PROCESS_RUNNING" for i
  proof (rule ccontr)
    assume "i \<noteq> unat (current_process t)"
    then have "state_of s i = PROCESS_RUNNING" "i \<noteq> unat (current_process s)"
      using sl(1) [OF that(1)] that(2) ct by (auto split: if_splits)
    then show False using wf that(1) unfolding sched_wf_def sched_states_def by blast
  qed
  moreover have "\<exists>j < slots_used s. waiting_for_pid (slot t i) = pid (slot t j) \<and> state_of t j \<noteq> PROCESS_TERMINATED"
    if i: "i < slots_used s" "state_of t i = PROCESS_BLOCKED" for i
  proof -
    have "state_of s i = PROCESS_BLOCKED" using sl(1) [OF i(1)] i(2) by (auto split: if_splits)
    then obtain j where "j < slots_used s" "waiting_for_pid (slot s i) = pid (slot s j)" "state_of s j \<noteq> PROCESS_TERMINATED"
      using wf i(1) unfolding sched_wf_def sched_states_def by blast
    then have "state_of t j \<noteq> PROCESS_TERMINATED" "waiting_for_pid (slot t i) = pid (slot t j)" "j < slots_used s"
      using sl(1,3) [of j] sl(2) [OF i(1)] by simp_all
    then show ?thesis by blast
  qed
  ultimately have "sched_states t" unfolding sched_states_def n by blast
  moreover have "sched_tab t" using same_table_tab [OF st tab] ct k(1) by simp
  ultimately show ?thesis by (simp add: sched_wf_def)
qed

text \<open>A yield is nothing, or a switch to the next READY slot.\<close>

lemma yield_cases:
  fixes s :: "'a sched_sys_scheme"
  assumes "sched_tab s"
  shows "(scheduler_yield esp s = s \<and>
      (\<forall>k < slots_used s. k \<noteq> unat (current_process s) \<longrightarrow> state_of s k \<noteq> PROCESS_READY))
    \<or> (\<exists>d < slots_used s. slot_after s d \<noteq> unat (current_process s) \<and> slot_after s d < slots_used s \<and>
          state_of s (slot_after s d) = PROCESS_READY \<and>
          (\<forall>e < d. state_of s (slot_after s e) \<noteq> PROCESS_READY) \<and>
          switched esp (slot_after s d) s (scheduler_yield esp s))"
proof (cases "process_count s \<le> 1")
  case True
  then have "slots_used s \<le> 1" by (simp add: word_le_nat_alt)
  then have "\<forall>k < slots_used s. k \<noteq> unat (current_process s) \<longrightarrow> state_of s k \<noteq> PROCESS_READY"
    using assms by (auto simp add: sched_tab_def)
  then show ?thesis using True by (simp add: scheduler_yield_def)
next
  case False
  then have n: "1 < slots_used s" by (simp add: word_le_nat_alt)
  have less: "slot_after s d < slots_used s" for d using n by (intro slot_after_less) simp
  have y: "scheduler_yield esp s = snd (scheduler_yield_impl esp s)" using False by (simp add: scheduler_yield_def)
  from yield_impl_cases [OF assms n, of esp] show ?thesis unfolding y using less by auto
qed

lemma yield_wf: "sched_wf s \<Longrightarrow> sched_wf (scheduler_yield esp s)"
  using yield_cases [of s esp] switched_wf [of s esp] by (metis sched_wf_def)

lemma yield_same_table: "sched_tab s \<Longrightarrow> same_table s (scheduler_yield esp s)"
  using yield_cases [of s esp] by (auto simp add: switched_def)

lemma yield_terminated:
  assumes "sched_wf s" and "j < slots_used s"
  shows "state_of (scheduler_yield esp s) j = PROCESS_TERMINATED \<longleftrightarrow> state_of s j = PROCESS_TERMINATED"
    and "exit_code (slot (scheduler_yield esp s) j) = exit_code (slot s j)"
proof -
  have tab: "sched_tab s" and c: "unat (current_process s) < slots_used s"
    using assms by (auto simp add: sched_wf_def sched_tab_def)
  from yield_cases [OF tab, of esp]
  have "(state_of (scheduler_yield esp s) j = PROCESS_TERMINATED \<longleftrightarrow> state_of s j = PROCESS_TERMINATED) \<and>
    exit_code (slot (scheduler_yield esp s) j) = exit_code (slot s j)"
  proof (elim disjE exE conjE)
    fix d assume d: "slot_after s d \<noteq> unat (current_process s)" "slot_after s d < slots_used s"
      "state_of s (slot_after s d) = PROCESS_READY" "switched esp (slot_after s d) s (scheduler_yield esp s)"
    show ?thesis using switched_slots [OF d(4,2) c d(1) assms(2)] d(3) by auto
  qed simp
  then show "state_of (scheduler_yield esp s) j = PROCESS_TERMINATED \<longleftrightarrow> state_of s j = PROCESS_TERMINATED"
    "exit_code (slot (scheduler_yield esp s) j) = exit_code (slot s j)" by blast+
qed

lemma yield_effect_on_slot:
  assumes "sched_wf s" and "j < slots_used s"
  shows "state_of (scheduler_yield esp s) j = state_of s j
      \<or> state_of s j = PROCESS_READY \<and> state_of (scheduler_yield esp s) j = PROCESS_RUNNING
      \<or> state_of s j = PROCESS_RUNNING \<and> state_of (scheduler_yield esp s) j = PROCESS_READY"
    and "waiting_for_pid (slot (scheduler_yield esp s) j) = waiting_for_pid (slot s j)"
proof -
  have tab: "sched_tab s" and c: "unat (current_process s) < slots_used s"
    using assms by (auto simp add: sched_wf_def sched_tab_def)
  from yield_cases [OF tab, of esp]
  have "(state_of (scheduler_yield esp s) j = state_of s j
      \<or> state_of s j = PROCESS_READY \<and> state_of (scheduler_yield esp s) j = PROCESS_RUNNING
      \<or> state_of s j = PROCESS_RUNNING \<and> state_of (scheduler_yield esp s) j = PROCESS_READY) \<and>
    waiting_for_pid (slot (scheduler_yield esp s) j) = waiting_for_pid (slot s j)"
  proof (elim disjE exE conjE)
    fix d assume d: "slot_after s d \<noteq> unat (current_process s)" "slot_after s d < slots_used s"
      "state_of s (slot_after s d) = PROCESS_READY" "switched esp (slot_after s d) s (scheduler_yield esp s)"
    show ?thesis using switched_slots(1,2) [OF d(4,2) c d(1) assms(2)] d(3) by auto
  qed simp
  then show "state_of (scheduler_yield esp s) j = state_of s j
      \<or> state_of s j = PROCESS_READY \<and> state_of (scheduler_yield esp s) j = PROCESS_RUNNING
      \<or> state_of s j = PROCESS_RUNNING \<and> state_of (scheduler_yield esp s) j = PROCESS_READY"
    "waiting_for_pid (slot (scheduler_yield esp s) j) = waiting_for_pid (slot s j)" by blast+
qed

section \<open>No READY process starves\<close>

lemma slot_after_shift:
  assumes "unat (current_process t) = slot_after s d" and "slots_used t = slots_used s" and "d < e"
  shows "slot_after t (e - d - 1) = slot_after s e"
proof -
  obtain f where e: "e = Suc (d + f)" using less_imp_Suc_add [OF assms(3)] by blast
  have "slot_after t f = ((unat (current_process s) + 1 + d) mod slots_used s + (1 + f)) mod slots_used s"
    using assms(1,2) by (simp add: slot_after_def)
  also have "\<dots> = (unat (current_process s) + 1 + d + (1 + f)) mod slots_used s" by (rule mod_add_left_eq)
  also have "\<dots> = slot_after s e" unfolding e slot_after_def by (simp add: ac_simps)
  finally show ?thesis using e by simp
qed

lemma ready_gets_turn:
  "sched_wf s \<Longrightarrow> d < slots_used s \<Longrightarrow> slot_after s d = k \<Longrightarrow> k \<noteq> unat (current_process s) \<Longrightarrow>
   state_of s k = PROCESS_READY \<Longrightarrow> d < length es \<Longrightarrow>
   \<exists>m \<le> d + 1. unat (current_process (fold scheduler_yield (take m es) s)) = k \<and>
     state_of (fold scheduler_yield (take m es) s) k = PROCESS_RUNNING"
proof (induction d arbitrary: s es rule: less_induct)
  case (less d)
  have tab: "sched_tab s" and c: "unat (current_process s) < slots_used s"
    using less.prems(1,2) by (auto simp add: sched_wf_def sched_tab_def)
  have kn: "k < slots_used s" using less.prems(2,3) slot_after_less [of s d] by auto
  obtain e es' where es: "es = e # es'" using less.prems(6) by (cases es) auto
  let ?t = "scheduler_yield e s"
  from yield_cases [OF tab, of e] less.prems(4,5) kn obtain g where
    g: "g < slots_used s" "slot_after s g \<noteq> unat (current_process s)" "slot_after s g < slots_used s"
      "\<forall>f < g. state_of s (slot_after s f) \<noteq> PROCESS_READY" "switched e (slot_after s g) s ?t" by blast
  have gd: "g \<le> d" using g(4) less.prems(3,5) by (metis not_le)
  note sl = switched_slots [OF g(5,3) c g(2)]
  have ct: "unat (current_process ?t) = slot_after s g" and st: "same_table s ?t"
    using g(5) by (simp_all add: switched_def)
  have n: "slots_used ?t = slots_used s" using st by (simp add: same_table_def)
  show ?case
  proof (cases "slot_after s g = k")
    case True
    then show ?thesis using ct sl(1) [OF kn] es by (intro exI [of _ 1]) simp
  next
    case False
    then have lt: "g < d" using gd less.prems(3) le_neq_implies_less by blast
    have "state_of ?t k = PROCESS_READY" using sl(1) [OF kn] less.prems(5) False by auto
    moreover have "slot_after ?t (d - g - 1) = k" using slot_after_shift [OF ct n lt] less.prems(3) by simp
    moreover have "k \<noteq> unat (current_process ?t)" using ct False by simp
    moreover have "d - g - 1 < length es'" "d - g - 1 < slots_used ?t" using less.prems(2,6) es lt n by auto
    ultimately obtain m where "m \<le> d - g - 1 + 1"
      "unat (current_process (fold scheduler_yield (take m es') ?t)) = k"
      "state_of (fold scheduler_yield (take m es') ?t) k = PROCESS_RUNNING"
      using less.IH [of "d - g - 1" ?t es'] lt yield_wf [OF less.prems(1), of e] by auto
    then show ?thesis using es lt by (intro exI [of _ "Suc m"]) auto
  qed
qed

section \<open>Waking\<close>

lemma wake_one_slot:
  assumes "sched_tab s" and "i < slots_used s" and "j < slots_used s"
  shows "slot (wake_one p i s) j =
    (if j = i \<and> state_of s j = PROCESS_BLOCKED \<and> waiting_for_pid (slot s j) = p
     then (slot s j)\<lparr>p_state := PROCESS_READY, waiting_for_pid := 0\<rparr> else slot s j)"
  using assms slot_upd_proc [OF assms] by (auto simp add: wake_one_def sched_tab_def state_of_def)

lemma wake_one_frames [simp]:
  "processes (wake_one p i s) = processes s" "process_count (wake_one p i s) = process_count s"
  "next_pid (wake_one p i s) = next_pid s" "current_process (wake_one p i s) = current_process s"
  by (simp_all add: wake_one_def)

lemma wake_fold:
  fixes s :: "'a sched_sys_scheme" and p :: u32 and m :: nat
  assumes tab: "sched_tab s" and "m \<le> slots_used s"
  defines "t \<equiv> fold (wake_one p) [0..<m] s"
  shows "same_table s t \<and> current_process t = current_process s \<and>
    (\<forall>j < slots_used s. slot t j =
       (if j < m \<and> state_of s j = PROCESS_BLOCKED \<and> waiting_for_pid (slot s j) = p
        then (slot s j)\<lparr>p_state := PROCESS_READY, waiting_for_pid := 0\<rparr> else slot s j))"
  unfolding t_def using assms(2)
proof (induction m)
  case 0
  then show ?case by simp
next
  case (Suc m)
  let ?u = "fold (wake_one p) [0..<m] s"
  have IH: "same_table s ?u" "current_process ?u = current_process s"
    "\<forall>j < slots_used s. slot ?u j =
       (if j < m \<and> state_of s j = PROCESS_BLOCKED \<and> waiting_for_pid (slot s j) = p
        then (slot s j)\<lparr>p_state := PROCESS_READY, waiting_for_pid := 0\<rparr> else slot s j)"
    using Suc by auto
  have n: "slots_used ?u = slots_used s" using IH(1) by (simp add: same_table_def)
  have tab': "sched_tab ?u" using same_table_tab [OF IH(1) tab] IH(2) tab by (simp add: sched_tab_def)
  have ws: "slot (wake_one p m ?u) j =
       (if j < Suc m \<and> state_of s j = PROCESS_BLOCKED \<and> waiting_for_pid (slot s j) = p
        then (slot s j)\<lparr>p_state := PROCESS_READY, waiting_for_pid := 0\<rparr> else slot s j)"
    if "j < slots_used s" for j
    using wake_one_slot [OF tab', of m j p] Suc.prems that IH(3) n by (auto simp add: state_of_def less_Suc_eq)
  have "pid (slot (wake_one p m ?u) j) = pid (slot s j)" if "j < slots_used s" for j
    using ws [OF that] by simp
  then have "same_table s (wake_one p m ?u)" using IH(1) by (simp add: same_table_def)
  with IH(2) ws show ?case by simp
qed

lemmas wake_waiters_effect = wake_fold [OF _ order_refl, folded wake_waiters_def]

lemma con_tab [simp]:
  "sched_tab (con_puts str col s) = sched_tab s" "sched_tab (con_putc c col s) = sched_tab s"
  "state_of (con_puts str col s) = state_of s" "state_of (con_putc c col s) = state_of s"
  by (simp_all add: sched_tab_def state_of_def fun_eq_iff)

section \<open>Terminating a process\<close>

text \<open>\<open>t\<close> is \<open>s\<close> with slot \<open>k\<close> terminated and everyone who waited for it READY again.\<close>

definition terminated :: "nat \<Rightarrow> u32 \<Rightarrow> 'a sched_sys_scheme \<Rightarrow> 'a sched_sys_scheme \<Rightarrow> bool" where
  "terminated k code s t \<longleftrightarrow>
     same_table s t \<and> current_process t = current_process s \<and>
     (\<forall>j < slots_used s. slot t j =
        (if j = k then (slot s j)\<lparr>p_state := PROCESS_TERMINATED, exit_code := code\<rparr>
         else if state_of s j = PROCESS_BLOCKED \<and> waiting_for_pid (slot s j) = pid (slot s k)
         then (slot s j)\<lparr>p_state := PROCESS_READY, waiting_for_pid := 0\<rparr> else slot s j))"

lemma terminatedI:
  assumes tab: "sched_tab s" and k: "k < slots_used s"
    and u: "same_table s u" "current_process u = current_process s"
      "\<And>j. j < slots_used s \<Longrightarrow> slot u j =
         (if j = k then (slot s j)\<lparr>p_state := PROCESS_TERMINATED, exit_code := code\<rparr> else slot s j)"
  shows "terminated k code s (wake_waiters (pid (slot s k)) u)"
proof -
  have n: "slots_used u = slots_used s" using u(1) by (simp add: same_table_def)
  have tabu: "sched_tab u" using same_table_tab [OF u(1) tab] tab u(2) by (simp add: sched_tab_def)
  note w = wake_waiters_effect [OF tabu, of "pid (slot s k)", unfolded n]
  have "slot (wake_waiters (pid (slot s k)) u) j =
        (if j = k then (slot s j)\<lparr>p_state := PROCESS_TERMINATED, exit_code := code\<rparr>
         else if state_of s j = PROCESS_BLOCKED \<and> waiting_for_pid (slot s j) = pid (slot s k)
         then (slot s j)\<lparr>p_state := PROCESS_READY, waiting_for_pid := 0\<rparr> else slot s j)"
    if "j < slots_used s" for j
    using w u(3) [OF that] that by (auto simp add: state_of_def)
  then show ?thesis using w u(1,2) same_table_trans [OF u(1)] by (simp add: terminated_def)
qed

lemma terminated_state:
  assumes "terminated k code s t" and "j < slots_used s"
  shows "state_of t j =
    (if j = k then PROCESS_TERMINATED
     else if state_of s j = PROCESS_BLOCKED \<and> waiting_for_pid (slot s j) = pid (slot s k) then PROCESS_READY
     else state_of s j)"
  using assms by (simp add: terminated_def state_of_def)

lemma terminated_wf:
  assumes wf: "sched_wf s" and k: "k < slots_used s" and t: "terminated k code s t"
  shows "sched_wf t"
proof -
  have tab: "sched_tab s" using wf by (simp add: sched_wf_def)
  have st: "same_table s t" and cur: "current_process t = current_process s" using t by (simp_all add: terminated_def)
  have n: "slots_used t = slots_used s" using st by (simp add: same_table_def)
  note ts = terminated_state [OF t]
  have "i = unat (current_process t)" if "i < slots_used s" "state_of t i = PROCESS_RUNNING" for i
    using that ts [of i] wf cur by (auto simp add: sched_wf_def sched_states_def split: if_splits)
  moreover have "\<exists>j < slots_used s. waiting_for_pid (slot t i) = pid (slot t j) \<and> state_of t j \<noteq> PROCESS_TERMINATED"
    if i: "i < slots_used s" "state_of t i = PROCESS_BLOCKED" for i
  proof -
    have b: "i \<noteq> k" "state_of s i = PROCESS_BLOCKED" "waiting_for_pid (slot s i) \<noteq> pid (slot s k)"
      using ts [OF i(1)] i(2) by (auto split: if_splits)
    then have same: "slot t i = slot s i" using t i(1) by (simp add: terminated_def)
    obtain j where j: "j < slots_used s" "waiting_for_pid (slot s i) = pid (slot s j)" "state_of s j \<noteq> PROCESS_TERMINATED"
      using wf i(1) b(2) unfolding sched_wf_def sched_states_def by blast
    then have "j \<noteq> k" using b(3) by auto
    then have "state_of t j \<noteq> PROCESS_TERMINATED" using ts [OF j(1)] j(3) by auto
    moreover have "pid (slot t j) = pid (slot s j)" using st j(1) by (simp add: same_table_def)
    ultimately show ?thesis using j(1,2) same by metis
  qed
  ultimately have "sched_states t" unfolding sched_states_def n by blast
  moreover have "sched_tab t" using same_table_tab [OF st tab] cur tab by (simp add: sched_tab_def)
  ultimately show ?thesis by (simp add: sched_wf_def)
qed

lemma process_exit_prints:
  fixes s :: "'a sched_sys_scheme"
  defines "p \<equiv> processes s (unat (current_process s))"
  assumes "p \<noteq> 0"
  shows "\<exists>v. process_exit code esp s = scheduler_yield esp (wake_waiters (pid (proc_mem s p))
    (upd_proc p (\<lambda>q. q\<lparr>p_state := PROCESS_TERMINATED, exit_code := code\<rparr>) s\<lparr>vga := v\<rparr>))"
  using assms(2) unfolding process_exit_def Let_def p_def [symmetric]
  by (cases "sint code < 0") (simp_all add: con_puts_def con_putc_def upd_proc_def, blast+)

lemma slot_vga [simp]: "slot (s\<lparr>vga := v\<rparr>) j = slot s j"
  by (simp add: slot_def)

lemma terminated_upd:
  assumes tab: "sched_tab s" and k: "k < slots_used s"
  shows "terminated k code s (wake_waiters (pid (slot s k))
    (upd_proc (processes s k) (\<lambda>q. q\<lparr>p_state := PROCESS_TERMINATED, exit_code := code\<rparr>) s\<lparr>vga := v\<rparr>))"
proof (rule terminatedI [OF tab k])
  let ?u = "upd_proc (processes s k) (\<lambda>q. q\<lparr>p_state := PROCESS_TERMINATED, exit_code := code\<rparr>) s"
  have "same_table s ?u" by (rule same_table_upd [OF tab k]) simp
  then show "same_table s (?u\<lparr>vga := v\<rparr>)" by (simp add: same_table_def)
  show "slot (?u\<lparr>vga := v\<rparr>) j =
      (if j = k then (slot s j)\<lparr>p_state := PROCESS_TERMINATED, exit_code := code\<rparr> else slot s j)"
    if "j < slots_used s" for j
    using slot_upd_proc [OF tab k that] by simp
qed simp

lemma process_exit_effect:
  fixes s :: "'a sched_sys_scheme"
  assumes tab: "sched_tab s" and n: "0 < slots_used s"
  shows "\<exists>t. terminated (unat (current_process s)) code s t \<and> process_exit code esp s = scheduler_yield esp t"
proof -
  have k: "unat (current_process s) < slots_used s" and "processes s (unat (current_process s)) \<noteq> 0"
    using tab n by (auto simp add: sched_tab_def)
  from process_exit_prints [OF this(2), of code esp] terminated_upd [OF tab k, of code]
  show ?thesis unfolding slot_def by blast
qed

lemma process_exit_wf: "sched_wf s \<Longrightarrow> 0 < slots_used s \<Longrightarrow> sched_wf (process_exit code esp s)"
  using process_exit_effect [of s code esp] terminated_wf [of s "unat (current_process s)" code] yield_wf current_slot
  by (metis sched_wf_def)

lemma kill_scan_effect:
  fixes s :: "'a sched_sys_scheme"
  assumes tab: "sched_tab s" and "\<forall>i \<in> set is. i < slots_used s"
  shows "(kill_scan p esp is s = (False, s) \<and>
      (\<forall>i \<in> set is. pid (slot s i) = p \<longrightarrow> state_of s i = PROCESS_TERMINATED))
    \<or> (\<exists>k t. k < slots_used s \<and> pid (slot s k) = p \<and> state_of s k \<noteq> PROCESS_TERMINATED \<and>
          terminated k (- 1) s t \<and>
          kill_scan p esp is s = (True, if k = unat (current_process s) then scheduler_yield esp t else t))"
  using assms(2)
proof (induction "is")
  case (Cons i "is")
  then have i: "i < slots_used s" and nz: "processes s i \<noteq> 0" using tab by (auto simp add: sched_tab_def)
  show ?case
  proof (cases "pid (slot s i) = p \<and> state_of s i \<noteq> PROCESS_TERMINATED")
    case True
    have "\<exists>v. kill_scan p esp (i # is) s = (True,
        let t = wake_waiters p (upd_proc (processes s i)
          (\<lambda>q. q\<lparr>p_state := PROCESS_TERMINATED, exit_code := - 1\<rparr>) s\<lparr>vga := v\<rparr>)
        in if i = unat (current_process t) then scheduler_yield esp t else t)"
      using True nz by (simp add: Let_def con_puts_def upd_proc_def state_of_def) blast
    then obtain v where v: "kill_scan p esp (i # is) s = (True,
        let t = wake_waiters p (upd_proc (processes s i)
          (\<lambda>q. q\<lparr>p_state := PROCESS_TERMINATED, exit_code := - 1\<rparr>) s\<lparr>vga := v\<rparr>)
        in if i = unat (current_process t) then scheduler_yield esp t else t)" by blast
    let ?t = "wake_waiters p (upd_proc (processes s i)
          (\<lambda>q. q\<lparr>p_state := PROCESS_TERMINATED, exit_code := - 1\<rparr>) s\<lparr>vga := v\<rparr>)"
    have t: "terminated i (- 1) s ?t" using terminated_upd [OF tab i, of "- 1" v] True by simp
    then have "current_process ?t = current_process s" by (simp add: terminated_def)
    then have "kill_scan p esp (i # is) s = (True, if i = unat (current_process s) then scheduler_yield esp ?t else ?t)"
      unfolding v Let_def by simp
    then show ?thesis using t i True by blast
  next
    case False
    then have "kill_scan p esp (i # is) s = kill_scan p esp is s" using nz by (auto simp add: state_of_def)
    with Cons False show ?thesis by auto
  qed
qed simp

lemma process_kill_effect:
  fixes s :: "'a sched_sys_scheme"
  assumes tab: "sched_tab s"
  shows "(process_kill p esp s = (- 1, s) \<and>
      (\<forall>i < slots_used s. pid (slot s i) = p \<longrightarrow> state_of s i = PROCESS_TERMINATED))
    \<or> (\<exists>k t. k < slots_used s \<and> pid (slot s k) = p \<and> state_of s k \<noteq> PROCESS_TERMINATED \<and>
          terminated k (- 1) s t \<and>
          process_kill p esp s = (0, if k = unat (current_process s) then scheduler_yield esp t else t))"
proof -
  have "process_kill p esp s = (if fst r then 0 else - 1, snd r)" if "kill_scan p esp [0..<slots_used s] s = r" for r
    using that by (simp add: process_kill_def case_prod_beta)
  with kill_scan_effect [OF tab, of "[0..<slots_used s]" p esp] show ?thesis by fastforce
qed

lemma process_kill_wf:
  assumes "sched_wf s"
  shows "sched_wf (snd (process_kill p esp s))"
proof -
  have tab: "sched_tab s" using assms by (simp add: sched_wf_def)
  from process_kill_effect [OF tab, of p esp] show ?thesis
  proof (elim disjE exE conjE)
    fix k t assume "k < slots_used s" "terminated k (- 1) s t"
      "process_kill p esp s = (0, if k = unat (current_process s) then scheduler_yield esp t else t)"
    then show ?thesis using terminated_wf [OF assms] yield_wf [of t esp] by simp
  qed (use assms in simp)
qed

section \<open>Waiting\<close>

lemma find_process_slot:
  assumes "sched_tab s"
  shows "(find_process p s = 0 \<and> (\<forall>i < slots_used s. pid (slot s i) \<noteq> p))
    \<or> (\<exists>i < slots_used s. find_process p s = processes s i \<and> pid (slot s i) = p)"
proof (cases "List.find (\<lambda>i. processes s i \<noteq> 0 \<and> pid (slot s i) = p) [0..<slots_used s]")
  case None
  then have "\<forall>i < slots_used s. \<not> (processes s i \<noteq> 0 \<and> pid (slot s i) = p)" by (simp add: find_None_iff)
  then show ?thesis using None assms by (auto simp add: find_process_def sched_tab_def)
next
  case (Some i)
  then have "i < slots_used s" "pid (slot s i) = p" by (auto simp add: find_Some_iff)
  then show ?thesis using Some by (auto simp add: find_process_def)
qed

text \<open>The three outcomes of entering \<open>process_wait\<close>.\<close>

lemma process_wait_effect:
  fixes s :: "'a sched_sys_scheme"
  assumes tab: "sched_tab s" and n: "0 < slots_used s"
  defines "c \<equiv> unat (current_process s)"
  shows "(process_wait p s = (Wait_Return (- 1), s) \<and> (\<forall>i < slots_used s. pid (slot s i) \<noteq> p))
    \<or> (\<exists>i < slots_used s. pid (slot s i) = p \<and> state_of s i = PROCESS_TERMINATED \<and>
          process_wait p s = (Wait_Return (exit_code (slot s i)), s))
    \<or> (\<exists>i < slots_used s. pid (slot s i) = p \<and> state_of s i \<noteq> PROCESS_TERMINATED \<and>
          process_wait p s = (Wait_Loop (processes s i),
            upd_proc (processes s c) (\<lambda>q. q\<lparr>p_state := PROCESS_BLOCKED, waiting_for_pid := p\<rparr>) s))"
proof -
  have "processes s c \<noteq> 0" using tab n by (auto simp add: sched_tab_def c_def)
  moreover have "processes s i \<noteq> 0" if "i < slots_used s" for i using tab that by (simp add: sched_tab_def)
  ultimately show ?thesis
    using find_process_slot [OF tab, of p] unfolding process_wait_def Let_def c_def [symmetric] state_of_def slot_def
    by auto
qed

lemma block_wf:
  assumes wf: "sched_wf s" and n: "0 < slots_used s" and i: "i < slots_used s" "state_of s i \<noteq> PROCESS_TERMINATED"
  shows "sched_wf (upd_proc (processes s (unat (current_process s)))
    (\<lambda>q. q\<lparr>p_state := PROCESS_BLOCKED, waiting_for_pid := pid (slot s i)\<rparr>) s)"
proof -
  let ?c = "unat (current_process s)"
  let ?t = "upd_proc (processes s ?c) (\<lambda>q. q\<lparr>p_state := PROCESS_BLOCKED, waiting_for_pid := pid (slot s i)\<rparr>) s"
  have tab: "sched_tab s" and states: "sched_states s" using wf by (simp_all add: sched_wf_def)
  have c: "?c < slots_used s" by (rule current_slot [OF tab n])
  note sl = slot_upd_proc [OF tab c, where f = "\<lambda>q. q\<lparr>p_state := PROCESS_BLOCKED, waiting_for_pid := pid (slot s i)\<rparr>"]
  have st: "same_table s ?t" by (rule same_table_upd [OF tab c]) simp
  have state: "state_of ?t j = (if j = ?c then PROCESS_BLOCKED else state_of s j)" if "j < slots_used s" for j
    using sl [OF that] by (simp add: state_of_def)
  have "j = ?c" if "j < slots_used s" "state_of ?t j = PROCESS_RUNNING" for j
    using that state [OF that(1)] states by (auto simp add: sched_states_def split: if_splits)
  moreover have "\<exists>k < slots_used s. waiting_for_pid (slot ?t j) = pid (slot ?t k) \<and> state_of ?t k \<noteq> PROCESS_TERMINATED"
    if j: "j < slots_used s" "state_of ?t j = PROCESS_BLOCKED" for j
  proof (cases "j = ?c")
    case True
    have "pid (slot ?t i) = pid (slot s i)" using st i(1) by (simp add: same_table_def)
    then show ?thesis using True sl [OF c] state [OF i(1)] i by (intro exI [of _ i]) auto
  next
    case False
    then obtain k where k: "k < slots_used s" "waiting_for_pid (slot s j) = pid (slot s k)" "state_of s k \<noteq> PROCESS_TERMINATED"
      using states j state [OF j(1)] unfolding sched_states_def by auto
    have "pid (slot ?t k) = pid (slot s k)" using st k(1) by (simp add: same_table_def)
    then show ?thesis using False sl [OF j(1)] state [OF k(1)] k by (intro exI [of _ k]) auto
  qed
  ultimately have "sched_states ?t" by (simp add: sched_states_def)
  moreover have "sched_tab ?t" using same_table_tab [OF st tab] c by simp
  ultimately show ?thesis by (simp add: sched_wf_def)
qed

lemma process_wait_wf:
  assumes "sched_wf s" and "0 < slots_used s"
  shows "sched_wf (snd (process_wait p s))"
proof -
  have tab: "sched_tab s" using assms by (simp add: sched_wf_def)
  from process_wait_effect [OF tab assms(2), of p] show ?thesis
    using assms block_wf [OF assms] by (elim disjE exE conjE) auto
qed

lemma process_wait_loop_wf: "sched_wf s \<Longrightarrow> sched_wf (snd (process_wait_loop tgt esp s))"
  by (simp add: process_wait_loop_def yield_wf)

lemma sched_wf_tick:
  assumes "sched_wf s"
  shows "sched_wf (scheduler_tick s)" and "sched_wf (s\<lparr>schedule_needed := b\<rparr>)"
  using assms by (simp_all add: scheduler_tick_def Let_def sched_wf_def sched_tab_def sched_states_def state_of_def slot_def)

lemma scheduler_check_wf: "sched_wf s \<Longrightarrow> sched_wf (scheduler_check esp s)"
  by (simp add: scheduler_check_def yield_wf sched_wf_tick)

end
