(* ===== verification/Scheduler_Run.thy ===== *)
theory Scheduler_Run
  imports Scheduler_Inv
begin

text \<open>
  Creating processes, the frames they start from, and the system as a whole as a step relation.

  \<open>sched_inv\<close> adds to \<open>sched_wf\<close> that every process control block is a live heap block and that the heap's blocks
  own their pages; it is what makes the pointer of a new process differ from all others.
\<close>

section \<open>Allocation leaves the outer layers alone\<close>

lemma con_more: "heap_sys.more (con_puts str col s) = heap_sys.more (s :: 'a heap_sys_scheme)"
  by (simp add: con_puts_def)

lemma pmm_more:
  "heap_sys.more (snd (pmm_alloc_page s)) = heap_sys.more (s :: 'a heap_sys_scheme)"
  "heap_sys.more (pmm_free_page a s) = heap_sys.more (s :: 'a heap_sys_scheme)"
  by (simp_all add: pmm_alloc_page_def pmm_free_page_def Let_def con_puts_def split: option.split)

lemma free_run_more: "heap_sys.more (free_page_run a n s) = heap_sys.more (s :: 'a heap_sys_scheme)"
  by (induction n) (simp_all add: free_page_run_def pmm_more)

lemma alloc_more_more:
  "heap_sys.more (snd (alloc_more_pages page i n s)) = heap_sys.more (s :: 'a heap_sys_scheme)"
proof (induction page i n s rule: alloc_more_pages.induct)
  case (1 page i n s)
  obtain q t where qt: "pmm_alloc_page s = (q, t)" by force
  then have "heap_sys.more t = heap_sys.more s" using pmm_more(1) [of s] by simp
  then show ?case using 1 qt by (subst alloc_more_pages.simps) (simp add: free_run_more split: if_splits)
qed

lemma create_block_more: "heap_sys.more (snd (create_block n s)) = heap_sys.more (s :: 'a heap_sys_scheme)"
proof -
  obtain page s1 where a: "pmm_alloc_page s = (page, s1)" by force
  obtain ok s2 where m: "alloc_more_pages page 1 (page_count (block_size n)) s1 = (ok, s2)" by force
  have "heap_sys.more s1 = heap_sys.more s" using pmm_more(1) [of s] a by simp
  moreover have "heap_sys.more s2 = heap_sys.more s1"
    using alloc_more_more [of page 1 "page_count (block_size n)" s1] m by simp
  ultimately show ?thesis unfolding create_block_unfold Let_def a m prod.case by simp
qed

lemma kmalloc_more:
  assumes "kmalloc sz s = Some (p, t)"
  shows "heap_sys.more t = heap_sys.more (s :: 'a heap_sys_scheme)"
proof -
  obtain b u where bu: "create_block (align4 sz) s = (b, u)" by force
  then have "heap_sys.more u = heap_sys.more s" using create_block_more [of "align4 sz" s] by simp
  then show ?thesis
    using assms bu by (auto simp add: kmalloc_def Let_def split: if_splits option.splits)
qed

lemma kmalloc_sched_frames:
  fixes s t :: "'a sched_sys_scheme"
  assumes "kmalloc sz s = Some (p, t)"
  shows "processes t = processes s" "proc_mem t = proc_mem s" "stack_mem t = stack_mem s"
    "current_process t = current_process s" "process_count t = process_count s" "next_pid t = next_pid s"
    "schedule_needed t = schedule_needed s" "tick_counter t = tick_counter s" "tss_entry t = tss_entry s"
proof -
  have "heap_sys.more t = heap_sys.more s" by (rule kmalloc_more [OF assms])
  then show "processes t = processes s" "proc_mem t = proc_mem s" "stack_mem t = stack_mem s"
    "current_process t = current_process s" "process_count t = process_count s" "next_pid t = next_pid s"
    "schedule_needed t = schedule_needed s" "tick_counter t = tick_counter s" "tss_entry t = tss_entry s"
    by (cases s; cases t; simp)+
qed

section \<open>Frames on a stack\<close>

lemma push_all_snoc: "push_all (vs @ [v]) tm = push32 v (push_all vs tm)"
  by (simp add: push_all_def)

lemma push_all_top: "fst (push_all vs (tp, m)) = tp - of_nat (4 * length vs)"
  by (induction vs rule: rev_induct) (simp_all add: push_all_def push32_def)

lemma diff_same_left: "(a :: 'b :: ab_group_add) - b = a - c \<longleftrightarrow> b = c"
  by (auto simp add: diff_eq_eq)

lemma push_all_below:
  "length vs \<le> 1000 \<Longrightarrow> i < length vs \<Longrightarrow> snd (push_all vs (tp, m)) (tp - of_nat (4 * Suc i)) = vs ! i"
proof (induction vs arbitrary: i rule: rev_induct)
  case (snoc v vs)
  let ?n = "length vs"
  have eq: "push_all (vs @ [v]) (tp, m) =
      (tp - of_nat (4 * Suc ?n), (snd (push_all vs (tp, m)))(tp - of_nat (4 * Suc ?n) := v))"
    by (simp add: push_all_snoc push32_def push_all_top diff_diff_eq ac_simps)
  have "unat (of_nat (4 * Suc i) :: u32) = 4 * Suc i" "unat (of_nat (4 * Suc ?n) :: u32) = 4 * Suc ?n"
    unfolding unat_of_nat using snoc.prems by simp_all
  then have "of_nat (4 * Suc i) = (of_nat (4 * Suc ?n) :: u32) \<longleftrightarrow> i = ?n"
    by (metis Suc_inject mult_cancel1 zero_neq_numeral)
  then have "tp - of_nat (4 * Suc i) = tp - (of_nat (4 * Suc ?n) :: u32) \<longleftrightarrow> i = ?n"
    by (simp only: diff_same_left)
  then show ?case
    unfolding eq using snoc by (auto simp add: nth_append less_Suc_eq simp del: of_nat_mult of_nat_Suc)
qed simp

lemma push_all_read:
  assumes "length vs \<le> 1000" and "j < length vs"
  shows "snd (push_all vs (tp, m)) (fst (push_all vs (tp, m)) + of_nat (4 * j)) = rev vs ! j"
proof -
  let ?i = "length vs - Suc j"
  have "4 * length vs = 4 * Suc ?i + 4 * j" using assms(2) by simp
  then have "(of_nat (4 * length vs) :: u32) = of_nat (4 * Suc ?i) + of_nat (4 * j)" by (metis of_nat_add)
  then have "fst (push_all vs (tp, m)) + of_nat (4 * j) = tp - of_nat (4 * Suc ?i)"
    unfolding push_all_top by (simp only: add_diff_eq diff_diff_eq [symmetric] diff_add_cancel)
  then show ?thesis using push_all_below [of vs ?i tp m] assms by (simp add: rev_nth del: of_nat_mult of_nat_Suc)
qed

text \<open>The registers, and the sequence that ends every switch: four \<open>pop\<close>s, \<open>popa\<close>, \<open>iretd\<close>.\<close>

record cpu_regs =
  r_gs :: u32
  r_fs :: u32
  r_es :: u32
  r_ds :: u32
  r_edi :: u32
  r_esi :: u32
  r_ebp :: u32
  r_ebx :: u32
  r_edx :: u32
  r_ecx :: u32
  r_eax :: u32
  r_eip :: u32
  r_cs :: u32
  r_eflags :: u32
  r_esp :: u32
  r_ss :: u32

definition restore_frame :: "(u32 \<Rightarrow> u32) \<Rightarrow> u32 \<Rightarrow> cpu_regs \<Rightarrow> cpu_regs" where
  "restore_frame m esp r =
     (let w = (\<lambda>i. m (esp + of_nat (4 * i)));
          r = r\<lparr>r_gs := w 0, r_fs := w 1, r_es := w 2, r_ds := w 3,
                r_edi := w 4, r_esi := w 5, r_ebp := w 6, r_ebx := w 8, r_edx := w 9, r_ecx := w 10,
                r_eax := w 11, r_eip := w 12, r_cs := w 13, r_eflags := w 14\<rparr>
      in if w 13 AND 3 = 3
         then r\<lparr>r_esp := w 15, r_ss := w 16\<rparr> else r\<lparr>r_esp := esp + 60\<rparr>)"

text \<open>The entry of \<open>scheduler_yield_asm\<close>, up to the call of \<open>scheduler_yield_impl\<close>.\<close>

definition yield_frame :: "(u32 \<Rightarrow> u32) \<Rightarrow> cpu_regs \<Rightarrow> u32 list" where
  "yield_frame m r =
     (let ret = m (r_esp r)
      in [r_eflags r, 0x08, ret, ret, r_ecx r, r_edx r, r_ebx r, r_esp r + 4 - 12, r_ebp r, r_esi r, r_edi r,
          r_ds r, r_es r, r_fs r, r_gs r])"

definition yield_save :: "cpu_regs \<Rightarrow> (u32 \<Rightarrow> u32) \<Rightarrow> u32 \<times> (u32 \<Rightarrow> u32)" where
  "yield_save r m = push_all (yield_frame m r) (r_esp r + 4, m)"

lemma frame_read:
  assumes "length vs \<le> 1000" and "push_all vs (tp, m) = (esp, m')"
  shows "j < length vs \<Longrightarrow> m' (esp + of_nat (4 * j)) = rev vs ! j" and "esp = tp - of_nat (4 * length vs)"
  using push_all_read [OF assms(1), of j tp m] push_all_top [of vs tp m] assms(2) by simp_all

lemma restore_kernel_frame:
  assumes "push_all (kernel_frame img) (tp, m) = (esp, m')"
  shows "restore_frame m' esp r = r\<lparr>r_gs := 0x10, r_fs := 0x10, r_es := 0x10, r_ds := 0x10,
     r_edi := 0, r_esi := 0, r_ebp := 0, r_ebx := 0, r_edx := 0, r_ecx := 0, r_eax := 0,
     r_eip := addr_process_wrapper img, r_cs := 0x08, r_eflags := 0x202, r_esp := tp\<rparr>"
proof -
  have len: "length (kernel_frame img) = 15" by (simp add: kernel_frame_def)
  note rd = frame_read(1) [OF _ assms, unfolded len]
  note rds = rd [of 0] rd [of 1] rd [of 2] rd [of 3] rd [of 4] rd [of 5] rd [of 6] rd [of 8] rd [of 9] rd [of 10]
    rd [of 11] rd [of 12] rd [of 13] rd [of 14]
  have esp: "esp = tp - 60" using frame_read(2) [OF _ assms] len by simp
  show ?thesis using rds by (simp add: restore_frame_def Let_def kernel_frame_def esp)
qed

lemma restore_user_frame:
  assumes "push_all (user_frame proc entry) (tp, m) = (esp, m')"
  shows "restore_frame m' esp r = r\<lparr>r_gs := 0x23, r_fs := 0x23, r_es := 0x23, r_ds := 0x23,
     r_edi := 0, r_esi := 0, r_ebp := 0, r_ebx := 0, r_edx := 0, r_ecx := 0, r_eax := 0,
     r_eip := entry, r_cs := 0x1B, r_eflags := 0x202, r_esp := stack_addr proc 3840, r_ss := 0x23\<rparr>"
proof -
  have len: "length (user_frame proc entry) = 17" by (simp add: user_frame_def)
  note rd = frame_read(1) [OF _ assms, unfolded len]
  note rds = rd [of 0] rd [of 1] rd [of 2] rd [of 3] rd [of 4] rd [of 5] rd [of 6] rd [of 8] rd [of 9] rd [of 10]
    rd [of 11] rd [of 12] rd [of 13] rd [of 14] rd [of 15] rd [of 16]
  show ?thesis using rds by (simp add: restore_frame_def Let_def user_frame_def)
qed

lemma restore_yield_frame:
  assumes "yield_save r m = (esp, m')" and "r_cs r = 0x08"
  shows "restore_frame m' esp q =
    r\<lparr>r_eax := m (r_esp r), r_eip := m (r_esp r), r_esp := r_esp r + 4, r_ss := r_ss q\<rparr>"
proof -
  have len: "length (yield_frame m r) = 15" by (simp add: yield_frame_def Let_def)
  have push: "push_all (yield_frame m r) (r_esp r + 4, m) = (esp, m')" using assms(1) by (simp add: yield_save_def)
  note rd = frame_read(1) [OF _ push, unfolded len]
  note rds = rd [of 0] rd [of 1] rd [of 2] rd [of 3] rd [of 4] rd [of 5] rd [of 6] rd [of 8] rd [of 9] rd [of 10]
    rd [of 11] rd [of 12] rd [of 13] rd [of 14]
  have esp: "esp = r_esp r + 4 - 60" using frame_read(2) [OF _ push] len by simp
  show ?thesis using rds assms(2) by (cases r; cases q) (simp add: restore_frame_def Let_def yield_frame_def esp)
qed

section \<open>Process creation\<close>

definition heap_view :: "'a heap_sys_scheme \<Rightarrow> pmm_t \<times> u32 \<times> u32 \<times> u32 \<times> (u32 \<Rightarrow> heap_block_t)" where
  "heap_view s = (pmm s, heap_head s, heap_total s, heap_used s, heap_mem s)"

lemma heap_owns_view: "heap_view t = heap_view s \<Longrightarrow> heap_owns t xs \<longleftrightarrow> heap_owns s xs"
  by (simp add: heap_view_def heap_owns_def heap_wf_def heap_accounts_def block_pages_def)

lemma live_blocks_view: "heap_view t = heap_view s \<Longrightarrow> live_blocks t xs = live_blocks s xs"
  by (simp add: heap_view_def live_blocks_def)

definition sched_inv :: "'a sched_sys_scheme \<Rightarrow> bool" where
  "sched_inv s \<longleftrightarrow> sched_wf s \<and>
     (\<exists>xs. heap_owns s xs \<and> (\<forall>i < slots_used s. \<exists>n. (processes s i - HEADER_SIZE, n) \<in> live_blocks s xs))"

lemma sched_inv_view:
  assumes "sched_inv s" and "sched_wf t" and "heap_view t = heap_view s"
    and "processes t = processes s" and "process_count t = process_count s"
  shows "sched_inv t"
  using assms heap_owns_view [OF assms(3)] live_blocks_view [OF assms(3)] by (simp add: sched_inv_def)

text \<open>Adding the block at \<open>p\<close> as a new last slot.\<close>

lemma new_slot_wf:
  fixes s t :: "'a sched_sys_scheme"
  assumes wf: "sched_wf s" and n: "slots_used s < 16" and p: "p \<noteq> 0" "p \<notin> processes s ` {..<slots_used s}"
    and t: "processes t = (processes s)(slots_used s := p)" "process_count t = process_count s + 1"
      "next_pid t = next_pid s + 1" "current_process t = current_process s"
      "\<And>q. q \<noteq> p \<Longrightarrow> proc_mem t q = proc_mem s q"
      "pid (proc_mem t p) = next_pid s" "p_state (proc_mem t p) = PROCESS_READY"
    and cur: "0 < slots_used s"
  shows "sched_wf t"
proof -
  let ?n = "slots_used s"
  have tab: "sched_tab s" and states: "sched_states s" using wf by (simp_all add: sched_wf_def)
  have nt: "slots_used t = Suc ?n" using n t(2) by (simp add: unat_plus_one_no_wrap)
  have old: "slot t i = slot s i" if "i < ?n" for i
  proof -
    have "processes s i \<noteq> p" using p(2) that by auto
    then show ?thesis using that t(1,5) by (simp add: slot_def)
  qed
  have new: "slot t ?n = proc_mem t p" using t(1) by (simp add: slot_def)
  have np: "next_pid s = of_nat (Suc ?n)" using tab by (simp add: sched_tab_def)
  have "processes t i \<noteq> 0 \<and> pid (slot t i) = of_nat (Suc i)" if "i < Suc ?n" for i
    using that tab old [of i] new np t(1,6) p(1) by (cases "i = ?n") (auto simp add: sched_tab_def)
  moreover have "inj_on (processes t) {..<Suc ?n}"
    using tab p(2) t(1) by (auto simp add: sched_tab_def inj_on_def lessThan_Suc)
  moreover have "next_pid t = process_count t + 1" using t(2,3) tab by (simp add: sched_tab_def)
  ultimately have tab': "sched_tab t" using nt n t(4) current_slot [OF tab cur] by (simp add: sched_tab_def)
  have st: "state_of t i = (if i < ?n then state_of s i else PROCESS_READY)" if "i < Suc ?n" for i
    using that old [of i] new t(7) by (auto simp add: state_of_def less_Suc_eq)
  have "i = unat (current_process t)" if "i < Suc ?n" "state_of t i = PROCESS_RUNNING" for i
    using that st [OF that(1)] states t(4) by (auto simp add: sched_states_def split: if_splits)
  moreover have "\<exists>j < Suc ?n. waiting_for_pid (slot t i) = pid (slot t j) \<and> state_of t j \<noteq> PROCESS_TERMINATED"
    if i: "i < Suc ?n" "state_of t i = PROCESS_BLOCKED" for i
  proof -
    have b: "i < ?n" "state_of s i = PROCESS_BLOCKED" using st [OF i(1)] i(2) by (auto split: if_splits)
    then obtain j where j: "j < ?n" "waiting_for_pid (slot s i) = pid (slot s j)" "state_of s j \<noteq> PROCESS_TERMINATED"
      using states unfolding sched_states_def by blast
    then have "waiting_for_pid (slot t i) = pid (slot t j)" "state_of t j \<noteq> PROCESS_TERMINATED" "j < Suc ?n"
      using old [OF j(1)] old [OF b(1)] st [of j] by simp_all
    then show ?thesis by blast
  qed
  ultimately have "sched_states t" unfolding sched_states_def nt by blast
  with tab' show ?thesis by (simp add: sched_wf_def)
qed

lemma proc_setup_frames:
  "processes (proc_setup st e name p s) = processes s" "process_count (proc_setup st e name p s) = process_count s"
  "current_process (proc_setup st e name p s) = current_process s" "stack_mem (proc_setup st e name p s) = stack_mem s"
  "next_pid (proc_setup st e name p s) = next_pid s + 1" "heap_view (proc_setup st e name p s) = heap_view s"
  "proc_mem (proc_setup st e name p s) = (proc_mem s)(p := (proc_mem s p)\<lparr>pid := next_pid s, p_state := st,
     entry_point := e, exit_code := 0, waiting_for_pid := 0, p_name := copy_name name\<rparr>)"
  by (simp_all add: proc_setup_def upd_proc_def heap_view_def Let_def)

lemma proc_context_frames:
  "processes (proc_context p esp s) = processes s" "process_count (proc_context p esp s) = process_count s"
  "current_process (proc_context p esp s) = current_process s" "stack_mem (proc_context p esp s) = stack_mem s"
  "next_pid (proc_context p esp s) = next_pid s" "heap_view (proc_context p esp s) = heap_view s"
  "proc_mem (proc_context p esp s) = (proc_mem s)(p := (proc_mem s p)
     \<lparr>cpu_context := (cpu_context (proc_mem s p))\<lparr>ctx_esp := esp, ctx_eflags := 0x202\<rparr>\<rparr>)"
  by (simp_all add: proc_context_def upd_proc_def heap_view_def)

lemma heap_view_upd:
  "heap_view (s\<lparr>stack_mem := m\<rparr>) = heap_view s" "heap_view (s\<lparr>processes := a\<rparr>) = heap_view s"
  "heap_view (s\<lparr>process_count := c\<rparr>) = heap_view s" "heap_view (s\<lparr>current_process := c\<rparr>) = heap_view s"
  "heap_view (s\<lparr>tick_counter := k\<rparr>) = heap_view s" "heap_view (s\<lparr>schedule_needed := b\<rparr>) = heap_view s"
  "heap_view (upd_proc p f s) = heap_view s" "heap_view (tss_set_kernel_stack kstack s) = heap_view s"
  by (simp_all add: heap_view_def upd_proc_def tss_set_kernel_stack_def)

lemma con_view:
  "heap_view (con_puts str col s) = heap_view s" "heap_view (con_putc c col s) = heap_view s"
  "stack_mem (con_puts str col s) = stack_mem s" "stack_mem (con_putc c col s) = stack_mem s"
  by (simp_all add: heap_view_def con_puts_def con_putc_def)

text \<open>The block \<open>kmalloc\<close> returns for a new process is no process of the table.\<close>

lemma kmalloc_process:
  fixes s :: "'a sched_sys_scheme"
  assumes owns: "heap_owns s xs" and live: "\<forall>i < slots_used s. \<exists>n. (processes s i - HEADER_SIZE, n) \<in> live_blocks s xs"
    and run: "free_frames (pmm s) \<noteq> {} \<longrightarrow> run_available SIZEOF_PROCESS (pmm s)"
  shows "\<exists>p t ys. kmalloc SIZEOF_PROCESS s = Some (p, t) \<and> heap_owns t ys \<and>
    (\<forall>i < slots_used s. \<exists>n. (processes s i - HEADER_SIZE, n) \<in> live_blocks t ys) \<and>
    (p = 0 \<and> free_frames (pmm s) = {} \<or>
     p \<noteq> 0 \<and> p \<notin> processes s ` {..<slots_used s} \<and> (\<exists>n. (p - HEADER_SIZE, n) \<in> live_blocks t ys))"
proof -
  have "unat SIZEOF_PROCESS \<le> 0xFFFFEFE0" by simp
  from kmalloc_outcome [OF owns _ this run] obtain t ys where t: "heap_owns t ys" and
    out: "(kmalloc SIZEOF_PROCESS s = Some (0, t) \<and> free_frames (pmm s) = {} \<and> ys = xs \<and> live_blocks t ys = live_blocks s xs)
     \<or> (\<exists>x n. kmalloc SIZEOF_PROCESS s = Some (x + HEADER_SIZE, t) \<and> x \<in> set ys \<and> set xs \<subseteq> set ys \<and>
          hb_size (heap_mem t x) = n \<and> unat SIZEOF_PROCESS + 16 \<le> unat n \<and>
          live_blocks t ys = insert (x, n) (live_blocks s xs) \<and> (\<forall>k. (x, k) \<notin> live_blocks s xs))"
    by auto
  from out show ?thesis
  proof (elim disjE exE conjE)
    assume "kmalloc SIZEOF_PROCESS s = Some (0, t)" "free_frames (pmm s) = {}" "live_blocks t ys = live_blocks s xs"
    then show ?thesis using t live by (intro exI [of _ 0] exI [of _ t] exI [of _ ys]) simp
  next
    fix x n assume x: "kmalloc SIZEOF_PROCESS s = Some (x + HEADER_SIZE, t)" "x \<in> set ys"
      "live_blocks t ys = insert (x, n) (live_blocks s xs)" "\<forall>k. (x, k) \<notin> live_blocks s xs"
    have "x mod PAGE_SIZE = 0" using t x(2) by (simp add: heap_owns_def)
    then have nz: "x + HEADER_SIZE \<noteq> 0" by (rule aligned_plus_header)
    have "x + HEADER_SIZE \<notin> processes s ` {..<slots_used s}"
    proof
      assume "x + HEADER_SIZE \<in> processes s ` {..<slots_used s}"
      then obtain i where i: "i < slots_used s" "processes s i = x + HEADER_SIZE" by auto
      then have "processes s i - HEADER_SIZE = x" by simp
      with live x(4) i(1) show False by metis
    qed
    moreover have "\<forall>i < slots_used s. \<exists>n. (processes s i - HEADER_SIZE, n) \<in> live_blocks t ys"
      using live x(3) by blast
    moreover have "(x + HEADER_SIZE - HEADER_SIZE, n) \<in> live_blocks t ys" using x(3) by simp
    ultimately show ?thesis using x(1) t nz by blast
  qed
qed

lemma add_common_effect:
  fixes s :: "'a sched_sys_scheme"
  assumes inv: "sched_inv s" and cur: "0 < slots_used s"
    and run: "free_frames (pmm s) \<noteq> {} \<longrightarrow> run_available SIZEOF_PROCESS (pmm s)"
  shows "\<exists>t. add_common w msg col e name s = Some t \<and> sched_inv t \<and>
    (if slots_used s = 16 \<or> process_count t = process_count s
     then slots_used s = 16 \<or> free_frames (pmm s) = {}
     else \<exists>p. process_count t = process_count s + 1 \<and> processes t (slots_used s) = p \<and>
       p \<notin> processes s ` {..<slots_used s} \<and>
       pid (slot t (slots_used s)) = next_pid s \<and> state_of t (slots_used s) = PROCESS_READY \<and>
       entry_point (slot t (slots_used s)) = e \<and> p_name (slot t (slots_used s)) = take 31 name \<and>
       push_all (w p) (stack_addr p KERNEL_STACK_SIZE, stack_mem s) =
         (ctx_esp (cpu_context (slot t (slots_used s))), stack_mem t))"
proof (cases "process_count s \<ge> MAX_PROCESSES")
  case True
  have wf: "sched_wf s" and "slots_used s = 16"
    using inv True by (auto simp add: sched_inv_def sched_wf_def sched_tab_def word_le_nat_alt)
  moreover have "sched_inv (con_puts m c s)" for m c
    by (rule sched_inv_view [OF inv]) (use wf in \<open>simp_all add: con_view sched_wf_def sched_states_def\<close>)
  ultimately show ?thesis using True by (simp add: add_common_def)
next
  case False
  then have n: "slots_used s < 16" by (simp add: word_le_nat_alt)
  have wf: "sched_wf s" using inv by (simp add: sched_inv_def)
  obtain xs where "heap_owns s xs" "\<forall>i < slots_used s. \<exists>n. (processes s i - HEADER_SIZE, n) \<in> live_blocks s xs"
    using inv by (auto simp add: sched_inv_def)
  from kmalloc_process [OF this run] obtain p u ys where
    u: "kmalloc SIZEOF_PROCESS s = Some (p, u)" "heap_owns u ys"
      "\<forall>i < slots_used s. \<exists>n. (processes s i - HEADER_SIZE, n) \<in> live_blocks u ys"
    and p: "p = 0 \<and> free_frames (pmm s) = {} \<or>
     p \<noteq> 0 \<and> p \<notin> processes s ` {..<slots_used s} \<and> (\<exists>n. (p - HEADER_SIZE, n) \<in> live_blocks u ys)" by blast
  note fr = kmalloc_sched_frames [OF u(1)]
  have wfu: "sched_wf u" using wf fr by (simp add: sched_wf_def sched_tab_def sched_states_def state_of_def slot_def)
  have invu: "sched_inv u" using wfu u(2,3) fr by (auto simp add: sched_inv_def)
  show ?thesis
  proof (cases "p = 0")
    case True
    have "sched_inv (con_puts m c u)" for m c
      by (rule sched_inv_view [OF invu]) (use wfu in \<open>simp_all add: con_view sched_wf_def sched_states_def\<close>)
    then show ?thesis using True p False u(1) fr(5) by (simp add: add_common_def)
  next
    case False
    with p have pn: "p \<notin> processes s ` {..<slots_used s}" "\<exists>n. (p - HEADER_SIZE, n) \<in> live_blocks u ys" by simp_all
    obtain esp m where push: "push_all (w p) (stack_addr p KERNEL_STACK_SIZE, stack_mem u) = (esp, m)" by force
    define v where "v = proc_context p esp (proc_setup PROCESS_READY e name p u\<lparr>stack_mem := m\<rparr>)"
    define t where "t = con_putc ch_nl col (con_puts (p_name (proc_mem v p)) col (con_puts msg col
      (v\<lparr>processes := (processes v)(unat (process_count v) := p), process_count := process_count v + 1\<rparr>)))"
    have add: "add_common w msg col e name s = Some t"
      using \<open>\<not> MAX_PROCESSES \<le> process_count s\<close> False u(1) push
      by (simp add: add_common_def proc_setup_frames t_def v_def Let_def)
    have tf: "processes t = (processes s)(slots_used s := p)" "process_count t = process_count s + 1"
      "next_pid t = next_pid s + 1" "current_process t = current_process s" "stack_mem t = m" "heap_view t = heap_view u"
      "proc_mem t = (proc_mem s)(p := (proc_mem s p)\<lparr>pid := next_pid s, p_state := PROCESS_READY,
         entry_point := e, exit_code := 0, waiting_for_pid := 0, p_name := copy_name name,
         cpu_context := (cpu_context (proc_mem s p))\<lparr>ctx_esp := esp, ctx_eflags := 0x202\<rparr>\<rparr>)"
      by (simp_all add: t_def v_def proc_setup_frames proc_context_frames con_view fr heap_view_upd)
    have wft: "sched_wf t" using tf by (intro new_slot_wf [OF wf n False pn(1) tf(1-4) _ _ _ cur]) simp_all
    have nt: "slots_used t = Suc (slots_used s)" using n tf(2) by (simp add: unat_plus_one_no_wrap)
    have "\<forall>i < slots_used t. \<exists>k. (processes t i - HEADER_SIZE, k) \<in> live_blocks t ys"
      using u(3) pn(2) live_blocks_view [OF tf(6)] unfolding nt by (auto simp add: tf(1) less_Suc_eq)
    then have "sched_inv t" using wft u(2) heap_owns_view [OF tf(6)] unfolding sched_inv_def by blast
    moreover have "slots_used s \<noteq> 16" "process_count t \<noteq> process_count s" using n tf(2) by simp_all
    moreover have "slot t (slots_used s) = proc_mem t p" by (simp add: slot_def tf(1))
    ultimately show ?thesis using add pn(1) push tf fr(3)
      by (simp add: state_of_def copy_name_def)
  qed
qed

lemma convert_effect:
  fixes s :: "'a sched_sys_scheme"
  assumes owns: "heap_owns s xs" and zero: "process_count s = 0" "next_pid s = 1"
    and run: "run_available SIZEOF_PROCESS (pmm s)"
  shows "\<exists>t. scheduler_convert_current_process name s = Some t \<and> sched_inv t \<and> process_count t = 1 \<and>
    state_of t 0 = PROCESS_RUNNING \<and> pid (slot t 0) = 1"
proof -
  have ne: "free_frames (pmm s) \<noteq> {}" using run by (simp add: run_available_def)
  from kmalloc_process [OF owns _ impI [OF run]] zero(1) ne obtain p u ys where
    u: "kmalloc SIZEOF_PROCESS s = Some (p, u)" "heap_owns u ys" and p: "p \<noteq> 0" "\<exists>n. (p - HEADER_SIZE, n) \<in> live_blocks u ys"
    by auto
  note fr = kmalloc_sched_frames [OF u(1)]
  define v where "v = proc_context p 0 (proc_setup PROCESS_RUNNING 0 name p u)"
  define t where "t = con_putc ch_nl 0x1A (con_puts (p_name (proc_mem v p)) 0x1A
    (con_puts (lit ''[SCHEDULER] Converted current process: '') 0x1A
      (v\<lparr>processes := (processes v)(0 := p), process_count := 1, current_process := 0\<rparr>)))"
  have conv: "scheduler_convert_current_process name s = Some t"
    using zero(1) u(1) p(1) by (simp add: scheduler_convert_current_process_def Let_def t_def v_def)
  have tf: "processes t = (processes s)(0 := p)" "process_count t = 1" "next_pid t = 2" "current_process t = 0"
    "heap_view t = heap_view u" "slot t 0 = proc_mem t p"
    "pid (proc_mem t p) = 1" "p_state (proc_mem t p) = PROCESS_RUNNING"
    by (simp_all add: t_def v_def proc_setup_frames proc_context_frames con_view fr heap_view_upd zero slot_def)
  have "sched_wf t"
    using tf p(1) by (simp add: sched_wf_def sched_tab_def sched_states_def state_of_def inj_on_def)
  moreover have "\<exists>n. (processes t 0 - HEADER_SIZE, n) \<in> live_blocks t ys"
    using p(2) live_blocks_view [OF tf(5)] tf(1) by simp
  ultimately have "sched_inv t" using u(2) heap_owns_view [OF tf(5)] tf(2) unfolding sched_inv_def by auto
  then show ?thesis using conv tf by (auto simp add: state_of_def)
qed

section \<open>The other operations do not touch the heap\<close>

lemma yield_view: "heap_view (scheduler_yield esp s) = heap_view s"
  by (simp add: scheduler_yield_def scheduler_yield_impl_def switch_to_def Let_def heap_view_upd split: option.split)

lemma wake_view: "heap_view (wake_waiters p s) = heap_view s"
proof -
  have "heap_view (fold (wake_one p) is s) = heap_view s" for "is"
    by (induction "is" arbitrary: s) (simp_all add: wake_one_def heap_view_upd)
  then show ?thesis by (simp add: wake_waiters_def)
qed

lemma exit_view: "heap_view (process_exit code esp s) = heap_view s"
  by (simp add: process_exit_def Let_def yield_view wake_view con_view heap_view_upd)

lemma kill_view: "heap_view (snd (process_kill p esp s)) = heap_view s"
proof -
  have "heap_view (snd (kill_scan p esp is s)) = heap_view s" for "is"
    by (induction "is") (simp_all add: Let_def yield_view wake_view con_view heap_view_upd)
  then show ?thesis by (simp add: process_kill_def case_prod_beta)
qed

lemma wait_view: "heap_view (snd (process_wait p s)) = heap_view s"
  "heap_view (snd (process_wait_loop tgt esp s)) = heap_view s"
  by (simp_all add: process_wait_def process_wait_loop_def Let_def heap_view_upd yield_view)

lemma tick_view: "heap_view (scheduler_tick s) = heap_view s"
  by (simp add: scheduler_tick_def Let_def heap_view_upd)

lemma check_view: "heap_view (scheduler_check esp s) = heap_view s"
  by (simp add: scheduler_check_def yield_view heap_view_upd)

section \<open>The scheduler as a transition system\<close>

text \<open>
  One step is one call into the scheduler, with any stack pointer: the timer tick, the switch that an interrupt or a
  yield makes, the termination, killing and waiting of processes, and the creation of a process when the page
  allocator can serve its control block.
\<close>

inductive sched_step :: "image \<Rightarrow> 'a sched_sys_scheme \<Rightarrow> 'a sched_sys_scheme \<Rightarrow> bool" for img where
  step_tick: "sched_step img s (scheduler_tick s)"
| step_yield: "sched_step img s (scheduler_yield esp s)"
| step_check: "sched_step img s (scheduler_check esp s)"
| step_exit: "sched_step img s (process_exit code esp s)"
| step_kill: "sched_step img s (snd (process_kill p esp s))"
| step_wait: "sched_step img s (snd (process_wait p s))"
| step_wait_loop: "sched_step img s (snd (process_wait_loop target esp s))"
| step_add: "free_frames (pmm s) \<noteq> {} \<longrightarrow> run_available SIZEOF_PROCESS (pmm s) \<Longrightarrow>
    scheduler_add_process img entry name s = Some t \<Longrightarrow> sched_step img s t"
| step_add_user: "free_frames (pmm s) \<noteq> {} \<longrightarrow> run_available SIZEOF_PROCESS (pmm s) \<Longrightarrow>
    scheduler_add_user_process entry name s = Some t \<Longrightarrow> sched_step img s t"

inductive sched_run :: "image \<Rightarrow> 'a sched_sys_scheme \<Rightarrow> 'a sched_sys_scheme \<Rightarrow> bool" for img where
  run_refl: "sched_run img s s"
| run_step: "sched_run img s t \<Longrightarrow> sched_step img t u \<Longrightarrow> sched_run img s u"

inductive_cases sched_stepE: "sched_step img s t"

definition sched_live :: "'a sched_sys_scheme \<Rightarrow> bool" where
  "sched_live s \<longleftrightarrow> sched_inv s \<and> 0 < slots_used s"

lemma sched_live_keep:
  assumes "sched_live s" and "sched_wf t" and "heap_view t = heap_view s" and "same_table s t"
  shows "sched_live t"
  using assms sched_inv_view [of s t] by (simp add: sched_live_def same_table_def)

lemma exit_same_table: "sched_tab s \<Longrightarrow> 0 < slots_used s \<Longrightarrow> same_table s (process_exit code esp s)"
proof -
  assume tab: "sched_tab s" and n: "0 < slots_used s"
  from process_exit_effect [OF tab n, of code esp] obtain t where
    t: "terminated (unat (current_process s)) code s t" "process_exit code esp s = scheduler_yield esp t" by blast
  then have st: "same_table s t" "current_process t = current_process s" by (simp_all add: terminated_def)
  then have "sched_tab t" using same_table_tab [OF st(1) tab] tab by (simp add: sched_tab_def)
  then show ?thesis using t(2) same_table_trans [OF st(1)] yield_same_table [of t esp] by simp
qed

lemma kill_same_table: "sched_tab s \<Longrightarrow> same_table s (snd (process_kill p esp s))"
proof -
  assume tab: "sched_tab s"
  from process_kill_effect [OF tab, of p esp] show ?thesis
  proof (elim disjE exE conjE)
    fix k t assume t: "terminated k (- 1) s t"
      "process_kill p esp s = (0, if k = unat (current_process s) then scheduler_yield esp t else t)"
    then have st: "same_table s t" "current_process t = current_process s" by (simp_all add: terminated_def)
    then have "sched_tab t" using same_table_tab [OF st(1) tab] tab by (simp add: sched_tab_def)
    then show ?thesis using t(2) st(1) same_table_trans [OF st(1) yield_same_table] by simp
  qed simp
qed

lemma wait_same_table:
  assumes "sched_tab s" and "0 < slots_used s"
  shows "same_table s (snd (process_wait p s))" and "same_table s (snd (process_wait_loop target esp s))"
proof -
  have "same_table s (upd_proc (processes s (unat (current_process s))) (\<lambda>q. q\<lparr>p_state := PROCESS_BLOCKED, waiting_for_pid := p\<rparr>) s)"
    by (rule same_table_upd [OF assms(1) current_slot [OF assms]]) simp
  with process_wait_effect [OF assms, of p] show "same_table s (snd (process_wait p s))" by auto
  show "same_table s (snd (process_wait_loop target esp s))"
    using yield_same_table [OF assms(1)] by (simp add: process_wait_loop_def)
qed

lemma tick_same_table:
  "same_table s (scheduler_tick s)" "same_table s (s\<lparr>schedule_needed := b\<rparr>)"
  by (simp_all add: scheduler_tick_def Let_def same_table_def slot_def)

lemma check_same_table: "sched_tab s \<Longrightarrow> same_table s (scheduler_check esp s)"
proof -
  assume tab: "sched_tab s"
  then have "sched_tab (s\<lparr>schedule_needed := 0\<rparr>)" by (simp add: sched_tab_def slot_def)
  then show ?thesis
    unfolding scheduler_check_def using same_table_trans [OF tick_same_table(2) [of s 0] yield_same_table [of "s\<lparr>schedule_needed := 0\<rparr>" esp]] by simp
qed

lemma add_live:
  assumes "sched_live s" and "free_frames (pmm s) \<noteq> {} \<longrightarrow> run_available SIZEOF_PROCESS (pmm s)"
    and "add_common w msg col e name s = Some t"
  shows "sched_live t"
proof -
  have inv: "sched_inv s" "0 < slots_used s" using assms(1) by (simp_all add: sched_live_def)
  note ef = add_common_effect [OF inv assms(2), of w msg col e name]
  have "process_count t = process_count s \<or> process_count t = process_count s + 1 \<and> slots_used s \<noteq> 16 \<or> slots_used s = 16"
    using ef assms(3) by (auto split: if_splits)
  moreover have "slots_used s \<le> 16" using inv by (simp add: sched_inv_def sched_wf_def sched_tab_def)
  moreover have "process_count t = process_count s" if "slots_used s = 16"
    using that assms(3) by (auto simp add: add_common_def word_le_nat_alt)
  ultimately have "0 < slots_used t" using inv(2) by (auto simp add: unat_plus_one_no_wrap)
  then show ?thesis using ef assms(3) by (auto simp add: sched_live_def)
qed

lemma sched_step_live:
  assumes "sched_step img s t" and live: "sched_live s"
  shows "sched_live t"
proof -
  have wf: "sched_wf s" and tab: "sched_tab s" and n: "0 < slots_used s"
    using live by (simp_all add: sched_live_def sched_inv_def sched_wf_def)
  from assms(1) show ?thesis
  proof cases
    case step_tick
    then show ?thesis using sched_live_keep [OF live] sched_wf_tick(1) [OF wf] tick_view tick_same_table(1) by metis
  next
    case (step_yield esp)
    then show ?thesis using sched_live_keep [OF live] yield_wf [OF wf] yield_view yield_same_table [OF tab] by metis
  next
    case (step_check esp)
    then show ?thesis using sched_live_keep [OF live] scheduler_check_wf [OF wf] check_view check_same_table [OF tab] by metis
  next
    case (step_exit code esp)
    then show ?thesis using sched_live_keep [OF live] process_exit_wf [OF wf n] exit_view exit_same_table [OF tab n] by metis
  next
    case (step_kill p esp)
    then show ?thesis using sched_live_keep [OF live] process_kill_wf [OF wf] kill_view kill_same_table [OF tab] by metis
  next
    case (step_wait p)
    then show ?thesis using sched_live_keep [OF live] process_wait_wf [OF wf n] wait_view(1) wait_same_table(1) [OF tab n] by metis
  next
    case (step_wait_loop target esp)
    then show ?thesis using sched_live_keep [OF live] process_wait_loop_wf [OF wf] wait_view(2) wait_same_table(2) [OF tab n] by metis
  next
    case (step_add entry name)
    then show ?thesis using add_live [OF live] by (simp add: scheduler_add_process_def)
  next
    case (step_add_user entry name)
    then show ?thesis using add_live [OF live] by (simp add: scheduler_add_user_process_def)
  qed
qed

lemma sched_run_live: "sched_run img s t \<Longrightarrow> sched_live s \<Longrightarrow> sched_live t"
  by (induction rule: sched_run.induct) (simp_all add: sched_step_live)

end
