(* ===== verification/Scheduler_Props.thy ===== *)
theory Scheduler_Props
  imports Scheduler_Run
begin

text \<open>
  The properties of the scheduler, over a table of three processes as the concrete input of the witnesses: the
  first is READY, the second is the current process, and the third waits for the second.
\<close>

definition demo_proc :: "u32 \<Rightarrow> process_state_t \<Rightarrow> u32 \<Rightarrow> process_t" where
  "demo_proc p st w = \<lparr>pid = p, p_state = st, exit_code = 0, waiting_for_pid = w,
     cpu_context = \<lparr>ctx_edi = 0, ctx_esi = 0, ctx_ebp = 0, ctx_esp = 0x900, ctx_ebx = 0, ctx_edx = 0, ctx_ecx = 0,
       ctx_eax = 0, ctx_eflags = 0x202, ctx_eip = 0\<rparr>, entry_point = 0, p_name = lit ''p''\<rparr>"

definition demo_desc :: desc_sys where
  "demo_desc = paging_sys.extend demo_paging
     (desc_sys.fields (\<lambda>_. \<lparr>limit_low = 0, base_low = 0, base_middle = 0, access = 0, granularity = 0, base_high = 0\<rparr>)
       \<lparr>ptr_limit = 0, ptr_base = 0\<rparr> zero_tss
       (\<lambda>_. \<lparr>idt_base_low = 0, idt_sel = 0, idt_always0 = 0, idt_flags = 0, idt_base_high = 0\<rparr>)
       \<lparr>ptr_limit = 0, ptr_base = 0\<rparr>)"

definition demo_image :: image where
  "demo_image = \<lparr>addr_gdt_ptr = 0x100000, addr_gdt_entries = 0x100010, addr_tss_entry = 0x100100,
     addr_idt_ptr = 0x100200, addr_idt_entries = 0x100210, addr_isr = (\<lambda>i. 0x101000 + of_nat i * 16),
     addr_syscall_stub = 0x102000, addr_irq0_stub = 0x102100, addr_irq1_stub = 0x102200,
     addr_process_wrapper = 0x103000\<rparr>"

definition demo_sched :: sched_sys where
  "demo_sched = desc_sys.extend demo_desc
     (sched_sys.fields (\<lambda>_. 0) (\<lambda>_. demo_proc 0 PROCESS_READY 0) (\<lambda>_. 0) 0 0 1 0 0)"

definition demo_table :: sched_sys where
  "demo_table = demo_sched\<lparr>processes := (\<lambda>i. if i = 0 then 0x1010 else if i = 1 then 0x3010 else 0x5010),
     proc_mem := (\<lambda>a. if a = 0x1010 then demo_proc 1 PROCESS_READY 0
                      else if a = 0x3010 then demo_proc 2 PROCESS_RUNNING 0 else demo_proc 3 PROCESS_BLOCKED 2),
     process_count := 3, next_pid := 4, current_process := 1\<rparr>"

lemma demo_sched_fields [simp]:
  "process_count demo_sched = 0" "next_pid demo_sched = 1" "current_process demo_sched = 0"
  "tick_counter demo_sched = 0" "schedule_needed demo_sched = 0" "heap_view demo_sched = heap_view (demo_heap 1 1)"
  by (simp_all add: demo_sched_def desc_sys.extend_def sched_sys.fields_def heap_view_def demo_desc_def
      paging_sys.extend_def desc_sys.fields_def demo_paging_def heap_sys.extend_def paging_sys.fields_def)

lemma demo_table_fields [simp]:
  "process_count demo_table = 3" "next_pid demo_table = 4" "current_process demo_table = 1"
  "slot demo_table 0 = demo_proc 1 PROCESS_READY 0" "slot demo_table 1 = demo_proc 2 PROCESS_RUNNING 0"
  "slot demo_table (Suc 0) = demo_proc 2 PROCESS_RUNNING 0"
  "slot demo_table 2 = demo_proc 3 PROCESS_BLOCKED 2" "tick_counter demo_table = 0" "schedule_needed demo_table = 0"
  by (simp_all add: demo_table_def slot_def)

lemma less_three: "i < (3 :: nat) \<longleftrightarrow> i = 0 \<or> i = 1 \<or> i = 2"
  by auto

lemma demo_table_wf: "sched_wf demo_table"
proof -
  have "sched_tab demo_table"
    unfolding sched_tab_def inj_on_def
    by (auto simp add: less_three demo_proc_def) (auto simp add: demo_table_def split: if_splits)
  moreover have "sched_states demo_table"
    unfolding sched_states_def state_of_def
    by (auto simp add: less_three demo_proc_def intro: exI [of _ 1])
  ultimately show ?thesis by (simp add: sched_wf_def)
qed

lemma demo_sched_owns: "heap_owns demo_sched []"
proof -
  have "heap_owns demo_sched [] \<longleftrightarrow> heap_owns (demo_heap 1 1) []"
    using demo_sched_fields(6) by (simp add: heap_view_def heap_owns_def heap_wf_def heap_accounts_def)
  then show ?thesis using demo_heap_owns by simp
qed

lemma demo_sched_run: "run_available SIZEOF_PROCESS (pmm demo_sched)"
proof -
  have "pmm demo_sched = pmm (demo_heap 1 1)" using demo_sched_fields(6) by (simp add: heap_view_def)
  moreover have "page_count (block_size SIZEOF_PROCESS) = 2" by code_simp
  moreover have "Min {1..<32::nat} = 1" by (rule Min_eqI) auto
  ultimately show ?thesis using demo_heap_free by (simp add: run_available_def)
qed

section \<open>Properties\<close>

text \<open>C3. In every state the scheduler can reach after the boot code has become its first process, the process
  table is well formed: at most 16 slots, a current slot in use, distinct identifiers, only the current process
  RUNNING, and every BLOCKED process waiting for one that has not terminated.\<close>

theorem sched_invariant:
  assumes "heap_owns s xs" and "process_count s = 0" and "next_pid s = 1" and "run_available SIZEOF_PROCESS (pmm s)"
  shows "\<exists>s0. scheduler_convert_current_process name s = Some s0 \<and>
    {t. sched_run img s0 t} \<subseteq>
      {t. slots_used t \<le> 16 \<and> unat (current_process t) < slots_used t \<and>
          inj_on (\<lambda>i. pid (slot t i)) {..<slots_used t} \<and>
          {i. i < slots_used t \<and> state_of t i = PROCESS_RUNNING} \<subseteq> {unat (current_process t)} \<and>
          waiting_for_pid ` slot t ` {i. i < slots_used t \<and> state_of t i = PROCESS_BLOCKED} \<subseteq>
            pid ` slot t ` {j. j < slots_used t \<and> state_of t j \<noteq> PROCESS_TERMINATED}}"
proof -
  obtain s0 where s0: "scheduler_convert_current_process name s = Some s0" "sched_inv s0" "process_count s0 = 1"
    using convert_effect [OF assms, of name] by blast
  then have live: "sched_live s0" by (simp add: sched_live_def)
  have "slots_used t \<le> 16 \<and> unat (current_process t) < slots_used t \<and>
          inj_on (\<lambda>i. pid (slot t i)) {..<slots_used t} \<and>
          {i. i < slots_used t \<and> state_of t i = PROCESS_RUNNING} \<subseteq> {unat (current_process t)} \<and>
          waiting_for_pid ` slot t ` {i. i < slots_used t \<and> state_of t i = PROCESS_BLOCKED} \<subseteq>
            pid ` slot t ` {j. j < slots_used t \<and> state_of t j \<noteq> PROCESS_TERMINATED}"
    if "sched_run img s0 t" for t
  proof -
    have "sched_live t" by (rule sched_run_live [OF that live])
    then have tab: "sched_tab t" and st: "sched_states t" and n: "0 < slots_used t"
      by (simp_all add: sched_live_def sched_inv_def sched_wf_def)
    have "inj_on (\<lambda>i. pid (slot t i)) {..<slots_used t}"
    proof (rule inj_onI)
      fix i j assume a: "i \<in> {..<slots_used t}" "j \<in> {..<slots_used t}" "pid (slot t i) = pid (slot t j)"
      then have eq: "(of_nat (Suc i) :: u32) = of_nat (Suc j)" and "i < 16" "j < 16"
        using tab by (auto simp add: sched_tab_def)
      then have "unat (of_nat (Suc i) :: u32) = Suc i" "unat (of_nat (Suc j) :: u32) = Suc j"
        unfolding unat_of_nat by simp_all
      with eq show "i = j" by simp
    qed
    with tab st n show ?thesis by (fastforce simp add: sched_tab_def sched_states_def)
  qed
  with s0(1) show ?thesis by blast
qed

theorem sched_invariant_witness:
  "\<exists>s0. scheduler_convert_current_process (lit ''KernelMain'') demo_sched = Some s0 \<and>
    {t. sched_run demo_image s0 t} \<subseteq>
      {t. slots_used t \<le> 16 \<and> unat (current_process t) < slots_used t \<and>
          inj_on (\<lambda>i. pid (slot t i)) {..<slots_used t} \<and>
          {i. i < slots_used t \<and> state_of t i = PROCESS_RUNNING} \<subseteq> {unat (current_process t)} \<and>
          waiting_for_pid ` slot t ` {i. i < slots_used t \<and> state_of t i = PROCESS_BLOCKED} \<subseteq>
            pid ` slot t ` {j. j < slots_used t \<and> state_of t j \<noteq> PROCESS_TERMINATED}}"
  by (rule sched_invariant [OF demo_sched_owns _ _ demo_sched_run]) simp_all

text \<open>C11. A yield is round robin: it switches to the first READY slot after the current one in cyclic order, which
  becomes the current and RUNNING process with the kernel stack of its control block in the TSS, while the process
  that ran becomes READY and keeps the stack pointer it was interrupted with; with no other READY slot it returns 0
  and changes nothing.\<close>

theorem yield_round_robin:
  assumes "sched_wf s" and "1 < slots_used s"
  shows "case scheduler_yield_impl esp s of (r, t) \<Rightarrow>
    (if \<exists>k < slots_used s. k \<noteq> unat (current_process s) \<and> state_of s k = PROCESS_READY
     then \<exists>d. state_of s (slot_after s d) = PROCESS_READY \<and>
       (\<forall>e < d. state_of s (slot_after s e) \<noteq> PROCESS_READY) \<and>
       unat (current_process t) = slot_after s d \<and> state_of t (slot_after s d) = PROCESS_RUNNING \<and>
       r = ctx_esp (cpu_context (slot s (slot_after s d))) \<and>
       tss_esp0 (tss_entry t) = stack_addr (processes s (slot_after s d)) KERNEL_STACK_SIZE \<and>
       ctx_esp (cpu_context (slot t (unat (current_process s)))) = esp \<and>
       (state_of s (unat (current_process s)) = PROCESS_RUNNING \<longrightarrow>
         state_of t (unat (current_process s)) = PROCESS_READY)
     else r = 0 \<and> t = s)"
proof -
  have tab: "sched_tab s" using assms(1) by (simp add: sched_wf_def)
  have less: "slot_after s d < slots_used s" for d using assms(2) by (intro slot_after_less) simp
  from yield_impl_cases [OF tab assms(2), of esp] show ?thesis
  proof (elim disjE exE conjE)
    fix d t assume d: "slot_after s d \<noteq> unat (current_process s)" "state_of s (slot_after s d) = PROCESS_READY"
      "\<forall>e < d. state_of s (slot_after s e) \<noteq> PROCESS_READY" "switched esp (slot_after s d) s t"
      "scheduler_yield_impl esp s = (ctx_esp (cpu_context (slot s (slot_after s d))), t)"
    have "\<exists>k < slots_used s. k \<noteq> unat (current_process s) \<and> state_of s k = PROCESS_READY"
      using d(1,2) less by blast
    note ex = this
    have t: "unat (current_process t) = slot_after s d" "state_of t (slot_after s d) = PROCESS_RUNNING"
      "tss_esp0 (tss_entry t) = stack_addr (processes s (slot_after s d)) KERNEL_STACK_SIZE"
      "ctx_esp (cpu_context (slot t (unat (current_process s)))) = esp"
      "state_of s (unat (current_process s)) = PROCESS_RUNNING \<longrightarrow>
         state_of t (unat (current_process s)) = PROCESS_READY"
      using d(4) unfolding switched_def Let_def by (simp_all add: state_of_def)
    show ?thesis unfolding d(5) prod.case if_P [OF ex] using d(2,3) t by blast
  qed auto
qed

theorem yield_round_robin_witness:
  "fst (scheduler_yield_impl 0x800 demo_table) = 0x900 \<and>
   unat (current_process (snd (scheduler_yield_impl 0x800 demo_table))) = 0"
proof -
  obtain r t where rt: "scheduler_yield_impl 0x800 demo_table = (r, t)" by force
  have st: "state_of demo_table 1 = PROCESS_RUNNING" "state_of demo_table 2 = PROCESS_BLOCKED"
    "state_of demo_table 0 = PROCESS_READY"
    by (simp_all add: state_of_def demo_proc_def)
  have ex: "\<exists>k < slots_used demo_table. k \<noteq> unat (current_process demo_table) \<and> state_of demo_table k = PROCESS_READY"
    using st(3) by (intro exI [of _ 0]) simp
  have after: "slot_after demo_table 0 = 2" "slot_after demo_table 1 = 0" by (simp_all add: slot_after_def)
  from yield_round_robin [of demo_table "0x800"] demo_table_wf ex rt obtain d where
    d: "state_of demo_table (slot_after demo_table d) = PROCESS_READY"
      "\<forall>e < d. state_of demo_table (slot_after demo_table e) \<noteq> PROCESS_READY"
      "unat (current_process t) = slot_after demo_table d"
      "r = ctx_esp (cpu_context (slot demo_table (slot_after demo_table d)))" by auto
  have "\<not> 1 < d" using d(2) st(3) after(2) by metis
  moreover have "d \<noteq> 0"
  proof
    assume "d = 0"
    with d(1) st(2) after(1) show False by simp
  qed
  ultimately have "d = 1" by simp
  then show ?thesis using d(3,4) rt after(2) by (simp add: demo_proc_def)
qed

text \<open>No READY process starves: a process in slot \<open>k\<close> is RUNNING after at most as many yields as there are
  slots, whatever the stack pointers of the yields are.\<close>

theorem ready_never_starves:
  assumes "sched_wf s" and "k < slots_used s" and "k \<noteq> unat (current_process s)" and "state_of s k = PROCESS_READY"
    and "length es = slots_used s"
  shows "\<exists>m \<le> slots_used s. unat (current_process (fold scheduler_yield (take m es) s)) = k \<and>
    state_of (fold scheduler_yield (take m es) s) k = PROCESS_RUNNING"
proof -
  have c: "unat (current_process s) < slots_used s" using assms(1,2) by (auto simp add: sched_wf_def sched_tab_def)
  obtain d where "d < slots_used s" "slot_after s d = k" using slot_after_surj [OF c assms(2)] by blast
  with ready_gets_turn [OF assms(1) _ _ assms(3,4), of d es] assms(5) obtain m where "m \<le> d + 1"
    "unat (current_process (fold scheduler_yield (take m es) s)) = k"
    "state_of (fold scheduler_yield (take m es) s) k = PROCESS_RUNNING" by auto
  moreover from this \<open>d < slots_used s\<close> have "m \<le> slots_used s" by simp
  ultimately show ?thesis by blast
qed

theorem ready_never_starves_witness:
  "\<exists>m. m \<le> slots_used demo_table \<and>
    unat (current_process (fold scheduler_yield (take m [0x700, 0x700, 0x700]) demo_table)) = 0 \<and>
    state_of (fold scheduler_yield (take m [0x700, 0x700, 0x700]) demo_table) 0 = PROCESS_RUNNING"
  using ready_never_starves [OF demo_table_wf, of 0 "[0x700, 0x700, 0x700]"]
  by (auto simp add: state_of_def demo_proc_def)

text \<open>C31. \<open>process_exit\<close> records the exit code of the current process, marks it TERMINATED for good, and leaves no
  process BLOCKED on it: whoever waited is READY, or already RUNNING.\<close>

theorem exit_wakes_waiters:
  assumes "sched_wf s" and "0 < slots_used s"
  shows "let c = unat (current_process s); t = process_exit code esp s in
    sched_wf t \<and> state_of t c = PROCESS_TERMINATED \<and> exit_code (slot t c) = code \<and>
    {i. i < slots_used s \<and> state_of t i = PROCESS_BLOCKED \<and> waiting_for_pid (slot t i) = pid (slot s c)} = {} \<and>
    {i. i < slots_used s \<and> state_of s i = PROCESS_BLOCKED \<and> waiting_for_pid (slot s i) = pid (slot s c) \<and> i \<noteq> c} \<subseteq>
      {i. state_of t i = PROCESS_READY \<or> state_of t i = PROCESS_RUNNING}"
proof -
  let ?c = "unat (current_process s)"
  have tab: "sched_tab s" using assms(1) by (simp add: sched_wf_def)
  have c: "?c < slots_used s" by (rule current_slot [OF tab assms(2)])
  obtain u where u: "terminated ?c code s u" "process_exit code esp s = scheduler_yield esp u"
    using process_exit_effect [OF tab assms(2), of code esp] by blast
  let ?t = "scheduler_yield esp u"
  have wfu: "sched_wf u" by (rule terminated_wf [OF assms(1) c u(1)])
  have n: "slots_used u = slots_used s" and uc: "unat (current_process u) = ?c" and
    uslot: "\<And>j. j < slots_used s \<Longrightarrow> slot u j =
        (if j = ?c then (slot s j)\<lparr>p_state := PROCESS_TERMINATED, exit_code := code\<rparr>
         else if state_of s j = PROCESS_BLOCKED \<and> waiting_for_pid (slot s j) = pid (slot s ?c)
         then (slot s j)\<lparr>p_state := PROCESS_READY, waiting_for_pid := 0\<rparr> else slot s j)"
    using u(1) by (simp_all add: terminated_def same_table_def)
  have ts: "state_of ?t j = state_of u j \<or> state_of u j = PROCESS_READY \<and> state_of ?t j = PROCESS_RUNNING
      \<or> state_of u j = PROCESS_RUNNING \<and> state_of ?t j = PROCESS_READY"
    "waiting_for_pid (slot ?t j) = waiting_for_pid (slot u j)" if "j < slots_used s" for j
    using yield_effect_on_slot [OF wfu, of j esp] that n by simp_all
  have ust: "state_of u j = (if j = ?c then PROCESS_TERMINATED
     else if state_of s j = PROCESS_BLOCKED \<and> waiting_for_pid (slot s j) = pid (slot s ?c) then PROCESS_READY
     else state_of s j)" if "j < slots_used s" for j
    by (rule terminated_state [OF u(1) that])
  have "state_of ?t ?c = PROCESS_TERMINATED" "exit_code (slot ?t ?c) = code"
    using yield_terminated [OF wfu, of ?c esp] ust [OF c] uslot [OF c] c n by simp_all
  moreover have "\<not> (state_of ?t i = PROCESS_BLOCKED \<and> waiting_for_pid (slot ?t i) = pid (slot s ?c))"
    if "i < slots_used s" for i
    using ts [OF that] ust [OF that] uslot [OF that] by (auto split: if_splits)
  moreover have "state_of ?t i = PROCESS_READY \<or> state_of ?t i = PROCESS_RUNNING"
    if "i < slots_used s" "state_of s i = PROCESS_BLOCKED" "waiting_for_pid (slot s i) = pid (slot s ?c)" "i \<noteq> ?c" for i
    using ts(1) [OF that(1)] ust [OF that(1)] that by auto
  ultimately show ?thesis unfolding Let_def u(2) using yield_wf [OF wfu, of esp] by blast
qed

theorem exit_wakes_waiters_witness:
  "state_of (process_exit 7 0x700 demo_table) 1 = PROCESS_TERMINATED \<and>
   exit_code (slot (process_exit 7 0x700 demo_table) 1) = 7 \<and>
   (state_of (process_exit 7 0x700 demo_table) 2 = PROCESS_READY \<or>
    state_of (process_exit 7 0x700 demo_table) 2 = PROCESS_RUNNING)"
proof -
  have "2 \<in> {i. i < slots_used demo_table \<and> state_of demo_table i = PROCESS_BLOCKED \<and>
      waiting_for_pid (slot demo_table i) = pid (slot demo_table (unat (current_process demo_table))) \<and>
      i \<noteq> unat (current_process demo_table)}"
    by (simp add: state_of_def demo_proc_def)
  moreover have "0 < slots_used demo_table" by simp
  note e = exit_wakes_waiters [OF demo_table_wf this, of 7 "0x700", unfolded Let_def]
  ultimately have "2 \<in> {i. state_of (process_exit 7 0x700 demo_table) i = PROCESS_READY \<or>
      state_of (process_exit 7 0x700 demo_table) i = PROCESS_RUNNING}"
    using e [THEN conjunct2, THEN conjunct2, THEN conjunct2, THEN conjunct2] by blast
  then show ?thesis using e by simp
qed

text \<open>C33. \<open>process_kill\<close> finds a live process by its identifier and terminates it with exit code -1, waking whoever
  waited for it; it fails, changing nothing, exactly when no live process has that identifier.\<close>

theorem kill_outcome:
  assumes "sched_wf s"
  shows "case process_kill p esp s of (r, t) \<Rightarrow>
    sched_wf t \<and>
    (if \<exists>i < slots_used s. pid (slot s i) = p \<and> state_of s i \<noteq> PROCESS_TERMINATED
     then r = 0 \<and> (\<exists>k < slots_used s. pid (slot s k) = p \<and> state_of s k \<noteq> PROCESS_TERMINATED \<and>
            state_of t k = PROCESS_TERMINATED \<and> exit_code (slot t k) = - 1)
     else r = - 1 \<and> t = s)"
proof -
  have tab: "sched_tab s" using assms by (simp add: sched_wf_def)
  have wf: "sched_wf (snd (process_kill p esp s))" by (rule process_kill_wf [OF assms])
  from process_kill_effect [OF tab, of p esp] show ?thesis
  proof (elim disjE exE conjE)
    fix k u assume k: "k < slots_used s" "pid (slot s k) = p" "state_of s k \<noteq> PROCESS_TERMINATED"
      "terminated k (- 1) s u"
      "process_kill p esp s = (0, if k = unat (current_process s) then scheduler_yield esp u else u)"
    let ?t = "if k = unat (current_process s) then scheduler_yield esp u else u"
    have wfu: "sched_wf u" by (rule terminated_wf [OF assms k(1,4)])
    have u: "state_of u k = PROCESS_TERMINATED" "exit_code (slot u k) = - 1" "slots_used u = slots_used s"
      using k(1,4) terminated_state [OF k(4,1)] by (simp_all add: terminated_def same_table_def)
    have "state_of ?t k = PROCESS_TERMINATED" "exit_code (slot ?t k) = - 1"
      using yield_terminated [OF wfu, of k esp] u k(1) by auto
    note t = this
    have ex: "\<exists>i < slots_used s. pid (slot s i) = p \<and> state_of s i \<noteq> PROCESS_TERMINATED" using k by blast
    show ?thesis
      unfolding k(5) prod.case if_P [OF ex] using wf [unfolded k(5) snd_conv] k(1-3) t by blast
  qed (use wf in auto)
qed

theorem kill_outcome_witness:
  "fst (process_kill 1 0x700 demo_table) = 0 \<and> fst (process_kill 9 0x700 demo_table) = - 1"
proof -
  have "pid (slot demo_table 0) = 1" "state_of demo_table 0 \<noteq> PROCESS_TERMINATED"
    by (simp_all add: state_of_def demo_proc_def)
  then have yes: "\<exists>i < slots_used demo_table. pid (slot demo_table i) = 1 \<and> state_of demo_table i \<noteq> PROCESS_TERMINATED"
    by (intro exI [of _ 0]) simp
  have no: "\<not> (\<exists>i < slots_used demo_table. pid (slot demo_table i) = 9 \<and> state_of demo_table i \<noteq> PROCESS_TERMINATED)"
  proof -
    have "pid (slot demo_table i) \<noteq> 9" if "i < 3" for i
      using that unfolding less_three by (elim disjE) (simp_all add: demo_proc_def)
    then show ?thesis by auto
  qed
  show ?thesis
    using kill_outcome [OF demo_table_wf, of 1 "0x700"] kill_outcome [OF demo_table_wf, of 9 "0x700"] yes no
    by (simp add: case_prod_beta)
qed

text \<open>C32. \<open>process_wait\<close> fails for an unknown identifier, returns the exit code at once for a terminated process, and
  otherwise blocks the caller on it; the waiting loop returns only when the target has terminated, with its
  exit code.\<close>

theorem wait_outcome:
  assumes "sched_wf s" and "0 < slots_used s"
  shows "case process_wait p s of
      (Wait_Return r, t) \<Rightarrow> t = s \<and>
        (if \<exists>i < slots_used s. pid (slot s i) = p
         then \<exists>i < slots_used s. pid (slot s i) = p \<and> state_of s i = PROCESS_TERMINATED \<and> r = exit_code (slot s i)
         else r = - 1)
    | (Wait_Loop target, t) \<Rightarrow> sched_wf t \<and> state_of t (unat (current_process s)) = PROCESS_BLOCKED \<and>
        waiting_for_pid (slot t (unat (current_process s))) = p \<and> pid (proc_mem s target) = p \<and>
        (fst (process_wait_loop target esp u) = Wait_Return c \<longleftrightarrow>
          p_state (proc_mem u target) = PROCESS_TERMINATED \<and> c = exit_code (proc_mem u target))"
proof -
  have tab: "sched_tab s" using assms by (simp add: sched_wf_def)
  have c: "unat (current_process s) < slots_used s" by (rule current_slot [OF tab assms(2)])
  have wf: "sched_wf (snd (process_wait p s))" by (rule process_wait_wf [OF assms])
  have loop: "fst (process_wait_loop target esp u) = Wait_Return c \<longleftrightarrow>
          p_state (proc_mem u target) = PROCESS_TERMINATED \<and> c = exit_code (proc_mem u target)" for target
    by (auto simp add: process_wait_loop_def)
  have cur: "slot (upd_proc (processes s (unat (current_process s))) f s) (unat (current_process s)) =
      f (slot s (unat (current_process s)))" for f
    using slot_upd_proc [OF tab c c] by simp
  from process_wait_effect [OF tab assms(2), of p] show ?thesis
  proof (elim disjE exE conjE)
    fix i assume i: "i < slots_used s" "pid (slot s i) = p" "state_of s i \<noteq> PROCESS_TERMINATED"
      "process_wait p s = (Wait_Loop (processes s i),
            upd_proc (processes s (unat (current_process s))) (\<lambda>q. q\<lparr>p_state := PROCESS_BLOCKED, waiting_for_pid := p\<rparr>) s)"
    have "pid (proc_mem s (processes s i)) = p" using i(2) by (simp add: slot_def)
    then show ?thesis using wf loop unfolding i(4) by (simp add: state_of_def cur)
  qed auto
qed

theorem wait_outcome_witness:
  "state_of (snd (process_wait 1 demo_table)) 1 = PROCESS_BLOCKED \<and> fst (process_wait 9 demo_table) = Wait_Return (- 1)"
proof -
  have f1: "fst (process_wait 1 demo_table) = Wait_Loop 0x1010" and f9: "fst (process_wait 9 demo_table) = Wait_Return (- 1)"
    by code_simp+
  obtain t where "process_wait 1 demo_table = (Wait_Loop 0x1010, t)" using f1 by (metis prod.collapse)
  then show ?thesis using wait_outcome [OF demo_table_wf, of 1 0 demo_table 0] f9 by (simp add: state_of_def)
qed

text \<open>\<open>scheduler_add_user_process\<close> succeeds while a slot and the memory for a control block are there; the new
  process is READY, has the next identifier and the first 31 characters of its name, and the first switch to it
  enters its entry point in ring 3 with interrupts on and a stack inside its own control block.\<close>

theorem user_process_start:
  assumes "sched_inv s" and "0 < slots_used s" and "slots_used s < 16" and "run_available SIZEOF_PROCESS (pmm s)"
  shows "\<exists>t. scheduler_add_user_process entry name s = Some t \<and> sched_inv t \<and>
    process_count t = process_count s + 1 \<and>
    (let q = slot t (slots_used s) in
       pid q = next_pid s \<and> p_state q = PROCESS_READY \<and> p_name q = take 31 name \<and>
       restore_frame (stack_mem t) (ctx_esp (cpu_context q)) r =
         r\<lparr>r_gs := ucast USER_DS, r_fs := ucast USER_DS, r_es := ucast USER_DS, r_ds := ucast USER_DS,
           r_edi := 0, r_esi := 0, r_ebp := 0, r_ebx := 0, r_edx := 0, r_ecx := 0, r_eax := 0,
           r_eip := entry, r_cs := ucast USER_CS, r_eflags := 0x202,
           r_esp := stack_addr (processes t (slots_used s)) (KERNEL_STACK_SIZE - 256), r_ss := ucast USER_DS\<rparr>)"
proof -
  have ne: "free_frames (pmm s) \<noteq> {}" using assms(4) by (simp add: run_available_def)
  obtain t where t: "scheduler_add_user_process entry name s = Some t" "sched_inv t"
    and ef: "process_count t = process_count s + 1" "pid (slot t (slots_used s)) = next_pid s"
      "state_of t (slots_used s) = PROCESS_READY" "p_name (slot t (slots_used s)) = take 31 name"
      "push_all (user_frame (processes t (slots_used s)) entry)
         (stack_addr (processes t (slots_used s)) KERNEL_STACK_SIZE, stack_mem s) =
       (ctx_esp (cpu_context (slot t (slots_used s))), stack_mem t)"
    unfolding scheduler_add_user_process_def
    using add_common_effect [OF assms(1,2) impI [OF assms(4)], of "\<lambda>proc. user_frame proc entry"
        "lit ''[SCHEDULER] Added User Process (Ring 3): ''" COLOR_LIGHT_GREEN entry name] assms(3) ne
    by (auto split: if_splits)
  show ?thesis
    using t ef restore_user_frame [OF ef(5), of r] by (auto simp add: Let_def state_of_def)
qed

text \<open>A machine on which the boot code has become process 1, with its control block in the heap.\<close>

definition demo_booted :: sched_sys where
  "demo_booted = demo_sched
     \<lparr>pmm := \<lparr>bitmap = (\<lambda>_. 7), total_pages = 32, used_pages = 3, free_pages = 29, bitmap_size = 1\<rparr>,
      heap_head := 0x1000, heap_total := 4204, heap_used := 4204,
      heap_mem := (\<lambda>_. \<lparr>hb_size = 4204, hb_used = 1, hb_next = 0, hb_prev = 0\<rparr>),
      processes := (\<lambda>_. 0x1010), proc_mem := (\<lambda>_. demo_proc 1 PROCESS_RUNNING 0),
      process_count := 1, next_pid := 2, current_process := 0\<rparr>"

lemma bit_seven_word: "bit (7 :: u32) j \<longleftrightarrow> j < 3"
proof -
  have "(7 :: u32) = mask 3" by (simp add: mask_eq_exp_minus_1)
  then have "bit (7 :: u32) j \<longleftrightarrow> bit (mask 3 :: u32) j" by (simp only:)
  then show ?thesis by (auto simp only: bit_mask_iff possible_bit_word) simp_all
qed

lemma page_used_seven: "page_used (\<lambda>_. 7) i \<longleftrightarrow> i mod 32 < 3"
  by (simp only: page_used_def bit_seven_word)

lemma demo_booted_free: "free_frames (pmm demo_booted) = {3..<32}"
  by (auto simp add: free_frames_def demo_booted_def page_used_seven)

lemma demo_booted_pmm: "pmm_inv (pmm demo_booted)"
proof -
  have "{i. i < 32 \<and> i < (3::nat)} = {..<3}" "{i. i < 32 \<and> \<not> i < (3::nat)} = {3..<32}" by auto
  then have "count_below 32 (\<lambda>i. i < 3) = 3" "count_below 32 (\<lambda>i. \<not> i < 3) = 29"
    by (simp_all only: count_below_def) simp_all
  moreover have "count_below 32 (page_used (\<lambda>_. 7)) = count_below 32 (\<lambda>i. i < 3)"
    "count_below 32 (\<lambda>i. \<not> page_used (\<lambda>_. 7) i) = count_below 32 (\<lambda>i. \<not> i < 3)"
    by (rule count_below_cong, simp add: page_used_seven)+
  ultimately show ?thesis by (simp add: pmm_inv_def demo_booted_def)
qed

lemma demo_booted_inv: "sched_inv demo_booted"
proof -
  have pc: "page_count 4204 = 2" by code_simp
  have "heap_wf demo_booted [0x1000]"
    by (simp add: heap_wf_def heap_list_def heap_accounts_def used_size_def demo_booted_def)
  moreover have "block_pages demo_booted 0x1000 = {1..<3}"
    by (auto simp add: block_pages_def demo_booted_def pc page_of_def)
  moreover have "total_pages (pmm demo_booted) = 32" "hb_size (heap_mem demo_booted 0x1000) = 4204"
    by (simp_all add: demo_booted_def)
  ultimately have owns: "heap_owns demo_booted [0x1000]"
    using demo_booted_pmm demo_booted_free by (auto simp add: heap_owns_def)
  have fields: "process_count demo_booted = 1" "next_pid demo_booted = 2" "current_process demo_booted = 0"
    "processes demo_booted 0 = 0x1010" "slot demo_booted 0 = demo_proc 1 PROCESS_RUNNING 0"
    "(0x1000, 4204) \<in> live_blocks demo_booted [0x1000]"
    by (simp_all add: demo_booted_def slot_def live_blocks_def)
  then have "sched_wf demo_booted"
    by (simp add: sched_wf_def sched_tab_def sched_states_def state_of_def demo_proc_def inj_on_def)
  then show ?thesis using owns fields by (auto simp add: sched_inv_def)
qed

lemma demo_booted_run: "run_available SIZEOF_PROCESS (pmm demo_booted)"
proof -
  have "page_count (block_size SIZEOF_PROCESS) = 2" by code_simp
  moreover have "Min {3..<32::nat} = 3" by (rule Min_eqI) auto
  ultimately show ?thesis using demo_booted_free by (simp add: run_available_def)
qed

lemma demo_booted_slots: "slots_used demo_booted = 1" "next_pid demo_booted = 2"
  by (simp_all add: demo_booted_def)

theorem user_process_start_witness:
  "\<exists>t. scheduler_add_user_process 0x104000 (lit ''init'') demo_booted = Some t \<and> pid (slot t 1) = 2"
  using user_process_start [OF demo_booted_inv _ _ demo_booted_run, of "0x104000" "lit ''init''"] demo_booted_slots
  by (auto simp add: Let_def)

text \<open>A kernel process starts in the trampoline \<open>process_wrapper\<close> in ring 0 with interrupts on, at the top of its
  own kernel stack, which is also the address the scheduler puts into the TSS for it.\<close>

theorem kernel_process_start:
  assumes "sched_inv s" and "0 < slots_used s" and "slots_used s < 16" and "run_available SIZEOF_PROCESS (pmm s)"
  shows "\<exists>t. scheduler_add_process img entry name s = Some t \<and> sched_inv t \<and>
    process_count t = process_count s + 1 \<and>
    (let q = slot t (slots_used s) in
       pid q = next_pid s \<and> p_state q = PROCESS_READY \<and> entry_point q = entry \<and>
       restore_frame (stack_mem t) (ctx_esp (cpu_context q)) r =
         r\<lparr>r_gs := ucast KERNEL_DS, r_fs := ucast KERNEL_DS, r_es := ucast KERNEL_DS, r_ds := ucast KERNEL_DS,
           r_edi := 0, r_esi := 0, r_ebp := 0, r_ebx := 0, r_edx := 0, r_ecx := 0, r_eax := 0,
           r_eip := addr_process_wrapper img, r_cs := ucast KERNEL_CS, r_eflags := 0x202,
           r_esp := stack_addr (processes t (slots_used s)) KERNEL_STACK_SIZE\<rparr>)"
proof -
  have ne: "free_frames (pmm s) \<noteq> {}" using assms(4) by (simp add: run_available_def)
  obtain t where t: "scheduler_add_process img entry name s = Some t" "sched_inv t"
    and ef: "process_count t = process_count s + 1" "pid (slot t (slots_used s)) = next_pid s"
      "state_of t (slots_used s) = PROCESS_READY" "entry_point (slot t (slots_used s)) = entry"
      "push_all (kernel_frame img) (stack_addr (processes t (slots_used s)) KERNEL_STACK_SIZE, stack_mem s) =
       (ctx_esp (cpu_context (slot t (slots_used s))), stack_mem t)"
    unfolding scheduler_add_process_def
    using add_common_effect [OF assms(1,2) impI [OF assms(4)], of "\<lambda>_. kernel_frame img"
        "lit ''[SCHEDULER] Added Kernel Process (Ring 0): ''" "0x1A" entry name] assms(3) ne
    by (auto split: if_splits)
  show ?thesis
    using t ef restore_kernel_frame [OF ef(5), of r] by (auto simp add: Let_def state_of_def)
qed

theorem kernel_process_start_witness:
  "\<exists>t. scheduler_add_process demo_image 0x104000 (lit ''shell'') demo_booted = Some t \<and> pid (slot t 1) = 2"
  using kernel_process_start [OF demo_booted_inv _ _ demo_booted_run, of demo_image "0x104000" "lit ''shell''"] demo_booted_slots
  by (auto simp add: Let_def)

text \<open>The context switch of \<open>scheduler_yield_asm\<close> is transparent: restoring the frame it saved returns to the
  caller, in kernel mode and with the return address popped, with every other register as it was (\<open>eax\<close>, which
  the calling convention lets a function change, holds the return address).\<close>

theorem yield_frame_roundtrip:
  "restore_frame (snd (yield_save r m)) (fst (yield_save r m)) q =
     r\<lparr>r_eax := m (r_esp r), r_eip := m (r_esp r), r_cs := ucast KERNEL_CS, r_esp := r_esp r + 4, r_ss := r_ss q\<rparr>"
proof -
  have save: "yield_save (r\<lparr>r_cs := 0x08\<rparr>) m = yield_save r m" by (simp add: yield_save_def yield_frame_def)
  have "restore_frame (snd (yield_save (r\<lparr>r_cs := 0x08\<rparr>) m)) (fst (yield_save (r\<lparr>r_cs := 0x08\<rparr>) m)) q =
      (r\<lparr>r_cs := 0x08\<rparr>)\<lparr>r_eax := m (r_esp r), r_eip := m (r_esp r), r_esp := r_esp r + 4, r_ss := r_ss q\<rparr>"
    using restore_yield_frame [of "r\<lparr>r_cs := 0x08\<rparr>" m "fst (yield_save (r\<lparr>r_cs := 0x08\<rparr>) m)"
        "snd (yield_save (r\<lparr>r_cs := 0x08\<rparr>) m)" q] by simp
  then show ?thesis unfolding save by simp
qed

text \<open>The time slice is ten ticks: with at least two processes the timer asks for a switch at the tick that
  completes ten since the last request, and not before.\<close>

theorem tick_quantum:
  assumes "1 < slots_used s" and "unat (tick_counter s) < 10" and "k \<le> 10 - unat (tick_counter s)"
  shows "(scheduler_tick ^^ k) s =
    (if k = 10 - unat (tick_counter s) then s\<lparr>tick_counter := 0, schedule_needed := 1\<rparr>
     else s\<lparr>tick_counter := tick_counter s + of_nat k\<rparr>)"
  using assms(3)
proof (induction k)
  case 0
  then show ?case using assms(2) by simp
next
  case (Suc k)
  have n1: "\<not> process_count s \<le> 1" using assms(1) by (simp add: word_le_nat_alt)
  have IH: "(scheduler_tick ^^ k) s = s\<lparr>tick_counter := tick_counter s + of_nat k\<rparr>" using Suc by simp
  have "unat (of_nat k :: u32) = k" using Suc.prems by (simp add: unat_of_nat)
  then have "unat (tick_counter s + of_nat k + 1) = unat (tick_counter s) + k + 1"
    using Suc.prems assms(2) by (simp add: unat_add_no_wrap)
  then have "10 \<le> tick_counter s + of_nat k + 1 \<longleftrightarrow> Suc k = 10 - unat (tick_counter s)"
    using Suc.prems by (simp only: word_le_nat_alt) auto
  then show ?case
    unfolding funpow.simps comp_def IH using n1 by (auto simp add: scheduler_tick_def Let_def ac_simps)
qed

theorem tick_quantum_witness:
  "(scheduler_tick ^^ 10) demo_table = demo_table\<lparr>tick_counter := 0, schedule_needed := 1\<rparr>"
  using tick_quantum [of demo_table 10] by simp

text \<open>A process that waits for itself with no other process READY never runs again: every iteration of its
  waiting loop leaves the system as it is.\<close>

theorem wait_self_deadlock:
  assumes "sched_wf s" and "0 < slots_used s" and "state_of s (unat (current_process s)) = PROCESS_RUNNING"
    and "\<forall>k < slots_used s. state_of s k \<noteq> PROCESS_READY"
  shows "case process_wait (scheduler_get_current_pid s) s of
      (Wait_Return r, t) \<Rightarrow> False
    | (Wait_Loop target, t) \<Rightarrow> \<forall>esp. process_wait_loop target esp t = (Wait_Loop target, t)"
proof -
  let ?c = "unat (current_process s)"
  let ?t = "upd_proc (processes s ?c) (\<lambda>q. q\<lparr>p_state := PROCESS_BLOCKED, waiting_for_pid := pid (slot s ?c)\<rparr>) s"
  have tab: "sched_tab s" using assms(1) by (simp add: sched_wf_def)
  have c: "?c < slots_used s" by (rule current_slot [OF tab assms(2)])
  have pid: "scheduler_get_current_pid s = pid (slot s ?c)" using assms(2) by (auto simp add: scheduler_get_current_pid_def)
  have inj: "i = ?c" if "i < slots_used s" "pid (slot s i) = pid (slot s ?c)" for i
  proof -
    have "(of_nat (Suc i) :: u32) = of_nat (Suc ?c)" "i < 16" "?c < 16" using tab that c by (auto simp add: sched_tab_def)
    moreover from this have "unat (of_nat (Suc i) :: u32) = Suc i" "unat (of_nat (Suc ?c) :: u32) = Suc ?c"
      unfolding unat_of_nat by simp_all
    ultimately show ?thesis by simp
  qed
  have wait: "process_wait (pid (slot s ?c)) s = (Wait_Loop (processes s ?c), ?t)"
    using process_wait_effect [OF tab assms(2), of "pid (slot s ?c)"]
  proof (elim disjE exE conjE)
    fix i assume "i < slots_used s" "pid (slot s i) = pid (slot s ?c)" "state_of s i = PROCESS_TERMINATED"
    then show ?thesis using inj assms(3) by fastforce
  next
    fix i assume "i < slots_used s" "pid (slot s i) = pid (slot s ?c)"
      "process_wait (pid (slot s ?c)) s = (Wait_Loop (processes s i), ?t)"
    then show ?thesis using inj by metis
  qed (use c in blast)
  note sl = slot_upd_proc [OF tab c, where f = "\<lambda>q. q\<lparr>p_state := PROCESS_BLOCKED, waiting_for_pid := pid (slot s ?c)\<rparr>"]
  have wft: "sched_wf ?t" by (rule block_wf [OF assms(1,2) c]) (simp add: assms(3))
  have "state_of ?t k \<noteq> PROCESS_READY" if "k < slots_used s" for k
    using sl [OF that] assms(4) that by (simp add: state_of_def)
  then have "scheduler_yield esp ?t = ?t" for esp
    using yield_cases [of ?t esp] wft slot_after_less by (auto simp add: sched_wf_def)
  moreover have "p_state (proc_mem ?t (processes s ?c)) \<noteq> PROCESS_TERMINATED" by (simp add: upd_proc_def)
  ultimately have "process_wait_loop (processes s ?c) esp ?t = (Wait_Loop (processes s ?c), ?t)" for esp
    by (simp add: process_wait_loop_def)
  then show ?thesis unfolding pid wait by simp
qed

theorem wait_self_deadlock_witness:
  "fst (process_wait (scheduler_get_current_pid demo_booted) demo_booted) = Wait_Loop 0x1010 \<and>
   process_wait_loop 0x1010 0x700 (snd (process_wait (scheduler_get_current_pid demo_booted) demo_booted)) =
     (Wait_Loop 0x1010, snd (process_wait (scheduler_get_current_pid demo_booted) demo_booted))"
proof -
  have wf: "sched_wf demo_booted" using demo_booted_inv by (simp add: sched_inv_def)
  have slot0: "state_of demo_booted 0 = PROCESS_RUNNING" by (simp add: demo_booted_def state_of_def slot_def demo_proc_def)
  have cur: "unat (current_process demo_booted) = 0" by (simp add: demo_booted_def)
  have w: "fst (process_wait (scheduler_get_current_pid demo_booted) demo_booted) = Wait_Loop 0x1010" by code_simp
  then obtain t where t: "process_wait (scheduler_get_current_pid demo_booted) demo_booted = (Wait_Loop 0x1010, t)"
    by (metis prod.collapse)
  have "case process_wait (scheduler_get_current_pid demo_booted) demo_booted of
      (Wait_Return r, t) \<Rightarrow> False
    | (Wait_Loop target, t) \<Rightarrow> \<forall>esp. process_wait_loop target esp t = (Wait_Loop target, t)"
    by (rule wait_self_deadlock [OF wf]) (simp_all add: demo_booted_slots cur slot0)
  then show ?thesis unfolding t by simp
qed

end
