(* ===== verification/Pit.thy ===== *)
theory Pit
  imports Scheduler_Props
begin

text \<open>
  The timer, \<^verbatim>\<open>src/kernel/pit.c\<close>, and the timer interrupt stub \<open>irq0_stub\<close> of \<^verbatim>\<open>src/arch/i386/interrupts.s\<close>.

  While \<open>pit_sleep\<close> is halted the processor serves interrupts.  What they do to the state is an argument \<open>irq\<close> of
  the model; the loop may run forever if no tick comes, so its result is optional.
\<close>

record pit_sys = sched_sys +
  pit_ticks :: u64

abbreviation PIT_PORT_COMMAND :: u16 where "PIT_PORT_COMMAND \<equiv> 0x43"
abbreviation PIT_PORT_CHANNEL0 :: u16 where "PIT_PORT_CHANNEL0 \<equiv> 0x40"
abbreviation PIT_CMD_CHANNEL0 :: u8 where "PIT_CMD_CHANNEL0 \<equiv> 0x00"
abbreviation PIT_CMD_ACCESS_WORD :: u8 where "PIT_CMD_ACCESS_WORD \<equiv> 0x30"
abbreviation PIT_CMD_MODE_3 :: u8 where "PIT_CMD_MODE_3 \<equiv> 0x06"
abbreviation PIT_CMD_BINARY :: u8 where "PIT_CMD_BINARY \<equiv> 0x00"
abbreviation PIT_FREQUENCY :: u32 where "PIT_FREQUENCY \<equiv> 1193182"

section \<open>Operations\<close>

definition pit_init :: "u32 \<Rightarrow> 'a pit_sys_scheme \<Rightarrow> 'a pit_sys_scheme" where
  "pit_init frequency s =
     (let divisor = PIT_FREQUENCY div frequency;
          s = outb PIT_PORT_COMMAND (PIT_CMD_CHANNEL0 OR PIT_CMD_ACCESS_WORD OR PIT_CMD_MODE_3 OR PIT_CMD_BINARY) s;
          s = outb PIT_PORT_CHANNEL0 (ucast (divisor AND 0xFF)) s;
          s = outb PIT_PORT_CHANNEL0 (ucast (drop_bit 8 divisor AND 0xFF)) s;
          s = con_puts (lit ''[PIT] Initialized at '') 0x1A s;
          s = con_puts (dec_text (sint frequency)) 0x1A s
      in con_puts (lit '' Hz'' @ [ch_nl]) 0x1A s)"

definition pit_handler :: "'a pit_sys_scheme \<Rightarrow> 'a pit_sys_scheme" where
  "pit_handler s =
     (let s = s\<lparr>pit_ticks := pit_ticks s + 1\<rparr>;
          s = scheduler_tick s
      in outb 0x20 0x20 s)"

definition pit_get_ticks :: "'a pit_sys_scheme \<Rightarrow> u64" where
  "pit_get_ticks s = pit_ticks s"

text \<open>The stub: the handler, then a switch when the tick asked for one.\<close>

definition irq0_stub :: "u32 \<Rightarrow> 'a pit_sys_scheme \<Rightarrow> u32 \<times> 'a pit_sys_scheme" where
  "irq0_stub esp s =
     (let s = pit_handler s
      in if schedule_needed s = 0 then (esp, s)
         else
           (let s = s\<lparr>schedule_needed := 0\<rparr>;
                (new_esp, s) = scheduler_yield_impl esp s
            in (if new_esp = 0 then esp else new_esp, s)))"

partial_function (option) sleep_loop ::
    "('a pit_sys_scheme \<Rightarrow> 'a pit_sys_scheme) \<Rightarrow> u64 \<Rightarrow> 'a pit_sys_scheme \<Rightarrow> 'a pit_sys_scheme option" where
  "sleep_loop irq target_ticks s =
     (if pit_ticks s < target_ticks then sleep_loop irq target_ticks (irq (emit Hlt s)) else Some s)"

definition sleep_ticks :: "u32 \<Rightarrow> u32" where
  "sleep_ticks milliseconds = (milliseconds * 100) div 1000"

definition pit_sleep ::
    "('a pit_sys_scheme \<Rightarrow> 'a pit_sys_scheme) \<Rightarrow> u32 \<Rightarrow> 'a pit_sys_scheme \<Rightarrow> 'a pit_sys_scheme option" where
  "pit_sleep irq milliseconds s =
     (let start_ticks = pit_ticks s;
          target_ticks = start_ticks + ucast (sleep_ticks milliseconds)
      in sleep_loop irq target_ticks s)"

declare sleep_loop.simps [code]

section \<open>Lemmas\<close>

lemma emit_pit [simp]:
  "pit_ticks (emit e s) = pit_ticks s" "process_count (emit e s) = process_count s"
  "schedule_needed (emit e s) = schedule_needed s"
  by (simp_all add: emit_def)

lemma tick_pit_frames [simp]:
  "pit_ticks (scheduler_tick s) = pit_ticks s" "io_trace (scheduler_tick s) = io_trace s"
  by (simp_all add: scheduler_tick_def Let_def)

lemma pit_handler_ticks: "pit_ticks (pit_handler s) = pit_ticks s + 1"
  by (simp add: pit_handler_def Let_def outb_def)

text \<open>An interrupt source that counts: every wake-up from the halt is exactly one tick.\<close>

lemma sleep_loop_counts:
  assumes "\<And>s :: 'a pit_sys_scheme. pit_ticks (irq s) = pit_ticks s + 1"
  shows "unat (target - pit_ticks s) = n \<Longrightarrow> pit_ticks s \<le> target \<Longrightarrow>
    sleep_loop irq target s = Some (((\<lambda>s. irq (emit Hlt s)) ^^ n) s) \<and>
    pit_ticks (((\<lambda>s. irq (emit Hlt s)) ^^ n) s) = target"
proof (induction n arbitrary: s)
  case 0
  then have "pit_ticks s = target" by (simp add: unat_eq_zero)
  then show ?case by (simp add: sleep_loop.simps)
next
  case (Suc n)
  let ?u = "irq (emit Hlt s)"
  have ne: "target - pit_ticks s \<noteq> 0" using Suc.prems(1) by (metis nat.distinct(1) unat_0)
  then have lt: "pit_ticks s < target" using Suc.prems(2) by (metis order_le_less right_minus_eq)
  have u: "pit_ticks ?u = pit_ticks s + 1" using assms by simp
  have "target - pit_ticks ?u = target - pit_ticks s - 1" by (simp add: u algebra_simps)
  then have n: "unat (target - pit_ticks ?u) = n" using Suc.prems(1) unat_minus_one [OF ne] by (metis diff_Suc_1)
  have "pit_ticks ?u \<le> target" using lt u by (simp add: inc_le)
  then have "sleep_loop irq target ?u = Some (((\<lambda>s. irq (emit Hlt s)) ^^ n) ?u) \<and>
    pit_ticks (((\<lambda>s. irq (emit Hlt s)) ^^ n) ?u) = target"
    by (rule Suc.IH [OF n])
  moreover have "((\<lambda>s. irq (emit Hlt s)) ^^ Suc n) s = ((\<lambda>s. irq (emit Hlt s)) ^^ n) ?u"
    by (simp only: funpow_Suc_right comp_def)
  ultimately show ?case using lt by (subst sleep_loop.simps) simp
qed

lemma yield_impl_pit_frames:
  "pit_ticks (snd (scheduler_yield_impl esp s)) = pit_ticks s"
  "io_trace (snd (scheduler_yield_impl esp s)) = io_trace s"
  by (simp_all add: scheduler_yield_impl_def switch_to_def Let_def upd_proc_def tss_set_kernel_stack_def split: option.split)

text \<open>The state between the handler and the switch.\<close>

definition after_tick :: "u8 \<Rightarrow> u32 \<Rightarrow> 'a pit_sys_scheme \<Rightarrow> 'a pit_sys_scheme" where
  "after_tick need tick s = emit (Outb 0x20 0x20) (s\<lparr>pit_ticks := pit_ticks s + 1, tick_counter := tick, schedule_needed := need\<rparr>)"

lemma after_tick_frames [simp]:
  "pit_ticks (after_tick n k s) = pit_ticks s + 1" "schedule_needed (after_tick n k s) = n"
  "tick_counter (after_tick n k s) = k" "current_process (after_tick n k s) = current_process s"
  "process_count (after_tick n k s) = process_count s" "slot (after_tick n k s) = slot s"
  "processes (after_tick n k s) = processes s" "io_trace (after_tick n k s) = Outb 0x20 0x20 # io_trace s"
  "state_of (after_tick n k s) = state_of s" "next_pid (after_tick n k s) = next_pid s"
  "(after_tick n k s)\<lparr>schedule_needed := m\<rparr> = after_tick m k s"
  by (simp_all add: after_tick_def emit_def slot_def state_of_def fun_eq_iff)

lemma after_tick_wf: "sched_wf (after_tick n k s) = sched_wf s"
  by (simp add: sched_wf_def sched_tab_def sched_states_def)

lemma pit_handler_eq:
  assumes "1 < slots_used s" and "unat (tick_counter s) < 10"
  shows "pit_handler s =
    (if tick_counter s = 9 then after_tick 1 0 s else after_tick (schedule_needed s) (tick_counter s + 1) s)"
proof -
  have n1: "\<not> process_count s \<le> 1" using assms(1) by (simp add: word_le_nat_alt)
  have "unat (tick_counter s + 1) = unat (tick_counter s) + 1" using assms(2) by (intro unat_plus_one_no_wrap) simp
  then have "10 \<le> tick_counter s + 1 \<longleftrightarrow> unat (tick_counter s) = 9"
    using assms(2) by (simp only: word_le_nat_alt) auto
  also have "\<dots> \<longleftrightarrow> tick_counter s = 9" by (simp add: word_unat_eq_iff)
  finally show ?thesis
    using n1 by (auto simp add: pit_handler_def scheduler_tick_def Let_def outb_def after_tick_def)
qed

section \<open>Properties\<close>

text \<open>A timer interrupt counts one tick, acknowledges the interrupt controller once, and with another process READY
  it switches at the tenth tick of a slice and at no other; the request is consumed.\<close>

theorem irq0_preempts:
  assumes "sched_wf s" and "unat (tick_counter s) < 10" and "schedule_needed s = 0"
    and "k < slots_used s" and "k \<noteq> unat (current_process s)" and "state_of s k = PROCESS_READY"
  shows "pit_ticks (snd (irq0_stub esp s)) = pit_ticks s + 1 \<and>
    events_since s (snd (irq0_stub esp s)) = [Outb 0x20 0x20] \<and>
    schedule_needed (snd (irq0_stub esp s)) = 0 \<and>
    (if tick_counter s = 9
     then current_process (snd (irq0_stub esp s)) \<noteq> current_process s \<and> tick_counter (snd (irq0_stub esp s)) = 0
     else current_process (snd (irq0_stub esp s)) = current_process s \<and> fst (irq0_stub esp s) = esp)"
proof -
  have c: "unat (current_process s) < slots_used s" using assms(1,4) by (auto simp add: sched_wf_def sched_tab_def)
  have n: "1 < slots_used s" using assms(4,5) c by linarith
  note ph = pit_handler_eq [OF n assms(2)]
  show ?thesis
  proof (cases "tick_counter s = 9")
    case False
    then have "irq0_stub esp s = (esp, after_tick 0 (tick_counter s + 1) s)"
      using ph assms(3) by (simp add: irq0_stub_def)
    then show ?thesis using False by (simp add: events_since_def)
  next
    case True
    let ?u = "after_tick 0 0 s"
    obtain r t where rt: "scheduler_yield_impl esp ?u = (r, t)" by force
    have i: "snd (irq0_stub esp s) = t" using ph True rt by (simp add: irq0_stub_def Let_def)
    have tab: "sched_tab ?u" using assms(1) after_tick_wf [of 0 0 s] by (simp add: sched_wf_def)
    have "\<exists>d. slot_after ?u d \<noteq> unat (current_process ?u) \<and> switched esp (slot_after ?u d) ?u t"
      using yield_impl_cases [OF tab, of esp] n assms(4-6) rt by auto
    then have "unat (current_process t) \<noteq> unat (current_process s)" "tick_counter t = 0" "schedule_needed t = 0"
      by (auto simp add: switched_def)
    moreover have "pit_ticks t = pit_ticks s + 1" "io_trace t = Outb 0x20 0x20 # io_trace s"
      using yield_impl_pit_frames [of esp ?u] rt by simp_all
    ultimately show ?thesis unfolding i using True by (auto simp add: events_since_def)
  qed
qed

definition demo_pit :: pit_sys where
  "demo_pit = sched_sys.extend (demo_table\<lparr>tick_counter := 9\<rparr>) (pit_sys.fields 41)"

lemma demo_pit_fields [simp]:
  "process_count demo_pit = 3" "current_process demo_pit = 1" "slot demo_pit = slot demo_table"
  "tick_counter demo_pit = 9" "schedule_needed demo_pit = 0" "pit_ticks demo_pit = 41"
  "processes demo_pit = processes demo_table" "next_pid demo_pit = 4"
  by (simp_all add: demo_pit_def sched_sys.extend_def pit_sys.fields_def slot_def fun_eq_iff)

lemma demo_pit_state [simp]: "state_of demo_pit = state_of demo_table"
  by (simp add: state_of_def fun_eq_iff)

lemma demo_pit_wf: "sched_wf demo_pit"
  using demo_table_wf by (simp add: sched_wf_def sched_tab_def sched_states_def)

theorem irq0_preempts_witness:
  "pit_ticks (snd (irq0_stub 0x600 demo_pit)) = 42 \<and> current_process (snd (irq0_stub 0x600 demo_pit)) \<noteq> 1"
proof -
  have "state_of demo_pit 0 = PROCESS_READY" by (simp add: state_of_def demo_proc_def)
  then show ?thesis using irq0_preempts [OF demo_pit_wf, of 0 "0x600"] by simp
qed



text \<open>The product in \<open>pit_sleep\<close> is computed in 32 bits: a request for 42949673 milliseconds, almost twelve hours,
  returns at once.\<close>

theorem pit_sleep_wraps: "pit_sleep irq 42949673 s = Some s"
  by (simp add: pit_sleep_def Let_def sleep_ticks_def sleep_loop.simps)

end
