(* ===== verification/Keyboard.thy ===== *)
theory Keyboard
  imports Pit
begin

text \<open>
  The keyboard driver, \<^verbatim>\<open>src/drivers/keyboard.c\<close>: the scancode table, the interrupt handler with its
  ring buffer of 128 cells, and the initialisation of the interrupt controllers.

  The ring is shown to be a bounded first-in first-out queue: the locale \<open>bounded_queue\<close> is the contract, the
  interpretation \<open>kbd_ring\<close> discharges it for the driver, and the refinement theorem says that every sequence
  of key interrupts and reads is one the abstract queue can make.
\<close>

section \<open>State\<close>

abbreviation KEY_UP :: u8 where "KEY_UP \<equiv> 0x80"
abbreviation KEY_DOWN :: u8 where "KEY_DOWN \<equiv> 0x81"

record kbd_sys = pit_sys +
  kbd_buffer :: "nat \<Rightarrow> u8"
  kbd_head :: u32
  kbd_tail :: u32
  is_e0_prefix :: u8

text \<open>The table of 128 characters, row by row as in the source; the initialiser leaves the rest zero.\<close>

definition scancode_ascii :: bytes where
  "scancode_ascii =
     [0, 27] @ lit ''1234567890-='' @ [ch_bs] @
     [ch_tab] @ lit ''qwertyuiop[]'' @ [ch_nl] @
     [0] @ lit ''asdfghjkl;'' @ [ch_quote, 0x60] @
     [0, 0x5C] @ lit ''zxcvbnm,./'' @ [0] @
     lit ''*'' @ [0, ch_sp] @ replicate 10 0 @
     replicate 7 0 @ [KEY_UP] @ replicate 7 0 @
     [0, KEY_DOWN] @ replicate 43 0"

section \<open>Operations\<close>

definition pic_remap :: "'a machine_scheme \<Rightarrow> 'a machine_scheme" where
  "pic_remap s =
     (let s = outb 0x20 0x11 s;
          s = outb 0xA0 0x11 s;
          s = outb 0x21 0x20 s;
          s = outb 0xA1 0x28 s;
          s = outb 0x21 0x04 s;
          s = outb 0xA1 0x02 s;
          s = outb 0x21 0x01 s;
          s = outb 0xA1 0x01 s;
          s = outb 0x21 0xFC s
      in outb 0xA1 0xFF s)"

definition keyboard_getchar :: "'a kbd_sys_scheme \<Rightarrow> u8 \<times> 'a kbd_sys_scheme" where
  "keyboard_getchar s =
     (if kbd_head s = kbd_tail s then (0, s)
      else (kbd_buffer s (unat (kbd_tail s)), s\<lparr>kbd_tail := (kbd_tail s + 1) mod 128\<rparr>))"

text \<open>The store into the ring at the end of the handler: dropped when the ring is full.\<close>

definition kbd_push :: "u8 \<Rightarrow> 'a kbd_sys_scheme \<Rightarrow> 'a kbd_sys_scheme" where
  "kbd_push c s =
     (let next_head = (kbd_head s + 1) mod 128
      in if next_head \<noteq> kbd_tail s
         then s\<lparr>kbd_buffer := (kbd_buffer s)(unat (kbd_head s) := c), kbd_head := next_head\<rparr>
         else s)"

text \<open>The character of a key press, and what happens to the prefix flag.\<close>

definition key_press :: "u8 \<Rightarrow> 'a kbd_sys_scheme \<Rightarrow> u8 \<times> 'a kbd_sys_scheme" where
  "key_press scancode s =
     (if is_e0_prefix s \<noteq> 0
      then (if scancode = 0x48 then KEY_UP else if scancode = 0x50 then KEY_DOWN else 0, s\<lparr>is_e0_prefix := 0\<rparr>)
      else (if unat scancode < length scancode_ascii then scancode_ascii ! unat scancode else 0, s))"

definition keyboard_handler :: "hardware \<Rightarrow> 'a kbd_sys_scheme \<Rightarrow> 'a kbd_sys_scheme" where
  "keyboard_handler hw s =
     (let (scancode, s) = inb hw 0x60 s
      in if scancode = 0xE0 then outb 0x20 0x20 (s\<lparr>is_e0_prefix := 1\<rparr>)
         else
           (let s = (if scancode AND 0x80 = 0
                     then (let (c, s) = key_press scancode s in if c \<noteq> 0 then kbd_push c s else s)
                     else s\<lparr>is_e0_prefix := 0\<rparr>)
            in outb 0x20 0x20 s))"

text \<open>Discarding what the controller holds may never end on a device that always has a byte ready.\<close>

partial_function (option) kbd_drain :: "hardware \<Rightarrow> 'a machine_scheme \<Rightarrow> 'a machine_scheme option" where
  "kbd_drain hw s =
     (let (status, s) = inb hw 0x64 s
      in if status AND 0x01 \<noteq> 0 then kbd_drain hw (snd (inb hw 0x60 s)) else Some s)"

declare kbd_drain.simps [code]

definition keyboard_init :: "hardware \<Rightarrow> image \<Rightarrow> 'a kbd_sys_scheme \<Rightarrow> 'a kbd_sys_scheme option" where
  "keyboard_init hw img s =
     (let s = pic_remap s;
          s = idt_set_gate 32 (addr_irq0_stub img) 0x08 0x8E s;
          s = idt_set_gate 33 (addr_irq1_stub img) 0x08 0x8E s
      in map_option (emit Sti) (kbd_drain hw s))"

section \<open>The ring as a queue\<close>

text \<open>A queue of bounded capacity whose full state drops what is pushed and whose empty state answers \<open>none\<close>.\<close>

locale bounded_queue =
  fixes push :: "'c \<Rightarrow> 's \<Rightarrow> 's"
    and pop :: "'s \<Rightarrow> 'c \<times> 's"
    and contents :: "'s \<Rightarrow> 'c list"
    and inv :: "'s \<Rightarrow> bool"
    and capacity :: nat
    and none :: 'c
  assumes push_inv: "inv s \<Longrightarrow> inv (push c s)"
    and pop_inv: "inv s \<Longrightarrow> inv (snd (pop s))"
    and contents_push: "inv s \<Longrightarrow> contents (push c s) = (if length (contents s) < capacity then contents s @ [c] else contents s)"
    and pop_value: "inv s \<Longrightarrow> fst (pop s) = (case contents s of [] \<Rightarrow> none | x # _ \<Rightarrow> x)"
    and contents_pop: "inv s \<Longrightarrow> contents (snd (pop s)) = tl (contents s)"
begin

primrec pops :: "nat \<Rightarrow> 's \<Rightarrow> 'c list" where
  "pops 0 s = []"
| "pops (Suc n) s = fst (pop s) # pops n (snd (pop s))"

lemma pushes_contents:
  "inv s \<Longrightarrow> inv (fold push cs s) \<and>
    contents (fold push cs s) = contents s @ take (capacity - length (contents s)) cs"
proof (induction cs arbitrary: s)
  case Nil
  then show ?case by simp
next
  case (Cons c cs)
  then show ?case
    using Cons.IH [of "push c s"] push_inv [of s c] contents_push [of s c]
    by (auto simp add: take_Cons' diff_Suc split: nat.split)
qed

lemma pops_contents: "inv s \<Longrightarrow> n \<le> length (contents s) \<Longrightarrow> pops n s = take n (contents s)"
proof (induction n arbitrary: s)
  case 0
  then show ?case by simp
next
  case (Suc n)
  then show ?case using pop_inv [of s] contents_pop [of s] pop_value [of s] by (cases "contents s") auto
qed

lemma fill_drain:
  assumes "inv s" and "contents s = []"
  shows "pops (min capacity (length cs)) (fold push cs s) = take capacity cs"
  using pushes_contents [OF assms(1), of cs] pops_contents [of "fold push cs s" "min capacity (length cs)"] assms(2)
  by (simp add: min_def)

end

definition kbd_inv :: "'a kbd_sys_scheme \<Rightarrow> bool" where
  "kbd_inv s \<longleftrightarrow> unat (kbd_head s) < 128 \<and> unat (kbd_tail s) < 128"

definition kbd_count :: "'a kbd_sys_scheme \<Rightarrow> nat" where
  "kbd_count s = (unat (kbd_head s) + 128 - unat (kbd_tail s)) mod 128"

definition kbd_contents :: "'a kbd_sys_scheme \<Rightarrow> bytes" where
  "kbd_contents s = map (\<lambda>i. kbd_buffer s ((unat (kbd_tail s) + i) mod 128)) [0..<kbd_count s]"

lemma unat_next_index: "unat (i :: u32) < 128 \<Longrightarrow> unat ((i + 1) mod 128) = (unat i + 1) mod 128"
  by (simp add: unat_mod unat_plus_one_no_wrap)

lemma ring_diff:
  "h < 128 \<Longrightarrow> t < (128 :: nat) \<Longrightarrow> (h + 128 - t) mod 128 = (if t \<le> h then h - t else h + 128 - t)"
  by (simp add: mod_if)

lemma ring_add:
  "t < 128 \<Longrightarrow> k < (128 :: nat) \<Longrightarrow> (t + k) mod 128 = (if t + k < 128 then t + k else t + k - 128)"
  by (simp add: mod_if)

lemma kbd_count_next:
  assumes "h < 128" and "t < (128 :: nat)"
  shows "((h + 1) mod 128 + 128 - t) mod 128 = ((h + 128 - t) mod 128 + 1) mod 128"
    and "h \<noteq> t \<Longrightarrow> (h + 128 - (t + 1) mod 128) mod 128 = (h + 128 - t) mod 128 - 1"
    and "(h + 1) mod 128 = t \<longleftrightarrow> (h + 128 - t) mod 128 = 127"
    and "h = t \<longleftrightarrow> (h + 128 - t) mod 128 = 0"
    and "(t + (h + 128 - t) mod 128) mod 128 = h"
proof -
  have nxt: "(h + 1) mod 128 = (if h = 127 then 0 else h + 1)" "(t + 1) mod 128 = (if t = 127 then 0 else t + 1)"
    using assms by auto
  note d = ring_diff [OF assms]
  have dlt: "(h + 128 - t) mod 128 < 128" by simp
  show "((h + 1) mod 128 + 128 - t) mod 128 = ((h + 128 - t) mod 128 + 1) mod 128"
    using assms by (auto simp add: nxt d mod_if)
  show "h \<noteq> t \<Longrightarrow> (h + 128 - (t + 1) mod 128) mod 128 = (h + 128 - t) mod 128 - 1"
    using assms by (auto simp add: nxt d mod_if)
  show "(h + 1) mod 128 = t \<longleftrightarrow> (h + 128 - t) mod 128 = 127" unfolding nxt d using assms by auto
  show "h = t \<longleftrightarrow> (h + 128 - t) mod 128 = 0" using assms by (auto simp add: d)
  show "(t + (h + 128 - t) mod 128) mod 128 = h" using assms by (auto simp add: ring_add [OF assms(2) dlt] d)
qed

lemma kbd_push_full:
  "kbd_inv s \<Longrightarrow> (kbd_head s + 1) mod 128 = kbd_tail s \<longleftrightarrow> kbd_count s = 127"
  unfolding kbd_inv_def kbd_count_def
  by (metis kbd_count_next(3) unat_next_index word_unat_eq_iff)

lemma kbd_inv_push: "kbd_inv s \<Longrightarrow> kbd_inv (kbd_push c s)"
  by (simp add: kbd_inv_def kbd_push_def Let_def unat_next_index)

lemma kbd_contents_push:
  assumes "kbd_inv s"
  shows "kbd_contents (kbd_push c s) =
    (if length (kbd_contents s) < 127 then kbd_contents s @ [c] else kbd_contents s)"
proof (cases "kbd_count s = 127")
  case True
  then show ?thesis using kbd_push_full [OF assms] by (simp add: kbd_push_def kbd_contents_def)
next
  case False
  define h t where "h = unat (kbd_head s)" and "t = unat (kbd_tail s)"
  have ht: "h < 128" "t < 128" using assms by (simp_all add: kbd_inv_def h_def t_def)
  have n: "kbd_count s < 127" using False by (simp add: kbd_count_def)
  have push: "kbd_push c s =
      s\<lparr>kbd_buffer := (kbd_buffer s)(h := c), kbd_head := (kbd_head s + 1) mod 128\<rparr>"
    using False kbd_push_full [OF assms] by (simp add: kbd_push_def Let_def h_def)
  have count: "kbd_count (kbd_push c s) = Suc (kbd_count s)"
    using n kbd_count_next(1) [OF ht] ht by (simp add: push kbd_count_def unat_next_index h_def t_def)
  have last: "(t + kbd_count s) mod 128 = h"
    using kbd_count_next(5) [OF ht] by (simp add: kbd_count_def h_def t_def)
  have other: "(t + i) mod 128 \<noteq> h" if "i < kbd_count s" for i
    using that n ht last by (auto simp add: ring_add split: if_splits)
  have buffer: "kbd_buffer (kbd_push c s) ((t + i) mod 128) = kbd_buffer s ((t + i) mod 128)" if "i < kbd_count s" for i
    using other [OF that] by (simp add: push)
  have tail: "unat (kbd_tail (kbd_push c s)) = t" by (simp add: push t_def)
  have "kbd_contents (kbd_push c s) =
      map (\<lambda>i. kbd_buffer (kbd_push c s) ((t + i) mod 128)) [0..<kbd_count s] @ [c]"
    by (simp add: kbd_contents_def count tail last) (simp add: push)
  also have "\<dots> = kbd_contents s @ [c]" using buffer by (simp add: kbd_contents_def t_def)
  finally show ?thesis using n by (simp add: kbd_contents_def)
qed

lemma kbd_getchar_contents:
  assumes "kbd_inv s"
  shows "kbd_inv (snd (keyboard_getchar s))"
    and "fst (keyboard_getchar s) = (case kbd_contents s of [] \<Rightarrow> 0 | x # _ \<Rightarrow> x)"
    and "kbd_contents (snd (keyboard_getchar s)) = tl (kbd_contents s)"
proof -
  define h t where "h = unat (kbd_head s)" and "t = unat (kbd_tail s)"
  have ht: "h < 128" "t < 128" using assms by (simp_all add: kbd_inv_def h_def t_def)
  show "kbd_inv (snd (keyboard_getchar s))"
    using assms by (simp add: kbd_inv_def keyboard_getchar_def unat_next_index)
  have eq: "kbd_head s = kbd_tail s \<longleftrightarrow> kbd_count s = 0"
    using kbd_count_next(4) [OF ht] by (simp add: kbd_count_def h_def t_def word_unat_eq_iff)
  show "fst (keyboard_getchar s) = (case kbd_contents s of [] \<Rightarrow> 0 | x # _ \<Rightarrow> x)"
    using ht by (cases "kbd_count s") (simp_all add: eq keyboard_getchar_def kbd_contents_def upt_rec t_def)
  show "kbd_contents (snd (keyboard_getchar s)) = tl (kbd_contents s)"
  proof (cases "kbd_count s")
    case 0
    then show ?thesis by (simp add: eq keyboard_getchar_def kbd_contents_def)
  next
    case (Suc n)
    then have ne: "h \<noteq> t" using kbd_count_next(4) [OF ht] by (simp add: kbd_count_def h_def t_def)
    define s' where "s' = s\<lparr>kbd_tail := (kbd_tail s + 1) mod 128\<rparr>"
    have pop: "snd (keyboard_getchar s) = s'" using Suc by (simp add: eq keyboard_getchar_def s'_def)
    have tail: "unat (kbd_tail s') = (t + 1) mod 128" using ht by (simp add: s'_def unat_next_index t_def)
    have count: "kbd_count s' = n"
      using Suc kbd_count_next(2) [OF ht ne] ht by (simp add: s'_def kbd_count_def unat_next_index h_def t_def)
    have "kbd_contents s' = map (\<lambda>i. kbd_buffer s ((t + Suc i) mod 128)) [0..<n]"
      by (simp add: kbd_contents_def tail count mod_simps) (simp add: s'_def)
    also have "\<dots> = tl (kbd_contents s)"
      by (simp add: kbd_contents_def Suc t_def map_upt_Suc del: upt_Suc)
    finally show ?thesis by (simp add: pop)
  qed
qed

interpretation kbd_ring: bounded_queue kbd_push keyboard_getchar kbd_contents kbd_inv 127 0
  by unfold_locales (simp_all add: kbd_inv_push kbd_contents_push kbd_getchar_contents)

section \<open>Refinement of the abstract queue\<close>

text \<open>
  The abstract keyboard: whether the last byte was the prefix \<open>0xE0\<close>, and the characters not read yet.
  \<open>key_char\<close> is the character of a key press; \<open>fifo_key\<close> and \<open>fifo_get\<close> are a key event and a read.
\<close>

definition key_char :: "bool \<Rightarrow> u8 \<Rightarrow> u8" where
  "key_char prefix k =
     (if prefix then (if k = 0x48 then KEY_UP else if k = 0x50 then KEY_DOWN else 0)
      else if unat k < 128 then scancode_ascii ! unat k else 0)"

fun fifo_key :: "u8 \<Rightarrow> bool \<times> bytes \<Rightarrow> bool \<times> bytes" where
  "fifo_key k (prefix, q) =
     (if k = 0xE0 then (True, q)
      else if bit k 7 then (False, q)
      else (False, if key_char prefix k \<noteq> 0 \<and> length q < 127 then q @ [key_char prefix k] else q))"

fun fifo_get :: "bool \<times> bytes \<Rightarrow> u8 \<times> bool \<times> bytes" where
  "fifo_get (prefix, []) = (0, prefix, [])"
| "fifo_get (prefix, c # q) = (c, prefix, q)"

datatype kbd_op = Key_Interrupt | Getchar
datatype kbd_event = Pressed u8 | Returned u8

text \<open>A run of the driver and what was observed: the scancodes that came in, the characters that went out.\<close>

fun kbd_run :: "hardware \<Rightarrow> kbd_op list \<Rightarrow> 'a kbd_sys_scheme \<Rightarrow> kbd_event list \<times> 'a kbd_sys_scheme" where
  "kbd_run hw [] s = ([], s)"
| "kbd_run hw (Key_Interrupt # ops) s =
     (let (es, t) = kbd_run hw ops (keyboard_handler hw s) in (Pressed (hw_inb hw (io_trace s) 0x60) # es, t))"
| "kbd_run hw (Getchar # ops) s =
     (let (c, s) = keyboard_getchar s; (es, t) = kbd_run hw ops s in (Returned c # es, t))"

fun fifo_accepts :: "bool \<times> bytes \<Rightarrow> kbd_event list \<Rightarrow> bool" where
  "fifo_accepts a [] \<longleftrightarrow> True"
| "fifo_accepts a (Pressed k # es) \<longleftrightarrow> fifo_accepts (fifo_key k a) es"
| "fifo_accepts a (Returned c # es) \<longleftrightarrow> c = fst (fifo_get a) \<and> fifo_accepts (snd (fifo_get a)) es"

definition kbd_abs :: "'a kbd_sys_scheme \<Rightarrow> bool \<times> bytes" where
  "kbd_abs s = (is_e0_prefix s \<noteq> 0, kbd_contents s)"

lemma scancode_ascii_length [simp]: "length scancode_ascii = 128"
  by (simp add: scancode_ascii_def lit_def)

lemma kbd_view_io [simp]:
  "kbd_inv (emit e s) = kbd_inv s" "kbd_contents (emit e s) = kbd_contents s" "is_e0_prefix (emit e s) = is_e0_prefix s"
  "kbd_inv (s\<lparr>is_e0_prefix := p\<rparr>) = kbd_inv s" "kbd_contents (s\<lparr>is_e0_prefix := p\<rparr>) = kbd_contents s"
  "is_e0_prefix (kbd_push c s) = is_e0_prefix s" "is_e0_prefix (snd (keyboard_getchar s)) = is_e0_prefix s"
  by (simp_all add: emit_def kbd_inv_def kbd_contents_def kbd_count_def kbd_push_def keyboard_getchar_def Let_def)

lemma scancode_release: "(k :: u8) AND 0x80 = 0 \<longleftrightarrow> \<not> bit k 7"
  using and_single_bit_eq_0 [of k 7] by simp

text \<open>One key interrupt: the key event of the abstract keyboard, acknowledged once.\<close>

lemma keyboard_handler_refines:
  assumes "kbd_inv s"
  shows "kbd_inv (keyboard_handler hw s)"
    and "kbd_abs (keyboard_handler hw s) = fifo_key (hw_inb hw (io_trace s) 0x60) (kbd_abs s)"
    and "events_since s (keyboard_handler hw s) = [Inb 0x60, Outb 0x20 0x20]"
proof -
  show "kbd_inv (keyboard_handler hw s)"
    using assms by (simp add: keyboard_handler_def inb_def outb_def key_press_def kbd_inv_push Let_def)
  show "kbd_abs (keyboard_handler hw s) = fifo_key (hw_inb hw (io_trace s) 0x60) (kbd_abs s)"
    using assms by (simp add: keyboard_handler_def inb_def outb_def key_press_def kbd_abs_def key_char_def
        scancode_release kbd_contents_push Let_def)
  show "events_since s (keyboard_handler hw s) = [Inb 0x60, Outb 0x20 0x20]"
    by (rule events_since_append) (simp add: keyboard_handler_def inb_def outb_def emit_def key_press_def kbd_push_def Let_def)
qed

lemma keyboard_getchar_refines:
  assumes "kbd_inv s"
  shows "fifo_get (kbd_abs s) = (fst (keyboard_getchar s), kbd_abs (snd (keyboard_getchar s)))"
  using kbd_ring.pop_value [OF assms] kbd_ring.contents_pop [OF assms]
  by (cases "kbd_contents s") (simp_all add: kbd_abs_def)

text \<open>Draining ends as soon as the controller has no byte ready; \<open>drained n\<close> is the history after \<open>n\<close> rounds.\<close>

primrec drained :: "nat \<Rightarrow> io_event list \<Rightarrow> io_event list" where
  "drained 0 h = h"
| "drained (Suc n) h = drained n (Inb 0x60 # Inb 0x64 # h)"

lemma kbd_drain_returns:
  assumes "\<not> bit (hw_inb hw (drained n (io_trace s)) 0x64) 0"
  shows "\<exists>m \<le> n. kbd_drain hw s = Some (s\<lparr>io_trace := Inb 0x64 # drained m (io_trace s)\<rparr>)"
  using assms
proof (induction n arbitrary: s)
  case 0
  then show ?case using and_single_bit_eq_0 [of "hw_inb hw (io_trace s) 0x64" 0]
    by (simp add: kbd_drain.simps inb_def emit_def)
next
  case (Suc n)
  show ?case
  proof (cases "bit (hw_inb hw (io_trace s) 0x64) 0")
    case True
    define t where "t = s\<lparr>io_trace := Inb 0x60 # Inb 0x64 # io_trace s\<rparr>"
    have step: "kbd_drain hw s = kbd_drain hw t"
      using True and_single_bit_eq_0 [of "hw_inb hw (io_trace s) 0x64" 0]
      by (subst kbd_drain.simps) (simp add: inb_def emit_def t_def)
    obtain m where "m \<le> n" "kbd_drain hw t = Some (t\<lparr>io_trace := Inb 0x64 # drained m (io_trace t)\<rparr>)"
      using Suc.IH [of t] Suc.prems by (auto simp add: t_def)
    then show ?thesis unfolding step by (intro exI [of _ "Suc m"]) (simp add: t_def)
  next
    case False
    then show ?thesis using and_single_bit_eq_0 [of "hw_inb hw (io_trace s) 0x64" 0]
      by (intro exI [of _ 0]) (simp add: kbd_drain.simps inb_def emit_def)
  qed
qed

section \<open>Properties\<close>

definition demo_kbd :: kbd_sys where
  "demo_kbd = pit_sys.extend demo_pit
     \<lparr>kbd_buffer = (\<lambda>_. 0), kbd_head = 126, kbd_tail = 126, is_e0_prefix = 0\<rparr>"

definition demo_keys :: hardware where
  "demo_keys = blank_hw\<lparr>hw_inb := (\<lambda>h p. [0x1E, 0xE0, 0x48, 0x9E, 0x30] ! (length (filter (\<lambda>e. e = Inb 0x60) h) mod 5))\<rparr>"

text \<open>C18. The keyboard ring refines a first-in first-out queue of 127 characters: in every sequence of key interrupts and
  reads, whatever scancodes the controller delivers, each read returns the oldest character not read yet (0 when there
  is none), key releases and unknown keys add nothing, and a full queue drops the new character; the indices stay inside
  the array.\<close>

theorem keyboard_refines_fifo:
  assumes "kbd_inv s"
  shows "fifo_accepts (kbd_abs s) (fst (kbd_run hw ops s)) \<and> kbd_inv (snd (kbd_run hw ops s))"
  using assms
proof (induction hw ops s rule: kbd_run.induct)
  case (1 hw s)
  then show ?case by simp
next
  case (2 hw ops s)
  then show ?case using keyboard_handler_refines(1,2) [OF 2(2)] by (simp add: split_def Let_def)
next
  case (3 hw ops s)
  note inv = kbd_ring.pop_inv [OF 3(2)]
  show ?case
    using keyboard_getchar_refines [OF 3(2)] 3(1) [OF refl prod.collapse inv] by (simp add: split_def Let_def)
qed

theorem keyboard_refines_fifo_witness:
  "fifo_accepts (False, [])
     (fst (kbd_run demo_keys [Key_Interrupt, Key_Interrupt, Getchar, Key_Interrupt, Getchar, Getchar] demo_kbd)) \<and>
   fst (kbd_run demo_keys [Key_Interrupt, Key_Interrupt, Getchar, Key_Interrupt, Getchar, Getchar] demo_kbd) =
     [Pressed 0x1E, Pressed 0xE0, Returned 0x61, Pressed 0x48, Returned KEY_UP, Returned 0]"
proof -
  have inv: "kbd_inv demo_kbd" by code_simp
  have abs: "kbd_abs demo_kbd = (False, [])" by code_simp
  have run: "fst (kbd_run demo_keys [Key_Interrupt, Key_Interrupt, Getchar, Key_Interrupt, Getchar, Getchar] demo_kbd) =
     [Pressed 0x1E, Pressed 0xE0, Returned 0x61, Pressed 0x48, Returned KEY_UP, Returned 0]" by code_simp
  show ?thesis
    using keyboard_refines_fifo [OF inv, of demo_keys "[Key_Interrupt, Key_Interrupt, Getchar, Key_Interrupt, Getchar, Getchar]"]
      run unfolding abs by blast
qed

end
