(* ===== verification/Serial.thy ===== *)
theory Serial
  imports Keyboard
begin

text \<open>
  The serial port driver, \<^verbatim>\<open>src/drivers/serial.c\<close>: the UART at \<open>COM1\<close> by polling.

  The two busy waits end only when the UART says so; they are \<open>partial_function\<close>s, and the theorem about
  \<open>serial_puts\<close> shows that it returns when the UART becomes ready again and again, and what it sends.
\<close>

abbreviation COM1_PORT :: u16 where "COM1_PORT \<equiv> 0x3F8"

section \<open>Operations\<close>

definition serial_init :: "'a machine_scheme \<Rightarrow> 'a machine_scheme" where
  "serial_init s =
     (let s = outb (COM1_PORT + 1) 0x00 s;
          s = outb (COM1_PORT + 3) 0x80 s;
          s = outb (COM1_PORT + 0) 0x03 s;
          s = outb (COM1_PORT + 1) 0x00 s;
          s = outb (COM1_PORT + 3) 0x03 s;
          s = outb (COM1_PORT + 2) 0xC7 s
      in outb (COM1_PORT + 4) 0x0B s)"

definition serial_received :: "hardware \<Rightarrow> 'a machine_scheme \<Rightarrow> u8 \<times> 'a machine_scheme" where
  "serial_received hw s = (let (status, s) = inb hw (COM1_PORT + 5) s in (status AND 1, s))"

partial_function (option) serial_wait_received :: "hardware \<Rightarrow> 'a machine_scheme \<Rightarrow> 'a machine_scheme option" where
  "serial_wait_received hw s =
     (let (r, s) = serial_received hw s in if r = 0 then serial_wait_received hw s else Some s)"

definition serial_read :: "hardware \<Rightarrow> 'a machine_scheme \<Rightarrow> (u8 \<times> 'a machine_scheme) option" where
  "serial_read hw s = map_option (inb hw COM1_PORT) (serial_wait_received hw s)"

definition is_transmit_empty :: "hardware \<Rightarrow> 'a machine_scheme \<Rightarrow> u8 \<times> 'a machine_scheme" where
  "is_transmit_empty hw s = (let (status, s) = inb hw (COM1_PORT + 5) s in (status AND 0x20, s))"

partial_function (option) serial_wait_empty :: "hardware \<Rightarrow> 'a machine_scheme \<Rightarrow> 'a machine_scheme option" where
  "serial_wait_empty hw s =
     (let (r, s) = is_transmit_empty hw s in if r = 0 then serial_wait_empty hw s else Some s)"

definition serial_putc :: "hardware \<Rightarrow> u8 \<Rightarrow> 'a machine_scheme \<Rightarrow> 'a machine_scheme option" where
  "serial_putc hw c s = map_option (outb COM1_PORT c) (serial_wait_empty hw s)"

text \<open>The loop of \<open>serial_puts\<close> over the characters of the string.\<close>

fun serial_puts_loop :: "hardware \<Rightarrow> bytes \<Rightarrow> 'a machine_scheme \<Rightarrow> 'a machine_scheme option" where
  "serial_puts_loop hw [] s = Some s"
| "serial_puts_loop hw (c # cs) s =
     Option.bind (if c = ch_nl then serial_putc hw ch_cr s else Some s)
       (\<lambda>s. Option.bind (serial_putc hw c s) (serial_puts_loop hw cs))"

text \<open>\<open>None\<close> is the NULL pointer.\<close>

definition serial_puts :: "hardware \<Rightarrow> bytes option \<Rightarrow> 'a machine_scheme \<Rightarrow> 'a machine_scheme option" where
  "serial_puts hw str s = (case str of None \<Rightarrow> Some s | Some cs \<Rightarrow> serial_puts_loop hw cs s)"

declare serial_wait_received.simps [code] serial_wait_empty.simps [code]

section \<open>What is sent\<close>

text \<open>Line feeds are sent as carriage return and line feed; \<open>sent\<close> reads the bytes sent off a history.\<close>

definition crlf :: "bytes \<Rightarrow> bytes" where
  "crlf cs = concat (map (\<lambda>c. if c = ch_nl then [ch_cr, ch_nl] else [c]) cs)"

fun sent :: "io_event list \<Rightarrow> bytes" where
  "sent [] = []"
| "sent (Outb p v # h) = (if p = COM1_PORT then sent h @ [v] else sent h)"
| "sent (e # h) = sent h"

text \<open>The UART drains its transmit register sooner or later, whatever happened before.\<close>

definition uart_drains :: "hardware \<Rightarrow> bool" where
  "uart_drains hw \<longleftrightarrow> (\<forall>h. \<exists>n. bit (hw_inb hw (replicate n (Inb (COM1_PORT + 5)) @ h) (COM1_PORT + 5)) 5)"

lemma and_0x20: "(x :: u8) AND 0x20 = 0 \<longleftrightarrow> \<not> bit x 5"
  using and_single_bit_eq_0 [of x 5] by simp

lemma serial_wait_empty_returns:
  assumes "bit (hw_inb hw (replicate n (Inb (COM1_PORT + 5)) @ io_trace s) (COM1_PORT + 5)) 5"
  shows "\<exists>m. serial_wait_empty hw s = Some (s\<lparr>io_trace := replicate m (Inb (COM1_PORT + 5)) @ io_trace s\<rparr>)"
  using assms
proof (induction n arbitrary: s)
  case 0
  then show ?case
    by (intro exI [of _ 1]) (simp add: serial_wait_empty.simps is_transmit_empty_def inb_def emit_def and_0x20)
next
  case (Suc n)
  show ?case
  proof (cases "bit (hw_inb hw (io_trace s) (COM1_PORT + 5)) 5")
    case True
    then show ?thesis
      by (intro exI [of _ 1]) (simp add: serial_wait_empty.simps is_transmit_empty_def inb_def emit_def and_0x20)
  next
    case False
    define t where "t = s\<lparr>io_trace := Inb (COM1_PORT + 5) # io_trace s\<rparr>"
    have step: "serial_wait_empty hw s = serial_wait_empty hw t"
      using False by (subst serial_wait_empty.simps) (simp add: is_transmit_empty_def inb_def emit_def and_0x20 t_def)
    obtain m where "serial_wait_empty hw t = Some (t\<lparr>io_trace := replicate m (Inb (COM1_PORT + 5)) @ io_trace t\<rparr>)"
      using Suc.IH [of t] Suc.prems by (auto simp add: t_def replicate_app_Cons_same)
    then show ?thesis unfolding step
      by (intro exI [of _ "Suc m"]) (simp add: t_def replicate_app_Cons_same)
  qed
qed

lemma sent_polls [simp]: "sent (replicate m (Inb p) @ h) = sent h"
  by (induction m) simp_all

text \<open>Histories of byte accesses to ports only.\<close>

definition byte_io :: "io_event list \<Rightarrow> bool" where
  "byte_io es \<longleftrightarrow> (\<forall>e \<in> set es. (\<exists>p. e = Inb p) \<or> (\<exists>p v. e = Outb p v))"

lemma byte_io_simps [simp]:
  "byte_io []" "byte_io (es @ fs) \<longleftrightarrow> byte_io es \<and> byte_io fs" "byte_io (Outb p v # es) \<longleftrightarrow> byte_io es"
  "byte_io (Inb p # es) \<longleftrightarrow> byte_io es" "byte_io (replicate n (Inb p))"
  by (auto simp add: byte_io_def)

definition serial_out :: "bytes \<Rightarrow> 'a machine_scheme \<Rightarrow> 'a machine_scheme option \<Rightarrow> bool" where
  "serial_out cs s r \<longleftrightarrow>
     (\<exists>es. r = Some (s\<lparr>io_trace := es @ io_trace s\<rparr>) \<and> byte_io es \<and> sent (es @ io_trace s) = sent (io_trace s) @ cs)"

lemma serial_out_nil [simp]: "serial_out [] s (Some s)"
  unfolding serial_out_def by (rule exI [where x = "[]"]) simp

lemma serial_out_bind:
  assumes "serial_out cs s r" and "\<And>t. serial_out ds t (f t)"
  shows "serial_out (cs @ ds) s (Option.bind r f)"
proof -
  obtain es where es: "r = Some (s\<lparr>io_trace := es @ io_trace s\<rparr>)" "byte_io es" "sent (es @ io_trace s) = sent (io_trace s) @ cs"
    using assms(1) by (auto simp add: serial_out_def)
  obtain fs where "f (s\<lparr>io_trace := es @ io_trace s\<rparr>) = Some (s\<lparr>io_trace := fs @ es @ io_trace s\<rparr>)" "byte_io fs"
    "sent (fs @ es @ io_trace s) = sent (es @ io_trace s) @ ds"
    using assms(2) [of "s\<lparr>io_trace := es @ io_trace s\<rparr>"] by (auto simp add: serial_out_def)
  then show ?thesis unfolding serial_out_def using es by (intro exI [of _ "fs @ es"]) simp
qed

lemma serial_putc_sends:
  assumes "uart_drains hw"
  shows "serial_out [c] s (serial_putc hw c s)"
proof -
  obtain n where "bit (hw_inb hw (replicate n (Inb (COM1_PORT + 5)) @ io_trace s) (COM1_PORT + 5)) 5"
    using assms by (auto simp add: uart_drains_def)
  then obtain m where "serial_wait_empty hw s = Some (s\<lparr>io_trace := replicate m (Inb (COM1_PORT + 5)) @ io_trace s\<rparr>)"
    using serial_wait_empty_returns by blast
  then show ?thesis unfolding serial_out_def
    by (intro exI [of _ "Outb COM1_PORT c # replicate m (Inb (COM1_PORT + 5))"])
      (simp add: serial_putc_def outb_def emit_def)
qed

lemma serial_puts_loop_sends:
  assumes "uart_drains hw"
  shows "serial_out (crlf cs) s (serial_puts_loop hw cs s)"
proof (induction cs arbitrary: s)
  case Nil
  show ?case by (simp add: crlf_def)
next
  case (Cons c cs)
  have first: "serial_out (if c = ch_nl then [ch_cr] else []) t (if c = ch_nl then serial_putc hw ch_cr t else Some t)" for t
    using serial_putc_sends [OF assms, of ch_cr t] by simp
  have "serial_out ((if c = ch_nl then [ch_cr] else []) @ [c] @ crlf cs) s (serial_puts_loop hw (c # cs) s)"
    unfolding serial_puts_loop.simps
    by (intro serial_out_bind first serial_putc_sends [OF assms] Cons.IH)
  moreover have "(if c = ch_nl then [ch_cr] else []) @ [c] @ crlf cs = crlf (c # cs)" by (simp add: crlf_def)
  ultimately show ?case by (simp only:)
qed

lemma serial_puts_sends: "uart_drains hw \<Longrightarrow> serial_out (crlf cs) s (serial_puts hw (Some cs) s)"
  by (simp add: serial_puts_def serial_puts_loop_sends)

section \<open>Properties\<close>

text \<open>A UART that is busy for one poll after every byte.\<close>

definition demo_uart :: hardware where
  "demo_uart = blank_hw\<lparr>hw_inb := (\<lambda>h p. case h of Outb _ _ # _ \<Rightarrow> 0 | _ \<Rightarrow> 0x20)\<rparr>"

lemma demo_uart_drains: "uart_drains demo_uart"
  unfolding uart_drains_def
proof
  fix h
  show "\<exists>n. bit (hw_inb demo_uart (replicate n (Inb (COM1_PORT + 5)) @ h) (COM1_PORT + 5)) 5"
    by (intro exI [of _ 1]) (simp add: demo_uart_def)
qed

text \<open>Printing on the serial line returns if the UART drains its transmit register again and again, and it sends the
  string with a carriage return before every line feed, in order, after what had been sent before.\<close>

theorem serial_puts_transmits:
  assumes "uart_drains hw"
  shows "\<exists>t. serial_puts hw (Some cs) s = Some t \<and> sent (io_trace t) = sent (io_trace s) @ crlf cs \<and> ram t = ram s"
  using serial_puts_sends [OF assms, of cs s] by (auto simp add: serial_out_def)

theorem serial_puts_transmits_witness:
  "\<exists>t. serial_puts demo_uart (Some [0x41, ch_nl]) \<lparr>io_trace = [], ram = (\<lambda>_. 7)\<rparr> = Some t \<and>
     sent (io_trace t) = [0x41, ch_cr, ch_nl]"
  using serial_puts_transmits [OF demo_uart_drains, of "[0x41, ch_nl]" "\<lparr>io_trace = [], ram = (\<lambda>_. 7)\<rparr>"]
  by (auto simp add: crlf_def)

end
