(* ===== verification/Ata.thy ===== *)
theory Ata
  imports Serial
begin

text \<open>
  The disk driver, \<^verbatim>\<open>src/drivers/ata.c\<close>: detection of a drive and the transfer of single sectors by
  programmed I/O.

  A buffer argument is the 512 bytes it holds, \<open>None\<close> for the NULL pointer; a read returns the new bytes.  The
  polling loops count a 32-bit timeout down, so they always end.  The drive itself is not code of the
  repository: \<open>drive_ok\<close> collects what the driver relies on of it (the status register, the data port
  after a read command, the sectors after a write command).  The locale \<open>sector_store\<close> is the contract the
  file system uses, interpreted on the driver for every drive that satisfies \<open>drive_ok\<close>.
\<close>

section \<open>State and ports\<close>

record ata_sys = kbd_sys +
  disk_sector_count :: u32
  disk_model :: bytes
  disk_present :: u32
  use_secondary :: u32
  use_slave :: u32

abbreviation ATA_PRIMARY_DATA :: u16 where "ATA_PRIMARY_DATA \<equiv> 0x1F0"
abbreviation ATA_PRIMARY_SECCOUNT :: u16 where "ATA_PRIMARY_SECCOUNT \<equiv> 0x1F2"
abbreviation ATA_PRIMARY_LBA_LO :: u16 where "ATA_PRIMARY_LBA_LO \<equiv> 0x1F3"
abbreviation ATA_PRIMARY_LBA_MID :: u16 where "ATA_PRIMARY_LBA_MID \<equiv> 0x1F4"
abbreviation ATA_PRIMARY_LBA_HI :: u16 where "ATA_PRIMARY_LBA_HI \<equiv> 0x1F5"
abbreviation ATA_PRIMARY_DRIVE_HEAD :: u16 where "ATA_PRIMARY_DRIVE_HEAD \<equiv> 0x1F6"
abbreviation ATA_PRIMARY_COMM_STAT :: u16 where "ATA_PRIMARY_COMM_STAT \<equiv> 0x1F7"
abbreviation ATA_SECONDARY_DATA :: u16 where "ATA_SECONDARY_DATA \<equiv> 0x170"
abbreviation ATA_SECONDARY_SECCOUNT :: u16 where "ATA_SECONDARY_SECCOUNT \<equiv> 0x172"
abbreviation ATA_SECONDARY_LBA_LO :: u16 where "ATA_SECONDARY_LBA_LO \<equiv> 0x173"
abbreviation ATA_SECONDARY_LBA_MID :: u16 where "ATA_SECONDARY_LBA_MID \<equiv> 0x174"
abbreviation ATA_SECONDARY_LBA_HI :: u16 where "ATA_SECONDARY_LBA_HI \<equiv> 0x175"
abbreviation ATA_SECONDARY_DRIVE_HEAD :: u16 where "ATA_SECONDARY_DRIVE_HEAD \<equiv> 0x176"
abbreviation ATA_SECONDARY_COMM_STAT :: u16 where "ATA_SECONDARY_COMM_STAT \<equiv> 0x177"
abbreviation ATA_CMD_READ_SECTORS :: u8 where "ATA_CMD_READ_SECTORS \<equiv> 0x20"
abbreviation ATA_CMD_WRITE_SECTORS :: u8 where "ATA_CMD_WRITE_SECTORS \<equiv> 0x30"
abbreviation ATA_CMD_IDENTIFY :: u8 where "ATA_CMD_IDENTIFY \<equiv> 0xEC"
abbreviation ATA_STAT_ERR :: u8 where "ATA_STAT_ERR \<equiv> 0x01"
abbreviation ATA_STAT_DRQ :: u8 where "ATA_STAT_DRQ \<equiv> 0x08"
abbreviation ATA_STAT_BSY :: u8 where "ATA_STAT_BSY \<equiv> 0x80"

definition ata_data_port :: "'a ata_sys_scheme \<Rightarrow> u16" where
  "ata_data_port s = (if use_secondary s \<noteq> 0 then ATA_SECONDARY_DATA else ATA_PRIMARY_DATA)"

definition ata_comm_stat_port :: "'a ata_sys_scheme \<Rightarrow> u16" where
  "ata_comm_stat_port s = (if use_secondary s \<noteq> 0 then ATA_SECONDARY_COMM_STAT else ATA_PRIMARY_COMM_STAT)"

definition ata_drive_head_port :: "'a ata_sys_scheme \<Rightarrow> u16" where
  "ata_drive_head_port s = (if use_secondary s \<noteq> 0 then ATA_SECONDARY_DRIVE_HEAD else ATA_PRIMARY_DRIVE_HEAD)"

definition ata_seccount_port :: "'a ata_sys_scheme \<Rightarrow> u16" where
  "ata_seccount_port s = (if use_secondary s \<noteq> 0 then ATA_SECONDARY_SECCOUNT else ATA_PRIMARY_SECCOUNT)"

definition ata_lba_lo_port :: "'a ata_sys_scheme \<Rightarrow> u16" where
  "ata_lba_lo_port s = (if use_secondary s \<noteq> 0 then ATA_SECONDARY_LBA_LO else ATA_PRIMARY_LBA_LO)"

definition ata_lba_mid_port :: "'a ata_sys_scheme \<Rightarrow> u16" where
  "ata_lba_mid_port s = (if use_secondary s \<noteq> 0 then ATA_SECONDARY_LBA_MID else ATA_PRIMARY_LBA_MID)"

definition ata_lba_hi_port :: "'a ata_sys_scheme \<Rightarrow> u16" where
  "ata_lba_hi_port s = (if use_secondary s \<noteq> 0 then ATA_SECONDARY_LBA_HI else ATA_PRIMARY_LBA_HI)"

section \<open>Polling\<close>

text \<open>The loop of \<open>ata_wait_bsy\<close> and \<open>ata_wait_drq\<close>; they differ only in the status they wait for.\<close>

function ata_poll :: "hardware \<Rightarrow> (u8 \<Rightarrow> bool) \<Rightarrow> u32 \<Rightarrow> 'a ata_sys_scheme \<Rightarrow> bool \<times> 'a ata_sys_scheme" where
  "ata_poll hw ready timeout s =
     (if timeout = 0 then (False, s)
      else
        (let (status, s) = inb hw (ata_comm_stat_port s) s
         in if status = 0xFF then (False, s)
            else if ready status then (True, s)
            else ata_poll hw ready (timeout - 1) s))"
  by pat_completeness auto
termination
  by (relation "measure (\<lambda>(hw, ready, timeout, s). unat timeout)")
    (simp_all add: unat_minus_one_nz unat_gt_0)

declare ata_poll.simps [simp del]

definition ata_wait_bsy :: "hardware \<Rightarrow> 'a ata_sys_scheme \<Rightarrow> bool \<times> 'a ata_sys_scheme" where
  "ata_wait_bsy hw s = ata_poll hw (\<lambda>status. status AND ATA_STAT_BSY = 0) 100000 s"

definition ata_wait_drq :: "hardware \<Rightarrow> 'a ata_sys_scheme \<Rightarrow> bool \<times> 'a ata_sys_scheme" where
  "ata_wait_drq hw s = ata_poll hw (\<lambda>status. status AND ATA_STAT_DRQ \<noteq> 0) 100000 s"

text \<open>
  The third loop, in \<open>ata_probe_drive\<close>: \<open>None\<close> when the drive reports an error, otherwise the last status and
  the counter as the loop leaves it (the failed test of an exhausted loop still decrements it).
\<close>

function probe_loop ::
    "hardware \<Rightarrow> u16 \<Rightarrow> u8 \<Rightarrow> u32 \<Rightarrow> 'a machine_scheme \<Rightarrow> (u8 \<times> u32) option \<times> 'a machine_scheme" where
  "probe_loop hw cs_port status timeout s =
     (if timeout = 0 then (Some (status, timeout - 1), s)
      else
        (let (status, s) = inb hw cs_port s
         in if status AND ATA_STAT_ERR \<noteq> 0 then (None, s)
            else if status AND ATA_STAT_DRQ \<noteq> 0 then (Some (status, timeout - 1), s)
            else probe_loop hw cs_port status (timeout - 1) s))"
  by pat_completeness auto
termination
  by (relation "measure (\<lambda>(hw, p, st, timeout, s). unat timeout)")
    (simp_all add: unat_minus_one_nz unat_gt_0)

declare probe_loop.simps [simp del]

section \<open>Transfers of 256 words\<close>

primrec read_words :: "hardware \<Rightarrow> u16 \<Rightarrow> nat \<Rightarrow> 'a machine_scheme \<Rightarrow> u16 list \<times> 'a machine_scheme" where
  "read_words hw port 0 s = ([], s)"
| "read_words hw port (Suc n) s =
     (let (w, s) = inw hw port s; (ws, s) = read_words hw port n s in (w # ws, s))"

definition write_words :: "u16 \<Rightarrow> u16 list \<Rightarrow> 'a machine_scheme \<Rightarrow> 'a machine_scheme" where
  "write_words port ws s = fold (outw port) ws s"

text \<open>The casts between the byte buffer and its little-endian words.\<close>

definition words_bytes :: "u16 list \<Rightarrow> bytes" where
  "words_bytes ws = concat (map (\<lambda>w. [ucast w, ucast (drop_bit 8 w)]) ws)"

fun bytes_words :: "bytes \<Rightarrow> u16 list" where
  "bytes_words (a # b # bs) = (ucast a OR push_bit 8 (ucast b)) # bytes_words bs"
| "bytes_words _ = []"

section \<open>Detection\<close>

definition probe_select :: "hardware \<Rightarrow> u32 \<Rightarrow> u32 \<Rightarrow> 'a ata_sys_scheme \<Rightarrow> 'a ata_sys_scheme" where
  "probe_select hw bus drive s =
     (let s = s\<lparr>use_secondary := bus, use_slave := drive\<rparr>;
          s = outb (ata_drive_head_port s) (if drive = 0 then 0xA0 else 0xB0) s;
          s = fold (\<lambda>_ s. snd (inb hw (ata_comm_stat_port s) s)) [0..<4] s;
          s = outb (ata_seccount_port s) 0 s;
          s = outb (ata_lba_lo_port s) 0 s;
          s = outb (ata_lba_mid_port s) 0 s;
          s = outb (ata_lba_hi_port s) 0 s
      in outb (ata_comm_stat_port s) ATA_CMD_IDENTIFY s)"

text \<open>Reading the identification block and what is kept of it: the model (words 27 to 46) and the sector count.\<close>

definition probe_identify :: "hardware \<Rightarrow> 'a ata_sys_scheme \<Rightarrow> 'a ata_sys_scheme" where
  "probe_identify hw s =
     (let (identify_buf, s) = read_words hw (ata_data_port s) 256 s;
          s = s\<lparr>disk_model := concat (map (\<lambda>i. let val = identify_buf ! (27 + i)
                                                in [ucast (drop_bit 8 val), ucast (val AND 0xFF)]) [0..<20]) @ [0],
                disk_sector_count := push_bit 16 (ucast (identify_buf ! 61)) OR ucast (identify_buf ! 60)\<rparr>;
          s = (if disk_sector_count s = 0 then s\<lparr>disk_sector_count := 10485760\<rparr> else s)
      in s\<lparr>disk_present := 1\<rparr>)"

definition ata_probe_drive :: "hardware \<Rightarrow> u32 \<Rightarrow> u32 \<Rightarrow> 'a ata_sys_scheme \<Rightarrow> bool \<times> 'a ata_sys_scheme" where
  "ata_probe_drive hw bus drive s =
     (let s = probe_select hw bus drive s;
          (status, s) = inb hw (ata_comm_stat_port s) s
      in if status = 0 \<or> status = 0xFF then (False, s)
         else
           (let (ready, s) = ata_wait_bsy hw s
            in if \<not> ready then (False, s)
               else
                 (let (mid, s) = inb hw (ata_lba_mid_port s) s;
                      (hi, s) = (if mid \<noteq> 0 then (0, s) else inb hw (ata_lba_hi_port s) s)
                  in if mid \<noteq> 0 \<or> hi \<noteq> 0 then (False, s)
                     else
                       (case probe_loop hw (ata_comm_stat_port s) status 100000 s of
                          (None, s) \<Rightarrow> (False, s)
                        | (Some (status, timeout), s) \<Rightarrow>
                            if timeout = 0 \<or> status AND ATA_STAT_DRQ = 0 then (False, s)
                            else (True, probe_identify hw s)))))"

fun identify_loop :: "hardware \<Rightarrow> (u32 \<times> u32) list \<Rightarrow> 'a ata_sys_scheme \<Rightarrow> bool \<times> 'a ata_sys_scheme" where
  "identify_loop hw [] s = (False, s\<lparr>disk_present := 0\<rparr>)"
| "identify_loop hw ((bus, drive) # ds) s =
     (case ata_probe_drive hw bus drive s of
        (True, s) \<Rightarrow> (True, s)
      | (False, s) \<Rightarrow> identify_loop hw ds s)"

definition ata_identify :: "hardware \<Rightarrow> 'a ata_sys_scheme \<Rightarrow> bool \<times> 'a ata_sys_scheme" where
  "ata_identify hw s = identify_loop hw [(0, 0), (0, 1), (1, 0), (1, 1)] s"

text \<open>The part of a character array before its first NUL.\<close>

definition c_string :: "bytes \<Rightarrow> bytes" where
  "c_string bs = takeWhile (\<lambda>b. b \<noteq> 0) bs"

definition ata_init :: "hardware \<Rightarrow> 'a ata_sys_scheme \<Rightarrow> 'a ata_sys_scheme" where
  "ata_init hw s =
     (case ata_identify hw s of
        (True, s) \<Rightarrow>
          (let s = con_puts (lit ''[ATA] Hard Disk Detected: '') COLOR_LIGHT_GREEN s;
               s = con_puts (c_string (disk_model s)) COLOR_WHITE s;
               s = con_puts (lit '' ('') COLOR_WHITE s;
               disk_mb = disk_sector_count s div 2048;
               s = con_puts (dec_text0 (sint disk_mb)) COLOR_WHITE s
           in con_puts (lit '' MB)'' @ [ch_nl]) COLOR_WHITE s)
      | (False, s) \<Rightarrow>
          (let s = con_puts (lit ''[ATA] No ATA Hard Disk Connected'' @ [ch_nl]) COLOR_YELLOW s
           in s\<lparr>disk_present := 0\<rparr>))"

section \<open>Sectors\<close>

text \<open>The register writes that start a transfer of one sector.\<close>

definition ata_command :: "u8 \<Rightarrow> u32 \<Rightarrow> 'a ata_sys_scheme \<Rightarrow> 'a ata_sys_scheme" where
  "ata_command cmd lba s =
     (let head_val = (if use_slave s \<noteq> 0 then 0xF0 else 0xE0) OR ucast (drop_bit 24 lba AND 0x0F);
          s = outb (ata_drive_head_port s) head_val s;
          s = outb (ata_seccount_port s) 1 s;
          s = outb (ata_lba_lo_port s) (ucast lba) s;
          s = outb (ata_lba_mid_port s) (ucast (drop_bit 8 lba)) s;
          s = outb (ata_lba_hi_port s) (ucast (drop_bit 16 lba)) s
      in outb (ata_comm_stat_port s) cmd s)"

text \<open>\<open>!ata_wait_bsy() || !ata_wait_drq()\<close>, with its short circuit.\<close>

definition ata_wait_ready :: "hardware \<Rightarrow> 'a ata_sys_scheme \<Rightarrow> bool \<times> 'a ata_sys_scheme" where
  "ata_wait_ready hw s =
     (let (ready, s) = ata_wait_bsy hw s in if \<not> ready then (False, s) else ata_wait_drq hw s)"

definition ata_read_sector ::
    "hardware \<Rightarrow> u32 \<Rightarrow> bytes option \<Rightarrow> 'a ata_sys_scheme \<Rightarrow> int \<times> bytes option \<times> 'a ata_sys_scheme" where
  "ata_read_sector hw lba buffer s =
     (if disk_present s = 0 \<or> buffer = None then (- 1, buffer, s)
      else
        (let (ready, s) = ata_wait_bsy hw s
         in if \<not> ready then (- 1, buffer, s)
            else
              (let s = ata_command ATA_CMD_READ_SECTORS lba s;
                   (ready, s) = ata_wait_ready hw s
               in if \<not> ready then (- 1, buffer, s)
                  else
                    (let (ws, s) = read_words hw (ata_data_port s) 256 s
                     in (0, Some (words_bytes ws), s)))))"

definition ata_write_sector ::
    "hardware \<Rightarrow> u32 \<Rightarrow> bytes option \<Rightarrow> 'a ata_sys_scheme \<Rightarrow> int \<times> 'a ata_sys_scheme" where
  "ata_write_sector hw lba buffer s =
     (case buffer of
        None \<Rightarrow> (- 1, s)
      | Some bs \<Rightarrow>
          if disk_present s = 0 then (- 1, s)
          else
            (let (ready, s) = ata_wait_bsy hw s
             in if \<not> ready then (- 1, s)
                else
                  (let s = ata_command ATA_CMD_WRITE_SECTORS lba s;
                       (ready, s) = ata_wait_ready hw s
                   in if \<not> ready then (- 1, s)
                      else
                        (let s = write_words (ata_data_port s) (bytes_words bs) s;
                             s = outb (ata_comm_stat_port s) 0xE7 s
                         in (0, snd (ata_wait_bsy hw s))))))"

definition ata_get_sector_count :: "'a ata_sys_scheme \<Rightarrow> u32" where
  "ata_get_sector_count s = disk_sector_count s"

definition ata_get_model :: "'a ata_sys_scheme \<Rightarrow> bytes" where
  "ata_get_model s = disk_model s"

definition ata_flush :: "hardware \<Rightarrow> 'a ata_sys_scheme \<Rightarrow> 'a ata_sys_scheme" where
  "ata_flush hw s =
     (if disk_present s = 0 then s
      else
        (let (ready, s) = ata_wait_bsy hw s
         in if \<not> ready then s
            else snd (ata_wait_bsy hw (outb (ata_comm_stat_port s) 0xE7 s))))"

section \<open>The driver only adds to the history\<close>

lemma ata_ports_frame [simp]:
  "ata_data_port (s\<lparr>io_trace := h\<rparr>) = ata_data_port s"
  "ata_comm_stat_port (s\<lparr>io_trace := h\<rparr>) = ata_comm_stat_port s"
  "ata_drive_head_port (s\<lparr>io_trace := h\<rparr>) = ata_drive_head_port s"
  "ata_seccount_port (s\<lparr>io_trace := h\<rparr>) = ata_seccount_port s"
  "ata_lba_lo_port (s\<lparr>io_trace := h\<rparr>) = ata_lba_lo_port s"
  "ata_lba_mid_port (s\<lparr>io_trace := h\<rparr>) = ata_lba_mid_port s"
  "ata_lba_hi_port (s\<lparr>io_trace := h\<rparr>) = ata_lba_hi_port s"
  by (simp_all add: ata_data_port_def ata_comm_stat_port_def ata_drive_head_port_def ata_seccount_port_def
      ata_lba_lo_port_def ata_lba_mid_port_def ata_lba_hi_port_def)

abbreviation polls :: "nat \<Rightarrow> 'a ata_sys_scheme \<Rightarrow> io_event list" where
  "polls n s \<equiv> replicate n (Inb (ata_comm_stat_port s))"

text \<open>Polling always ends, after at most \<open>timeout\<close> reads of the status register.\<close>

lemma ata_poll_bounded:
  "\<exists>r n. ata_poll hw ready timeout s = (r, s\<lparr>io_trace := polls n s @ io_trace s\<rparr>) \<and> n \<le> unat timeout"
proof (induction hw ready timeout s rule: ata_poll.induct)
  case (1 hw ready timeout s)
  define t where "t = s\<lparr>io_trace := Inb (ata_comm_stat_port s) # io_trace s\<rparr>"
  define st where "st = hw_inb hw (io_trace s) (ata_comm_stat_port s)"
  have io: "inb hw (ata_comm_stat_port s) s = (st, t)" by (simp add: inb_def emit_def t_def st_def)
  show ?case
  proof (cases "timeout = 0 \<or> st = 0xFF \<or> ready st")
    case True
    then show ?thesis
    proof (cases "timeout = 0")
      case True
      then show ?thesis by (intro exI [of _ False] exI [of _ 0]) (simp add: ata_poll.simps)
    next
      case False
      then have "1 \<le> unat timeout" by (simp add: Suc_le_eq unat_gt_0)
      then show ?thesis using True False
        by (intro exI [of _ "st \<noteq> 0xFF"] exI [of _ 1]) (auto simp add: ata_poll.simps [of hw ready timeout s] io t_def)
    qed
  next
    case False
    then have step: "ata_poll hw ready timeout s = ata_poll hw ready (timeout - 1) t"
      by (simp add: ata_poll.simps [of hw ready timeout s] io)
    obtain r n where "ata_poll hw ready (timeout - 1) t = (r, t\<lparr>io_trace := polls n t @ io_trace t\<rparr>)"
      "n \<le> unat (timeout - 1)"
      using 1 [OF _ io [symmetric] refl] False by blast
    moreover have "unat (timeout - 1) = unat timeout - 1" "0 < unat timeout"
      using False by (simp_all add: unat_minus_one_nz unat_gt_0)
    ultimately show ?thesis unfolding step
      by (intro exI [of _ r] exI [of _ "Suc n"]) (simp add: t_def replicate_app_Cons_same)
  qed
qed

text \<open>It succeeds when the status waited for comes in time on a bus that does not float.\<close>

lemma ata_poll_ready:
  assumes "n < unat timeout" and "ready (hw_inb hw (polls n s @ io_trace s) (ata_comm_stat_port s))"
    and "\<And>m. m \<le> n \<Longrightarrow> hw_inb hw (polls m s @ io_trace s) (ata_comm_stat_port s) \<noteq> 0xFF"
  shows "\<exists>k. ata_poll hw ready timeout s = (True, s\<lparr>io_trace := polls k s @ io_trace s\<rparr>)"
  using assms
proof (induction n arbitrary: timeout s)
  case 0
  then have "timeout \<noteq> 0" by auto
  then show ?case using 0(2) 0(3) [of 0]
    by (intro exI [of _ 1]) (simp add: ata_poll.simps [of hw ready timeout s] inb_def emit_def)
next
  case (Suc n)
  define t where "t = s\<lparr>io_trace := Inb (ata_comm_stat_port s) # io_trace s\<rparr>"
  define st where "st = hw_inb hw (io_trace s) (ata_comm_stat_port s)"
  have io: "inb hw (ata_comm_stat_port s) s = (st, t)" by (simp add: inb_def emit_def t_def st_def)
  have nz: "timeout \<noteq> 0" "st \<noteq> 0xFF" using Suc.prems(1) Suc.prems(3) [of 0] by (auto simp add: st_def)
  show ?case
  proof (cases "ready st")
    case True
    then show ?thesis using nz
      by (intro exI [of _ 1]) (simp add: ata_poll.simps [of hw ready timeout s] io t_def)
  next
    case False
    have step: "ata_poll hw ready timeout s = ata_poll hw ready (timeout - 1) t"
      using nz False by (simp add: ata_poll.simps [of hw ready timeout s] io)
    have shift: "polls m t @ io_trace t = polls (Suc m) s @ io_trace s" for m
      by (simp add: t_def replicate_app_Cons_same)
    have "\<exists>k. ata_poll hw ready (timeout - 1) t = (True, t\<lparr>io_trace := polls k t @ io_trace t\<rparr>)"
    proof (rule Suc.IH)
      show "n < unat (timeout - 1)" using Suc.prems(1) nz by (simp add: unat_minus_one_nz)
      show "ready (hw_inb hw (polls n t @ io_trace t) (ata_comm_stat_port t))"
        unfolding shift using Suc.prems(2) by (simp add: t_def)
      show "hw_inb hw (polls m t @ io_trace t) (ata_comm_stat_port t) \<noteq> 0xFF" if "m \<le> n" for m
        unfolding shift using Suc.prems(3) [of "Suc m"] that by (simp add: t_def)
    qed
    then obtain k where "ata_poll hw ready (timeout - 1) t = (True, t\<lparr>io_trace := polls (Suc k) s @ io_trace s\<rparr>)"
      unfolding shift by blast
    then show ?thesis unfolding step by (intro exI [of _ "Suc k"]) (simp add: t_def)
  qed
qed

lemma read_words_trace:
  "read_words hw port n s =
    (map (\<lambda>i. hw_inw hw (replicate i (Inw port) @ io_trace s) port) [0..<n],
     s\<lparr>io_trace := replicate n (Inw port) @ io_trace s\<rparr>)"
proof (induction n arbitrary: s)
  case 0
  show ?case by simp
next
  case (Suc n)
  show ?case
    by (simp add: inw_def Suc.IH emit_def replicate_app_Cons_same map_upt_Suc del: upt_Suc)
qed

lemma write_words_trace:
  "write_words port ws s = s\<lparr>io_trace := rev (map (Outw port) ws) @ io_trace s\<rparr>"
  unfolding write_words_def by (induction ws arbitrary: s) (simp_all add: outw_def emit_def)

lemma words_bytes_length: "length (words_bytes ws) = 2 * length ws"
  by (induction ws) (simp_all add: words_bytes_def)

lemma word_of_bytes:
  "ucast (ucast a OR push_bit 8 (ucast b) :: u16) = (a :: u8)"
  "ucast (drop_bit 8 (ucast a OR push_bit 8 (ucast b) :: u16)) = (b :: u8)"
  by (rule bit_word_eqI, auto simp add: bit_simps dest: bit_imp_le_length)+

lemma bytes_words_length: "length (bytes_words bs) = length bs div 2"
  by (induction bs rule: bytes_words.induct) simp_all

lemma words_bytes_words: "even (length bs) \<Longrightarrow> words_bytes (bytes_words bs) = bs"
  by (induction bs rule: bytes_words.induct) (simp_all add: words_bytes_def word_of_bytes del: drop_bit_or)

lemma word_of_word: "(ucast (ucast w :: u8) OR push_bit 8 (ucast (ucast (drop_bit 8 w) :: u8)) :: u16) = w"
proof (rule bit_word_eqI)
  fix n
  assume "n < LENGTH(16)"
  then show "bit (ucast (ucast w :: u8) OR push_bit 8 (ucast (ucast (drop_bit 8 w) :: u8)) :: u16) n = bit w n"
    by (auto simp add: bit_simps)
qed

lemma bytes_words_bytes [simp]: "bytes_words (words_bytes ws) = ws"
  by (induction ws) (simp_all add: words_bytes_def word_of_word)

definition command_events :: "u8 \<Rightarrow> u32 \<Rightarrow> 'a ata_sys_scheme \<Rightarrow> io_event list" where
  "command_events cmd lba s =
     [Outb (ata_comm_stat_port s) cmd,
      Outb (ata_lba_hi_port s) (ucast (drop_bit 16 lba)),
      Outb (ata_lba_mid_port s) (ucast (drop_bit 8 lba)),
      Outb (ata_lba_lo_port s) (ucast lba),
      Outb (ata_seccount_port s) 1,
      Outb (ata_drive_head_port s) ((if use_slave s \<noteq> 0 then 0xF0 else 0xE0) OR ucast (drop_bit 24 lba AND 0x0F))]"

lemma ata_command_trace: "ata_command cmd lba s = s\<lparr>io_trace := command_events cmd lba s @ io_trace s\<rparr>"
  by (simp add: ata_command_def command_events_def outb_def emit_def Let_def)

lemma command_events_frame [simp]: "command_events cmd lba (s\<lparr>io_trace := h\<rparr>) = command_events cmd lba s"
  by (simp add: command_events_def)

section \<open>What the driver relies on of a drive\<close>

text \<open>
  \<open>medium h\<close> is what the sectors hold after the history \<open>h\<close>.  The drive is named by the channel and unit
  selected in \<open>s\<close>; nothing else of \<open>s\<close> matters.
  \<^item> \<open>drive_ready\<close>: BSY clears within the number of polls the driver makes, and the bus does not float.
  \<^item> \<open>drive_requests\<close>: after a read or write command DRQ rises within the same number of polls.
  \<^item> \<open>drive_delivers\<close>: after a read command the data port delivers the 256 words of the sector.
  \<^item> \<open>drive_stores\<close>: after a write command the 256 words sent become the sector, and no other sector changes.
  \<^item> \<open>drive_keeps\<close>: nothing but words sent to the data port changes a sector.
\<close>

definition drive_ready :: "hardware \<Rightarrow> 'a ata_sys_scheme \<Rightarrow> bool" where
  "drive_ready hw s \<longleftrightarrow>
     (\<forall>h. \<exists>n < 100000. hw_inb hw (polls n s @ h) (ata_comm_stat_port s) AND ATA_STAT_BSY = 0 \<and>
        (\<forall>m \<le> n. hw_inb hw (polls m s @ h) (ata_comm_stat_port s) \<noteq> 0xFF))"

definition drive_requests :: "hardware \<Rightarrow> 'a ata_sys_scheme \<Rightarrow> bool" where
  "drive_requests hw s \<longleftrightarrow>
     (\<forall>h cmd lba k. cmd = ATA_CMD_READ_SECTORS \<or> cmd = ATA_CMD_WRITE_SECTORS \<longrightarrow>
        (\<exists>n < 100000.
           hw_inb hw (polls n s @ polls k s @ command_events cmd lba s @ h) (ata_comm_stat_port s) AND ATA_STAT_DRQ \<noteq> 0 \<and>
           (\<forall>m \<le> n. hw_inb hw (polls m s @ polls k s @ command_events cmd lba s @ h) (ata_comm_stat_port s) \<noteq> 0xFF)))"

definition drive_delivers :: "hardware \<Rightarrow> (io_event list \<Rightarrow> u32 \<Rightarrow> bytes) \<Rightarrow> 'a ata_sys_scheme \<Rightarrow> bool" where
  "drive_delivers hw medium s \<longleftrightarrow>
     (\<forall>h lba k. map (\<lambda>i. hw_inw hw (replicate i (Inw (ata_data_port s)) @ polls k s @
                           command_events ATA_CMD_READ_SECTORS lba s @ h) (ata_data_port s)) [0..<256] =
        bytes_words (medium h (take_bit 28 lba)))"

definition drive_stores :: "(io_event list \<Rightarrow> u32 \<Rightarrow> bytes) \<Rightarrow> 'a ata_sys_scheme \<Rightarrow> bool" where
  "drive_stores medium s \<longleftrightarrow>
     (\<forall>h lba k ws. length ws = 256 \<longrightarrow>
        medium (rev (map (Outw (ata_data_port s)) ws) @ polls k s @ command_events ATA_CMD_WRITE_SECTORS lba s @ h) =
        (medium h)(take_bit 28 lba := words_bytes ws))"

definition drive_keeps :: "(io_event list \<Rightarrow> u32 \<Rightarrow> bytes) \<Rightarrow> 'a ata_sys_scheme \<Rightarrow> bool" where
  "drive_keeps medium s \<longleftrightarrow>
     (\<forall>h l. length (medium h l) = 512) \<and>
     (\<forall>e h. (\<forall>w. e \<noteq> Outw (ata_data_port s) w) \<longrightarrow> medium (e # h) = medium h)"

definition drive_ok :: "hardware \<Rightarrow> (io_event list \<Rightarrow> u32 \<Rightarrow> bytes) \<Rightarrow> 'a ata_sys_scheme \<Rightarrow> bool" where
  "drive_ok hw medium s \<longleftrightarrow>
     drive_ready hw s \<and> drive_requests hw s \<and> drive_delivers hw medium s \<and> drive_stores medium s \<and> drive_keeps medium s"

lemmas drive_defs = drive_ready_def drive_requests_def drive_delivers_def drive_stores_def drive_keeps_def

lemma drive_ok_frame [simp]: "drive_ok hw medium (s\<lparr>io_trace := h\<rparr>) = drive_ok hw medium s"
  by (simp add: drive_ok_def drive_defs)

lemma medium_quiet:
  assumes "drive_keeps medium s" and "\<And>e w. e \<in> set es \<Longrightarrow> e \<noteq> Outw (ata_data_port s) w"
  shows "medium (es @ h) = medium h"
  using assms(2)
proof (induction es)
  case Nil
  show ?case by simp
next
  case (Cons e es)
  then show ?case using assms(1) by (simp add: drive_keeps_def)
qed

lemma ata_wait_bsy_ok:
  assumes "drive_ok hw medium s"
  obtains k where "ata_wait_bsy hw s = (True, s\<lparr>io_trace := polls k s @ io_trace s\<rparr>)"
proof -
  obtain n where "n < 100000"
    "hw_inb hw (polls n s @ io_trace s) (ata_comm_stat_port s) AND ATA_STAT_BSY = 0"
    "\<forall>m \<le> n. hw_inb hw (polls m s @ io_trace s) (ata_comm_stat_port s) \<noteq> 0xFF"
    using assms unfolding drive_ok_def drive_ready_def by blast
  then have "\<exists>k. ata_wait_bsy hw s = (True, s\<lparr>io_trace := polls k s @ io_trace s\<rparr>)"
    unfolding ata_wait_bsy_def by (intro ata_poll_ready [of n]) simp_all
  then show ?thesis using that by blast
qed

lemma ata_wait_drq_ok:
  assumes "drive_ok hw medium s" and "cmd = ATA_CMD_READ_SECTORS \<or> cmd = ATA_CMD_WRITE_SECTORS"
    and "io_trace s = polls k s @ command_events cmd lba s @ h"
  obtains j where "ata_wait_drq hw s = (True, s\<lparr>io_trace := polls j s @ io_trace s\<rparr>)"
proof -
  obtain n where "n < 100000"
    "hw_inb hw (polls n s @ io_trace s) (ata_comm_stat_port s) AND ATA_STAT_DRQ \<noteq> 0"
    "\<forall>m \<le> n. hw_inb hw (polls m s @ io_trace s) (ata_comm_stat_port s) \<noteq> 0xFF"
    using assms(1,2) unfolding drive_ok_def drive_requests_def assms(3) by blast
  then have "\<exists>j. ata_wait_drq hw s = (True, s\<lparr>io_trace := polls j s @ io_trace s\<rparr>)"
    unfolding ata_wait_drq_def by (intro ata_poll_ready [of n]) simp_all
  then show ?thesis using that by blast
qed

text \<open>A command on a drive that works: the drive is ready for the data, and the history says why.\<close>

lemma ata_wait_ready_ok:
  assumes "drive_ok hw medium s" and "cmd = ATA_CMD_READ_SECTORS \<or> cmd = ATA_CMD_WRITE_SECTORS"
  obtains k where "ata_wait_ready hw (ata_command cmd lba s) =
    (True, s\<lparr>io_trace := polls k s @ command_events cmd lba s @ io_trace s\<rparr>)"
proof -
  define t where "t = ata_command cmd lba s"
  have t: "t = s\<lparr>io_trace := command_events cmd lba s @ io_trace s\<rparr>" by (simp add: t_def ata_command_trace)
  obtain k where k: "ata_wait_bsy hw t = (True, s\<lparr>io_trace := polls k s @ command_events cmd lba s @ io_trace s\<rparr>)"
    using ata_wait_bsy_ok [of hw medium t] assms(1) by (auto simp add: t)
  define u where "u = s\<lparr>io_trace := polls k s @ command_events cmd lba s @ io_trace s\<rparr>"
  obtain j where "ata_wait_drq hw u = (True, u\<lparr>io_trace := polls j u @ io_trace u\<rparr>)"
    using ata_wait_drq_ok [of hw medium u cmd k lba "io_trace s"] assms by (auto simp add: u_def)
  then have "ata_wait_ready hw t = (True, s\<lparr>io_trace := polls (j + k) s @ command_events cmd lba s @ io_trace s\<rparr>)"
    using k by (simp add: ata_wait_ready_def u_def [symmetric]) (simp add: u_def replicate_add)
  then show ?thesis using that by (simp add: t_def)
qed

lemma quiet_events:
  "e \<in> set (polls k s) \<Longrightarrow> e \<noteq> Outw p w" "e \<in> set (command_events cmd lba s) \<Longrightarrow> e \<noteq> Outw p w"
  "e \<in> set (replicate k (Inw q)) \<Longrightarrow> e \<noteq> Outw p w"
  by (auto simp add: command_events_def)

lemma medium_silent:
  assumes "drive_ok hw medium s"
  shows "medium (polls k s @ h) = medium h" and "medium (command_events cmd lba s @ h) = medium h"
    and "medium (replicate k (Inw q) @ h) = medium h" and "medium (Outb q v # h) = medium h"
proof -
  have keeps: "drive_keeps medium s" using assms by (simp add: drive_ok_def)
  show "medium (polls k s @ h) = medium h" "medium (command_events cmd lba s @ h) = medium h"
    "medium (replicate k (Inw q) @ h) = medium h"
    by (rule medium_quiet [OF keeps], erule quiet_events)+
  show "medium (Outb q v # h) = medium h" using medium_quiet [OF keeps, of "[Outb q v]" h] by simp
qed

lemma medium_length: "drive_ok hw medium s \<Longrightarrow> length (medium h l) = 512"
  by (simp add: drive_ok_def drive_keeps_def)

lemma ata_read_sector_ok:
  assumes "drive_ok hw medium s" and "disk_present s \<noteq> 0"
  shows "\<exists>h. ata_read_sector hw lba (Some b) s =
      (0, Some (medium (io_trace s) (take_bit 28 lba)), s\<lparr>io_trace := h\<rparr>) \<and> medium h = medium (io_trace s)"
proof -
  obtain j where j: "ata_wait_bsy hw s = (True, s\<lparr>io_trace := polls j s @ io_trace s\<rparr>)"
    by (rule ata_wait_bsy_ok [OF assms(1)])
  define t where "t = s\<lparr>io_trace := polls j s @ io_trace s\<rparr>"
  have t: "drive_ok hw medium t" using assms(1) by (simp add: t_def)
  obtain k where k: "ata_wait_ready hw (ata_command ATA_CMD_READ_SECTORS lba t) =
      (True, t\<lparr>io_trace := polls k t @ command_events ATA_CMD_READ_SECTORS lba t @ io_trace t\<rparr>)"
    by (rule ata_wait_ready_ok [OF t, of ATA_CMD_READ_SECTORS lba]) auto
  define c where "c = polls k t @ command_events ATA_CMD_READ_SECTORS lba t @ io_trace t"
  define h where "h = replicate 256 (Inw (ata_data_port t)) @ c"
  have ws: "map (\<lambda>i. hw_inw hw (replicate i (Inw (ata_data_port t)) @ c) (ata_data_port t)) [0..<256] =
      bytes_words (medium (io_trace t) (take_bit 28 lba))"
    using t unfolding drive_ok_def drive_delivers_def c_def by blast
  have run: "ata_read_sector hw lba (Some b) s =
      (0, Some (words_bytes (bytes_words (medium (io_trace t) (take_bit 28 lba)))), t\<lparr>io_trace := h\<rparr>)"
    using assms(2) j k ws
    by (simp add: ata_read_sector_def t_def [symmetric] read_words_trace c_def [symmetric] h_def del: upt_rec_numeral)
  have "medium (io_trace t) = medium (io_trace s)" "medium h = medium (io_trace t)"
    using medium_silent [OF t] medium_silent [OF assms(1)] by (simp_all add: h_def c_def t_def)
  then show ?thesis using medium_length [OF t]
    by (intro exI [of _ h]) (simp add: run words_bytes_words t_def)
qed

lemma ata_write_sector_ok:
  assumes "drive_ok hw medium s" and "disk_present s \<noteq> 0" and "length b = 512"
  shows "\<exists>h. ata_write_sector hw lba (Some b) s = (0, s\<lparr>io_trace := h\<rparr>) \<and>
      medium h = (medium (io_trace s))(take_bit 28 lba := b)"
proof -
  obtain j where j: "ata_wait_bsy hw s = (True, s\<lparr>io_trace := polls j s @ io_trace s\<rparr>)"
    by (rule ata_wait_bsy_ok [OF assms(1)])
  define t where "t = s\<lparr>io_trace := polls j s @ io_trace s\<rparr>"
  have t: "drive_ok hw medium t" using assms(1) by (simp add: t_def)
  obtain k where k: "ata_wait_ready hw (ata_command ATA_CMD_WRITE_SECTORS lba t) =
      (True, t\<lparr>io_trace := polls k t @ command_events ATA_CMD_WRITE_SECTORS lba t @ io_trace t\<rparr>)"
    by (rule ata_wait_ready_ok [OF t, of ATA_CMD_WRITE_SECTORS lba]) auto
  define c where "c = rev (map (Outw (ata_data_port t)) (bytes_words b)) @
      polls k t @ command_events ATA_CMD_WRITE_SECTORS lba t @ io_trace t"
  define u where "u = t\<lparr>io_trace := Outb (ata_comm_stat_port t) 0xE7 # c\<rparr>"
  obtain l where l: "ata_wait_bsy hw u = (True, u\<lparr>io_trace := polls l u @ io_trace u\<rparr>)"
    using ata_wait_bsy_ok [of hw medium u] t by (auto simp add: u_def)
  define h where "h = polls l u @ io_trace u"
  have run: "ata_write_sector hw lba (Some b) s = (0, t\<lparr>io_trace := h\<rparr>)"
    using assms(2) j k l
    by (simp add: ata_write_sector_def t_def [symmetric] write_words_trace c_def [symmetric] outb_def emit_def
        u_def [symmetric] h_def [symmetric]) (simp add: u_def)
  have "medium c = (medium (io_trace t))(take_bit 28 lba := words_bytes (bytes_words b))"
    using t assms(3) unfolding drive_ok_def drive_stores_def c_def by (simp add: bytes_words_length)
  moreover have "medium (io_trace t) = medium (io_trace s)" using medium_silent [OF assms(1)] by (simp add: t_def)
  moreover have "medium h = medium c" using medium_silent [OF t] by (simp add: h_def u_def)
  ultimately have "medium h = (medium (io_trace s))(take_bit 28 lba := b)"
    using assms(3) by (simp add: words_bytes_words)
  then show ?thesis by (intro exI [of _ h]) (simp add: run t_def)
qed

section \<open>The contract of a sector store\<close>

text \<open>
  What the file system uses: sectors of 512 bytes, addressed by the low 28 bits of a number; \<open>rest\<close> is the part
  of the state that reading and writing leave alone.
\<close>

locale sector_store =
  fixes read_sector :: "u32 \<Rightarrow> bytes option \<Rightarrow> 's \<Rightarrow> int \<times> bytes option \<times> 's"
    and write_sector :: "u32 \<Rightarrow> bytes option \<Rightarrow> 's \<Rightarrow> int \<times> 's"
    and sectors :: "'s \<Rightarrow> u32 \<Rightarrow> bytes"
    and online :: "'s \<Rightarrow> bool"
    and rest :: "'s \<Rightarrow> 'r"
  assumes read_law: "online s \<Longrightarrow>
      \<exists>t. read_sector l (Some b) s = (0, Some (sectors s (take_bit 28 l)), t) \<and> online t \<and> sectors t = sectors s \<and> rest t = rest s"
    and write_law: "online s \<Longrightarrow> length b = 512 \<Longrightarrow>
      \<exists>t. write_sector l (Some b) s = (0, t) \<and> online t \<and> sectors t = (sectors s)(take_bit 28 l := b) \<and> rest t = rest s"
begin

lemma read_sector_elim:
  assumes "online s"
  obtains t where "read_sector l (Some b) s = (0, Some (sectors s (take_bit 28 l)), t)" and "online t"
    and "sectors t = sectors s" and "rest t = rest s"
  using read_law [OF assms, of l b] that by blast

lemma write_sector_elim:
  assumes "online s" and "length b = 512"
  obtains t where "write_sector l (Some b) s = (0, t)" and "online t"
    and "sectors t = (sectors s)(take_bit 28 l := b)" and "rest t = rest s"
  using write_law [OF assms, of l] that by blast

lemma read_after_write:
  assumes "online s" and "length b = 512"
  shows "fst (snd (read_sector k (Some c) (snd (write_sector l (Some b) s)))) =
    Some (if take_bit 28 k = take_bit 28 l then b else sectors s (take_bit 28 k))"
proof -
  obtain t where t: "write_sector l (Some b) s = (0, t)" "online t" "sectors t = (sectors s)(take_bit 28 l := b)"
    by (rule write_sector_elim [OF assms])
  show ?thesis by (rule read_sector_elim [OF t(2), of k c]) (simp add: t)
qed

end

definition ata_online :: "hardware \<Rightarrow> (io_event list \<Rightarrow> u32 \<Rightarrow> bytes) \<Rightarrow> 'a ata_sys_scheme \<Rightarrow> bool" where
  "ata_online hw medium s \<longleftrightarrow> drive_ok hw medium s \<and> disk_present s \<noteq> 0"

definition ata_sectors :: "(io_event list \<Rightarrow> u32 \<Rightarrow> bytes) \<Rightarrow> 'a ata_sys_scheme \<Rightarrow> u32 \<Rightarrow> bytes" where
  "ata_sectors medium s = medium (io_trace s)"

definition off_line :: "'a ata_sys_scheme \<Rightarrow> 'a ata_sys_scheme" where
  "off_line s = s\<lparr>io_trace := []\<rparr>"

lemma off_line_trace [simp]: "off_line (s\<lparr>io_trace := h\<rparr>) = off_line s"
  by (simp add: off_line_def)

interpretation ata_store: sector_store "ata_read_sector hw" "ata_write_sector hw" "ata_sectors medium"
    "ata_online hw medium" off_line
proof
  fix s :: "'a ata_sys_scheme" and l :: u32 and b :: bytes
  assume "ata_online hw medium s"
  then have s: "drive_ok hw medium s" "disk_present s \<noteq> 0" by (simp_all add: ata_online_def)
  obtain h where "ata_read_sector hw l (Some b) s =
      (0, Some (medium (io_trace s) (take_bit 28 l)), s\<lparr>io_trace := h\<rparr>)" "medium h = medium (io_trace s)"
    using ata_read_sector_ok [OF s] by blast
  then show "\<exists>t. ata_read_sector hw l (Some b) s = (0, Some (ata_sectors medium s (take_bit 28 l)), t) \<and>
      ata_online hw medium t \<and> ata_sectors medium t = ata_sectors medium s \<and> off_line t = off_line s"
    using s by (intro exI [of _ "s\<lparr>io_trace := h\<rparr>"]) (simp add: ata_sectors_def ata_online_def)
next
  fix s :: "'a ata_sys_scheme" and l :: u32 and b :: bytes
  assume "ata_online hw medium s" and b: "length b = 512"
  then have s: "drive_ok hw medium s" "disk_present s \<noteq> 0" by (simp_all add: ata_online_def)
  obtain h where "ata_write_sector hw l (Some b) s = (0, s\<lparr>io_trace := h\<rparr>)"
    "medium h = (medium (io_trace s))(take_bit 28 l := b)"
    using ata_write_sector_ok [OF s b] by blast
  then show "\<exists>t. ata_write_sector hw l (Some b) s = (0, t) \<and>
      ata_online hw medium t \<and> ata_sectors medium t = (ata_sectors medium s)(take_bit 28 l := b) \<and> off_line t = off_line s"
    using s by (intro exI [of _ "s\<lparr>io_trace := h\<rparr>"]) (simp add: fun_upd_def ata_sectors_def ata_online_def)
qed

section \<open>A drive that satisfies the hypotheses\<close>

text \<open>
  A simulated master drive on the primary channel: the task file registers, the transfer in progress, and
  the sectors, as a function of the history.  It shows that the hypotheses on drives can hold.
\<close>

datatype sim_mode = Sim_Idle | Sim_Read nat | Sim_Write "u16 list"

record sim_drive =
  sim_lo :: u8
  sim_mid :: u8
  sim_hi :: u8
  sim_head :: u8
  sim_mode :: sim_mode
  sim_disk :: "u32 \<Rightarrow> bytes"

definition sim_lba :: "sim_drive \<Rightarrow> u32" where
  "sim_lba d = push_bit 24 (ucast (sim_head d AND 0x0F)) OR push_bit 16 (ucast (sim_hi d)) OR
     push_bit 8 (ucast (sim_mid d)) OR ucast (sim_lo d)"

definition sim_data :: "u16 \<Rightarrow> sim_drive \<Rightarrow> sim_drive" where
  "sim_data w d =
     (case sim_mode d of
        Sim_Write ws \<Rightarrow>
          if length ws = 255
          then d\<lparr>sim_disk := (sim_disk d)(sim_lba d := words_bytes (ws @ [w])), sim_mode := Sim_Idle\<rparr>
          else d\<lparr>sim_mode := Sim_Write (ws @ [w])\<rparr>
      | _ \<Rightarrow> d)"

definition sim_write :: "u16 \<Rightarrow> u8 \<Rightarrow> sim_drive \<Rightarrow> sim_drive" where
  "sim_write p v d =
     (if p = 0x1F3 then d\<lparr>sim_lo := v\<rparr>
      else if p = 0x1F4 then d\<lparr>sim_mid := v\<rparr>
      else if p = 0x1F5 then d\<lparr>sim_hi := v\<rparr>
      else if p = 0x1F6 then d\<lparr>sim_head := v\<rparr>
      else if p = 0x1F7
      then d\<lparr>sim_mode := if v = ATA_CMD_READ_SECTORS then Sim_Read 0
                           else if v = ATA_CMD_WRITE_SECTORS then Sim_Write [] else Sim_Idle\<rparr>
      else d)"

fun sim_step :: "io_event \<Rightarrow> sim_drive \<Rightarrow> sim_drive" where
  "sim_step (Outb p v) d = sim_write p v d"
| "sim_step (Inw p) d =
     (case sim_mode d of Sim_Read i \<Rightarrow> if p = 0x1F0 then d\<lparr>sim_mode := Sim_Read (Suc i)\<rparr> else d | _ \<Rightarrow> d)"
| "sim_step (Outw p w) d = (if p = 0x1F0 then sim_data w d else d)"
| "sim_step e d = d"

definition sim_state :: "(u32 \<Rightarrow> bytes) \<Rightarrow> io_event list \<Rightarrow> sim_drive" where
  "sim_state d0 h = foldr sim_step h
     \<lparr>sim_lo = 0, sim_mid = 0, sim_hi = 0, sim_head = 0, sim_mode = Sim_Idle, sim_disk = d0\<rparr>"

definition sim_medium :: "(u32 \<Rightarrow> bytes) \<Rightarrow> io_event list \<Rightarrow> u32 \<Rightarrow> bytes" where
  "sim_medium d0 h = sim_disk (sim_state d0 h)"

definition sim_hw :: "(u32 \<Rightarrow> bytes) \<Rightarrow> hardware" where
  "sim_hw d0 = blank_hw
     \<lparr>hw_inb := (\<lambda>h p. if p = 0x1F7 then (if sim_mode (sim_state d0 h) = Sim_Idle then 0x50 else 0x58) else 0),
      hw_inw := (\<lambda>h p. case sim_mode (sim_state d0 h) of
                   Sim_Read i \<Rightarrow> bytes_words (sim_disk (sim_state d0 h) (sim_lba (sim_state d0 h))) ! i
                 | _ \<Rightarrow> 0xFFFF)\<rparr>"

abbreviation primary_master :: "'a ata_sys_scheme \<Rightarrow> bool" where
  "primary_master s \<equiv> use_secondary s = 0 \<and> use_slave s = 0"

lemma sim_state_simps [simp]:
  "sim_state d0 (e # h) = sim_step e (sim_state d0 h)"
  "sim_state d0 (replicate n (Inb p) @ h) = sim_state d0 h"
proof -
  show "sim_state d0 (e # h) = sim_step e (sim_state d0 h)" by (simp add: sim_state_def)
  show "sim_state d0 (replicate n (Inb p) @ h) = sim_state d0 h" by (induction n) (simp_all add: sim_state_def)
qed

lemma lba_bytes:
  "push_bit 24 (ucast ((0xE0 OR ucast (drop_bit 24 lba AND 0x0F)) AND 0x0F :: u8)) OR
   push_bit 16 (ucast (ucast (drop_bit 16 lba) :: u8)) OR push_bit 8 (ucast (ucast (drop_bit 8 lba) :: u8)) OR
   ucast (ucast lba :: u8) = (take_bit 28 lba :: u32)"
proof (rule bit_word_eqI)
  fix n
  assume n: "n < LENGTH(32)"
  have m: "(0x0F :: 'b :: len word) = mask 4" by (simp add: mask_eq_exp_minus_1)
  have e: "(0xE0 :: u8) = push_bit 5 (mask 3)" by (simp add: mask_eq_exp_minus_1)
  show "bit (push_bit 24 (ucast ((0xE0 OR ucast (drop_bit 24 lba AND 0x0F)) AND 0x0F :: u8)) OR
     push_bit 16 (ucast (ucast (drop_bit 16 lba) :: u8)) OR push_bit 8 (ucast (ucast (drop_bit 8 lba) :: u8)) OR
     ucast (ucast lba :: u8) :: u32) n = bit (take_bit 28 lba) n"
    unfolding m e using n by (cases "16 \<le> n") (auto simp add: bit_simps)
qed

lemma sim_command:
  assumes "primary_master s"
  shows "sim_lba (sim_state d0 (command_events cmd lba s @ h)) = take_bit 28 lba"
    and "sim_disk (sim_state d0 (command_events cmd lba s @ h)) = sim_medium d0 h"
    and "sim_mode (sim_state d0 (command_events cmd lba s @ h)) =
      (if cmd = ATA_CMD_READ_SECTORS then Sim_Read 0 else if cmd = ATA_CMD_WRITE_SECTORS then Sim_Write [] else Sim_Idle)"
  using assms lba_bytes [of lba]
  by (simp_all add: command_events_def sim_write_def sim_lba_def sim_medium_def ata_lba_lo_port_def ata_lba_mid_port_def
      ata_lba_hi_port_def ata_drive_head_port_def ata_seccount_port_def ata_comm_stat_port_def)

lemma sim_reading:
  assumes "primary_master s"
  shows "sim_state d0 (replicate i (Inw 0x1F0) @ polls k s @ command_events ATA_CMD_READ_SECTORS lba s @ h) =
    (sim_state d0 (command_events ATA_CMD_READ_SECTORS lba s @ h))\<lparr>sim_mode := Sim_Read i\<rparr>"
proof (induction i)
  case 0
  show ?case using sim_command(3) [OF assms, of d0 ATA_CMD_READ_SECTORS lba h] by simp
next
  case (Suc i)
  then show ?case by simp
qed

lemma sim_writing:
  assumes "primary_master s" and "length ws < 256"
  shows "sim_state d0 (rev (map (Outw 0x1F0) ws) @ polls k s @ command_events ATA_CMD_WRITE_SECTORS lba s @ h) =
    (sim_state d0 (command_events ATA_CMD_WRITE_SECTORS lba s @ h))\<lparr>sim_mode := Sim_Write ws\<rparr>"
  using assms(2)
proof (induction ws rule: rev_induct)
  case Nil
  show ?case using sim_command(3) [OF assms(1), of d0 ATA_CMD_WRITE_SECTORS lba h] by simp
next
  case (snoc w ws)
  then show ?case by (simp add: sim_data_def)
qed

lemma sim_disk_quiet: "(\<forall>w. e \<noteq> Outw 0x1F0 w) \<Longrightarrow> sim_disk (sim_step e d) = sim_disk d"
  by (cases e) (auto simp add: sim_write_def split: sim_mode.split)

lemma sim_disk_length:
  assumes "\<forall>l. length (d0 l) = 512"
  shows "length (sim_medium d0 h l) = 512"
proof (induction h arbitrary: l)
  case Nil
  show ?case using assms by (simp add: sim_medium_def sim_state_def)
next
  case (Cons e h)
  show ?case
  proof (cases "\<exists>w. e = Outw 0x1F0 w")
    case True
    then show ?thesis using Cons
      by (auto simp add: sim_medium_def sim_data_def words_bytes_length split: sim_mode.split)
  next
    case False
    then show ?thesis using Cons sim_disk_quiet by (simp add: sim_medium_def)
  qed
qed

lemma sim_drive_ok:
  assumes "primary_master s" and "\<forall>l. length (d0 l) = 512"
  shows "drive_ok (sim_hw d0) (sim_medium d0) s"
proof -
  have ports: "ata_data_port s = 0x1F0" "ata_comm_stat_port s = 0x1F7"
    using assms(1) by (simp_all add: ata_data_port_def ata_comm_stat_port_def)
  have "drive_ready (sim_hw d0) s" unfolding drive_ready_def
    by (intro allI exI [of _ 0]) (simp add: sim_hw_def ports)
  moreover have "drive_requests (sim_hw d0) s" unfolding drive_requests_def
  proof (intro allI impI, rule exI [where x = 0])
    fix h cmd lba k
    assume "cmd = ATA_CMD_READ_SECTORS \<or> cmd = ATA_CMD_WRITE_SECTORS"
    then show "0 < (100000 :: nat) \<and>
        hw_inb (sim_hw d0) (polls 0 s @ polls k s @ command_events cmd lba s @ h) (ata_comm_stat_port s) AND ATA_STAT_DRQ \<noteq> 0 \<and>
        (\<forall>m \<le> 0. hw_inb (sim_hw d0) (polls m s @ polls k s @ command_events cmd lba s @ h) (ata_comm_stat_port s) \<noteq> 0xFF)"
      using sim_command(3) [OF assms(1), of d0 cmd lba h] by (auto simp add: sim_hw_def ports)
  qed
  moreover have "drive_delivers (sim_hw d0) (sim_medium d0) s" unfolding drive_delivers_def
  proof (intro allI)
    fix h lba k
    have "length (bytes_words (sim_medium d0 h (take_bit 28 lba))) = 256"
      using sim_disk_length [OF assms(2)] by (simp add: bytes_words_length)
    then show "map (\<lambda>i. hw_inw (sim_hw d0) (replicate i (Inw (ata_data_port s)) @ polls k s @
          command_events ATA_CMD_READ_SECTORS lba s @ h) (ata_data_port s)) [0..<256] =
        bytes_words (sim_medium d0 h (take_bit 28 lba))"
      using sim_reading [OF assms(1), of d0] sim_command [OF assms(1), of d0 ATA_CMD_READ_SECTORS lba h]
      by (intro nth_equalityI) (simp_all add: sim_hw_def ports sim_lba_def del: upt_rec_numeral)
  qed
  moreover have "drive_stores (sim_medium d0) s" unfolding drive_stores_def
  proof (intro allI impI)
    fix h lba k and ws :: "u16 list"
    assume ws: "length ws = 256"
    then obtain vs w where vs: "ws = vs @ [w]" "length vs = 255"
      by (cases ws rule: rev_cases) auto
    then show "sim_medium d0 (rev (map (Outw (ata_data_port s)) ws) @ polls k s @
          command_events ATA_CMD_WRITE_SECTORS lba s @ h) =
        (sim_medium d0 h)(take_bit 28 lba := words_bytes ws)"
      using sim_writing [OF assms(1), of vs d0 k lba h] sim_command [OF assms(1), of d0 ATA_CMD_WRITE_SECTORS lba h]
      by (simp add: sim_medium_def ports sim_data_def sim_lba_def)
  qed
  moreover have "drive_keeps (sim_medium d0) s"
    using sim_disk_length [OF assms(2)] sim_disk_quiet unfolding drive_keeps_def
    by (simp add: sim_medium_def ports)
  ultimately show ?thesis by (simp add: drive_ok_def)
qed

section \<open>Properties\<close>

definition demo_disk :: "u32 \<Rightarrow> bytes" where
  "demo_disk l = replicate 512 0"

definition demo_ata :: ata_sys where
  "demo_ata = kbd_sys.extend demo_kbd
     \<lparr>disk_sector_count = 2048, disk_model = [], disk_present = 1, use_secondary = 0, use_slave = 0\<rparr>"

lemma demo_ata_fields [simp]:
  "disk_present demo_ata = 1" "use_secondary demo_ata = 0" "use_slave demo_ata = 0"
  by (simp_all add: demo_ata_def kbd_sys.defs)

lemma demo_ata_online: "ata_online (sim_hw demo_disk) (sim_medium demo_disk) demo_ata"
  by (simp add: ata_online_def sim_drive_ok demo_disk_def)

text \<open>C17. On a drive that follows the ATA protocol a sector write succeeds and a later read of any sector returns the
  bytes written if it is that sector, and what the sector held before otherwise; addresses count modulo 2 to the 28.\<close>

theorem ata_sector_roundtrip:
  assumes "ata_online hw medium s" and "length b = 512"
  shows "fst (ata_write_sector hw l (Some b) s) = 0 \<and>
    fst (ata_read_sector hw k (Some c) (snd (ata_write_sector hw l (Some b) s))) = 0 \<and>
    fst (snd (ata_read_sector hw k (Some c) (snd (ata_write_sector hw l (Some b) s)))) =
      Some (if take_bit 28 k = take_bit 28 l then b else ata_sectors medium s (take_bit 28 k))"
proof -
  obtain t where t: "ata_write_sector hw l (Some b) s = (0, t)" "ata_online hw medium t"
    by (rule ata_store.write_sector_elim [OF assms])
  obtain u where "ata_read_sector hw k (Some c) t = (0, Some (ata_sectors medium t (take_bit 28 k)), u)"
    by (rule ata_store.read_sector_elim [OF t(2)])
  then show ?thesis using ata_store.read_after_write [OF assms, of k c l] by (simp add: t(1))
qed

theorem ata_sector_roundtrip_witness:
  "fst (snd (ata_read_sector (sim_hw demo_disk) 101 (Some [])
      (snd (ata_write_sector (sim_hw demo_disk) 101 (Some (replicate 512 7)) demo_ata)))) = Some (replicate 512 7)"
  using ata_sector_roundtrip [OF demo_ata_online, of "replicate 512 7" 101 101 "[]"] by simp

lemma probe_floating:
  assumes "\<And>h p. hw_inb hw h p = 0xFF"
  shows "fst (ata_probe_drive hw bus drive s) = False"
  using assms by (simp add: ata_probe_drive_def inb_def Let_def)

lemma identify_loop_floating:
  assumes "\<And>h p. hw_inb hw h p = 0xFF"
  shows "\<exists>t. identify_loop hw ds s = (False, t) \<and> disk_present t = 0"
proof (induction ds arbitrary: s)
  case Nil
  show ?case by simp
next
  case (Cons d ds)
  obtain bus drive where d: "d = (bus, drive)" by (cases d)
  obtain t where "ata_probe_drive hw bus drive s = (False, t)"
    using probe_floating [OF assms, of bus drive s] by (cases "ata_probe_drive hw bus drive s") auto
  then show ?case using Cons.IH [of t] by (simp add: d)
qed

text \<open>Without a drive the bus floats and every status read gives 0xFF: detection fails on all four positions and
  records that no disk is present, and from then on reads and writes fail with -1 and neither touch a port nor the buffer.\<close>

theorem ata_no_disk:
  assumes "\<And>h p. hw_inb hw h p = 0xFF"
  shows "\<exists>t. ata_identify hw s = (False, t) \<and> disk_present t = 0 \<and>
    ata_read_sector hw l b t = (- 1, b, t) \<and> ata_write_sector hw l b t = (- 1, t) \<and> ata_flush hw t = t"
proof -
  obtain t where "ata_identify hw s = (False, t)" "disk_present t = 0"
    using identify_loop_floating [OF assms] unfolding ata_identify_def by blast
  then show ?thesis
    by (intro exI [of _ t]) (simp add: ata_read_sector_def ata_write_sector_def ata_flush_def split: option.split)
qed

theorem ata_no_disk_witness:
  "\<exists>t. ata_identify (blank_hw\<lparr>hw_inb := (\<lambda>_ _. 0xFF)\<rparr>) demo_ata = (False, t) \<and> disk_present t = 0 \<and>
    ata_read_sector (blank_hw\<lparr>hw_inb := (\<lambda>_ _. 0xFF)\<rparr>) 5 (Some [1]) t = (- 1, Some [1], t)"
proof -
  have "\<And>h p. hw_inb (blank_hw\<lparr>hw_inb := (\<lambda>_ _. 0xFF)\<rparr>) h p = 0xFF" by simp
  from ata_no_disk [OF this, of demo_ata 5 "Some [1]"] show ?thesis by blast
qed

end
