(* ===== verification/Vfs.thy ===== *)
theory Vfs
  imports Ata
begin

text \<open>
  The file system, \<^verbatim>\<open>src/kernel/vfs.c\<close>: a table of 16 files in sector 100 and two data sectors per file.

  The table entries keep the 32-byte layout of the struct, so the transfer of the table is an encoding into the 512
  bytes of a sector.  A string argument is its characters without the terminating NUL, \<open>None\<close> for a NULL pointer.
  A name in the table is the C string that starts at its first byte: if all 20 characters are in use it runs on into
  the following fields.
\<close>

section \<open>State\<close>

abbreviation MAX_FILENAME :: nat where "MAX_FILENAME \<equiv> 20"
abbreviation MAX_FILES :: nat where "MAX_FILES \<equiv> 16"
abbreviation MAX_FILE_SIZE :: u32 where "MAX_FILE_SIZE \<equiv> 1024"
abbreviation VFS_METADATA_LBA :: u32 where "VFS_METADATA_LBA \<equiv> 100"
abbreviation VFS_DATA_START_LBA :: u32 where "VFS_DATA_START_LBA \<equiv> 101"

record vfs_file_t =
  vf_name :: bytes
  vf_size :: u32
  vf_start_lba :: u32
  vf_used :: u32

record vfs_sys = ata_sys +
  file_table :: "nat \<Rightarrow> vfs_file_t"

section \<open>Layout on disk\<close>

definition le32 :: "u32 \<Rightarrow> bytes" where
  "le32 w = [ucast w, ucast (drop_bit 8 w), ucast (drop_bit 16 w), ucast (drop_bit 24 w)]"

definition un_le32 :: "bytes \<Rightarrow> u32" where
  "un_le32 bs = ucast (bs ! 0) OR push_bit 8 (ucast (bs ! 1)) OR push_bit 16 (ucast (bs ! 2)) OR push_bit 24 (ucast (bs ! 3))"

definition encode_file :: "vfs_file_t \<Rightarrow> bytes" where
  "encode_file f = vf_name f @ le32 (vf_size f) @ le32 (vf_start_lba f) @ le32 (vf_used f)"

definition decode_file :: "bytes \<Rightarrow> vfs_file_t" where
  "decode_file bs =
     \<lparr>vf_name = take 20 bs, vf_size = un_le32 (drop 20 bs), vf_start_lba = un_le32 (drop 24 bs),
      vf_used = un_le32 (drop 28 bs)\<rparr>"

text \<open>\<open>disk_files[i]\<close>, and the whole table as a buffer.\<close>

definition disk_file :: "bytes \<Rightarrow> nat \<Rightarrow> vfs_file_t" where
  "disk_file buf i = decode_file (take 32 (drop (32 * i) buf))"

definition encode_table :: "(nat \<Rightarrow> vfs_file_t) \<Rightarrow> bytes" where
  "encode_table tab = concat (map (\<lambda>i. encode_file (tab i)) [0..<MAX_FILES])"

definition entry_name :: "vfs_file_t \<Rightarrow> bytes" where
  "entry_name f = c_string (encode_file f)"

section \<open>Strings\<close>

fun strcmp_impl :: "bytes \<Rightarrow> bytes \<Rightarrow> int" where
  "strcmp_impl (a # s1) (b # s2) = (if a \<noteq> b then 1 else strcmp_impl s1 s2)"
| "strcmp_impl [] [] = 0"
| "strcmp_impl _ _ = 1"

definition strcpy_impl :: "bytes \<Rightarrow> bytes \<Rightarrow> bytes" where
  "strcpy_impl dest src =
     (let copied = take (MAX_FILENAME - 1) src in copied @ [0] @ drop (length copied + 1) dest)"

section \<open>The table and the disk\<close>

definition upd_file :: "nat \<Rightarrow> (vfs_file_t \<Rightarrow> vfs_file_t) \<Rightarrow> 'a vfs_sys_scheme \<Rightarrow> 'a vfs_sys_scheme" where
  "upd_file i f s = s\<lparr>file_table := (file_table s)(i := f (file_table s i))\<rparr>"

definition valid_file :: "vfs_file_t \<Rightarrow> bool" where
  "valid_file f \<longleftrightarrow> vf_used f = 1 \<and> vf_size f \<le> MAX_FILE_SIZE"

definition load_entry :: "vfs_file_t \<Rightarrow> vfs_file_t \<Rightarrow> vfs_file_t" where
  "load_entry old disk =
     (if valid_file disk then disk else old\<lparr>vf_used := 0, vf_size := 0, vf_name := (vf_name old)[0 := 0]\<rparr>)"

text \<open>The local buffer is read only after a successful transfer, which has overwritten all of it.\<close>

definition vfs_sync_from_disk :: "hardware \<Rightarrow> 'a vfs_sys_scheme \<Rightarrow> 'a vfs_sys_scheme" where
  "vfs_sync_from_disk hw s =
     (let (result, buf, s) = ata_read_sector hw VFS_METADATA_LBA (Some (replicate 512 0)) s
      in if result = 0
         then
           (let s = s\<lparr>file_table := (\<lambda>i. if i < MAX_FILES then load_entry (file_table s i) (disk_file (the buf) i)
                                            else file_table s i)\<rparr>;
                found_files = length (filter (\<lambda>i. valid_file (disk_file (the buf) i)) [0..<MAX_FILES]);
                s = con_puts (lit ''[VFS] Loaded '') COLOR_LIGHT_CYAN s;
                s = con_puts (dec_text0 (int found_files)) COLOR_WHITE s
            in con_puts (lit '' files from disk'' @ [ch_nl]) COLOR_LIGHT_CYAN s)
         else con_puts (lit ''[VFS] ERROR: Failed to read metadata from disk!'' @ [ch_nl]) COLOR_RED s)"

definition vfs_sync_to_disk :: "hardware \<Rightarrow> 'a vfs_sys_scheme \<Rightarrow> 'a vfs_sys_scheme" where
  "vfs_sync_to_disk hw s =
     (let (result, s) = ata_write_sector hw VFS_METADATA_LBA (Some (encode_table (file_table s))) s
      in if result = 0 then con_puts (lit ''[VFS] Metadata synced to disk (sector 100)'' @ [ch_nl]) COLOR_LIGHT_CYAN s
         else con_puts (lit ''[VFS] ERROR: Failed to sync metadata to disk!'' @ [ch_nl]) COLOR_RED s)"

definition welcome_text :: bytes where
  "welcome_text = lit ''Welcome to HumanOS File System on ATA Disk!''"

definition vfs_init :: "hardware \<Rightarrow> 'a vfs_sys_scheme \<Rightarrow> 'a vfs_sys_scheme" where
  "vfs_init hw s =
     (let s = fold (\<lambda>i. upd_file i (\<lambda>f. f\<lparr>vf_used := 0, vf_size := 0,
                          vf_start_lba := VFS_DATA_START_LBA + of_nat (i * 2), vf_name := (vf_name f)[0 := 0]\<rparr>))
                [0..<MAX_FILES] s;
          s = vfs_sync_from_disk hw s;
          s = (if vf_used (file_table s 0) = 0
               then
                 (let len = length welcome_text;
                      s = upd_file 0 (\<lambda>f. f\<lparr>vf_name := strcpy_impl (vf_name f) (lit ''readme.txt''), vf_used := 1,
                            vf_start_lba := VFS_DATA_START_LBA, vf_size := of_nat len + 1\<rparr>) s;
                      sector_buf = welcome_text @ [0] @ replicate (512 - len - 1) 0;
                      s = snd (ata_write_sector hw (vf_start_lba (file_table s 0)) (Some sector_buf) s)
                  in vfs_sync_to_disk hw s)
               else s)
      in con_puts (lit ''[VFS] Virtual File System Mounted on ATA Hard Disk (/)'' @ [ch_nl]) COLOR_LIGHT_GREEN s)"

section \<open>Operations on files\<close>

definition find_file :: "bytes \<Rightarrow> 'a vfs_sys_scheme \<Rightarrow> nat option" where
  "find_file name s =
     List.find (\<lambda>i. vf_used (file_table s i) \<noteq> 0 \<and> strcmp_impl (entry_name (file_table s i)) name = 0) [0..<MAX_FILES]"

definition find_free :: "'a vfs_sys_scheme \<Rightarrow> nat option" where
  "find_free s = List.find (\<lambda>i. vf_used (file_table s i) = 0) [0..<MAX_FILES]"

definition vfs_create_file :: "hardware \<Rightarrow> bytes option \<Rightarrow> 'a vfs_sys_scheme \<Rightarrow> int \<times> 'a vfs_sys_scheme" where
  "vfs_create_file hw name s =
     (case name of
        None \<Rightarrow> (- 1, s)
      | Some n \<Rightarrow>
          if n = [] then (- 1, s)
          else
            (let s = vfs_sync_from_disk hw s
             in case find_file n s of
                  Some i \<Rightarrow> (int i, s)
                | None \<Rightarrow>
                    (case find_free s of
                       Some i \<Rightarrow>
                         (let s = upd_file i (\<lambda>f. f\<lparr>vf_used := 1, vf_size := 0,
                                    vf_start_lba := VFS_DATA_START_LBA + of_nat (i * 2),
                                    vf_name := strcpy_impl (vf_name f) n\<rparr>) s
                          in (int i, vfs_sync_to_disk hw s))
                     | None \<Rightarrow> (- 1, s))))"

definition sector_part :: "nat \<Rightarrow> (nat \<Rightarrow> u8) \<Rightarrow> u32 \<Rightarrow> bytes" where
  "sector_part base content len = map (\<lambda>i. if i + base < unat len then content (i + base) else 0) [0..<512]"

definition vfs_write_file ::
    "hardware \<Rightarrow> bytes option \<Rightarrow> (nat \<Rightarrow> u8) \<Rightarrow> u32 \<Rightarrow> 'a vfs_sys_scheme \<Rightarrow> int \<times> 'a vfs_sys_scheme" where
  "vfs_write_file hw name content len s =
     (let (idx, s) = vfs_create_file hw name s
      in if idx < 0 then (- 1, s)
         else
           (let len = (if len > MAX_FILE_SIZE then MAX_FILE_SIZE else len);
                i = nat idx;
                s = upd_file i (\<lambda>f. f\<lparr>vf_size := len\<rparr>) s;
                s = snd (ata_write_sector hw (vf_start_lba (file_table s i)) (Some (sector_part 0 content len)) s);
                s = (if len > 512
                     then snd (ata_write_sector hw (vf_start_lba (file_table s i) + 1)
                                 (Some (sector_part 512 content len)) s)
                     else s);
                s = vfs_sync_to_disk hw s
            in (int (unat len), s)))"

text \<open>
  \<open>buffer\<close> is the caller's memory from the pointer on; \<open>junk\<close> is what the local sector buffer happens to hold before
  the first transfer.  The result of the transfers is not looked at.
\<close>

definition copy_range :: "nat \<Rightarrow> nat \<Rightarrow> bytes \<Rightarrow> (nat \<Rightarrow> u8) \<Rightarrow> (nat \<Rightarrow> u8)" where
  "copy_range lo hi src buffer = fold (\<lambda>j b. b(j := src ! (j - lo))) [lo..<hi] buffer"

definition vfs_read_file ::
    "hardware \<Rightarrow> bytes \<Rightarrow> bytes option \<Rightarrow> (nat \<Rightarrow> u8) option \<Rightarrow> u32 \<Rightarrow> 'a vfs_sys_scheme \<Rightarrow>
      int \<times> (nat \<Rightarrow> u8) option \<times> 'a vfs_sys_scheme" where
  "vfs_read_file hw junk name buffer max_len s =
     (case (name, buffer) of
        (Some n, Some buf) \<Rightarrow>
          if max_len = 0 then (- 1, buffer, s)
          else
            (let s = vfs_sync_from_disk hw s
             in case find_file n s of
                  None \<Rightarrow> (- 1, buffer, s)
                | Some i \<Rightarrow>
                    (let bytes_to_read = vf_size (file_table s i);
                         bytes_to_read = (if bytes_to_read > max_len - 1 then max_len - 1 else bytes_to_read);
                         (_, sector_buf, s) = ata_read_sector hw (vf_start_lba (file_table s i)) (Some junk) s;
                         buf = copy_range 0 (min (unat bytes_to_read) 512) (the sector_buf) buf;
                         (buf, s) = (if bytes_to_read > 512
                                     then
                                       (let (_, sector_buf, s) =
                                              ata_read_sector hw (vf_start_lba (file_table s i) + 1) sector_buf s
                                        in (copy_range 512 (unat bytes_to_read) (the sector_buf) buf, s))
                                     else (buf, s))
                     in (int (unat bytes_to_read), Some (buf(unat bytes_to_read := 0)), s)))
      | _ \<Rightarrow> (- 1, buffer, s))"

definition list_entry :: "nat \<Rightarrow> 'a vfs_sys_scheme \<Rightarrow> 'a vfs_sys_scheme" where
  "list_entry i s =
     (if vf_used (file_table s i) \<noteq> 0
      then
        (let s = con_puts (lit ''  FILE     '') COLOR_WHITE s;
             sbuf = dec_text0 (sint (vf_size (file_table s i)));
             s = con_puts (replicate (12 - length sbuf) ch_sp) COLOR_WHITE s;
             s = con_puts sbuf COLOR_WHITE s;
             s = con_puts (lit ''   '') COLOR_WHITE s;
             s = con_puts (entry_name (file_table s i)) COLOR_LIGHT_GREEN s
         in con_putc ch_nl COLOR_WHITE s)
      else s)"

definition vfs_list_files :: "hardware \<Rightarrow> 'a vfs_sys_scheme \<Rightarrow> 'a vfs_sys_scheme" where
  "vfs_list_files hw s =
     (let s = vfs_sync_from_disk hw s;
          s = con_puts (lit ''  Type      Size (Bytes)   Filename'' @ [ch_nl]) COLOR_LIGHT_CYAN s;
          s = con_puts (lit ''  ----      ------------   --------'' @ [ch_nl]) COLOR_LIGHT_CYAN s;
          count = length (filter (\<lambda>i. vf_used (file_table s i) \<noteq> 0) [0..<MAX_FILES]);
          s = fold list_entry [0..<MAX_FILES] s
      in if count = 0 then con_puts (lit ''  (No files stored on disk)'' @ [ch_nl]) COLOR_WHITE s else s)"

definition vfs_delete_file :: "hardware \<Rightarrow> bytes option \<Rightarrow> 'a vfs_sys_scheme \<Rightarrow> int \<times> 'a vfs_sys_scheme" where
  "vfs_delete_file hw name s =
     (case name of
        None \<Rightarrow> (- 1, s)
      | Some n \<Rightarrow>
          if n = [] then (- 1, s)
          else
            (let s = vfs_sync_from_disk hw s
             in case find_file n s of
                  Some i \<Rightarrow>
                    (let s = upd_file i (\<lambda>f. f\<lparr>vf_used := 0, vf_size := 0, vf_name := (vf_name f)[0 := 0]\<rparr>) s
                     in (0, vfs_sync_to_disk hw s))
                | None \<Rightarrow> (- 1, s)))"

definition vfs_get_filename :: "int \<Rightarrow> bytes option \<Rightarrow> 'a vfs_sys_scheme \<Rightarrow> int \<times> bytes option" where
  "vfs_get_filename index out_name s =
     (if index < 0 \<or> index \<ge> int MAX_FILES then (0, out_name)
      else if vf_used (file_table s (nat index)) = 0 then (0, out_name)
      else (1, map_option (\<lambda>out. strcpy_impl out (entry_name (file_table s (nat index)))) out_name))"

definition vfs_sync :: "hardware \<Rightarrow> 'a vfs_sys_scheme \<Rightarrow> 'a vfs_sys_scheme" where
  "vfs_sync hw s = vfs_sync_to_disk hw s"

end
