(* ===== verification/Vfs_Refine.thy ===== *)
theory Vfs_Refine
  imports Vfs
begin

text \<open>
  The file system refines a finite map from names to contents.

  The disk is the truth: every operation first loads the table from sector 100.  \<open>fs_lookup d\<close> is the map a disk
  \<open>d\<close> stores and \<open>fs_ok d\<close> says that its valid entries have pairwise different names and their own data
  sectors.  The theorems say what each operation does to that map.  They hold for any drive that follows the ATA
  protocol (\<open>ata_online\<close>) and use the driver only through the interpretation \<open>ata_store\<close>.
\<close>

section \<open>The layout\<close>

lemma le32_length [simp]: "length (le32 w) = 4"
  by (simp add: le32_def)

lemma un_le32_le32 [simp]: "un_le32 (le32 w @ bs) = w"
proof -
  have "bit (ucast (ucast w :: u8) OR push_bit 8 (ucast (ucast (drop_bit 8 w) :: u8)) OR
      push_bit 16 (ucast (ucast (drop_bit 16 w) :: u8)) OR push_bit 24 (ucast (ucast (drop_bit 24 w) :: u8)) :: u32) n = bit w n"
    if "n < 32" for n
  proof -
    consider "n < 8" | "8 \<le> n" "n < 16" | "16 \<le> n" "n < 24" | "24 \<le> n" by linarith
    then show ?thesis using that by cases (auto simp add: bit_simps)
  qed
  then have "ucast (ucast w :: u8) OR push_bit 8 (ucast (ucast (drop_bit 8 w) :: u8)) OR
      push_bit 16 (ucast (ucast (drop_bit 16 w) :: u8)) OR push_bit 24 (ucast (ucast (drop_bit 24 w) :: u8)) = w"
    by (intro bit_word_eqI) simp
  then show ?thesis by (simp add: un_le32_def le32_def)
qed

lemma un_le32_le32_end [simp]: "un_le32 (le32 w) = w"
  using un_le32_le32 [of w "[]"] by simp

lemma encode_file_length: "length (vf_name f) = 20 \<Longrightarrow> length (encode_file f) = 32"
  by (simp add: encode_file_def)

lemma decode_encode_file: "length (vf_name f) = 20 \<Longrightarrow> decode_file (encode_file f) = f"
  by (simp add: decode_file_def encode_file_def)

lemma chunk_of_concat:
  assumes "\<forall>x \<in> set xs. length x = n" and "i < length xs"
  shows "take n (drop (n * i) (concat xs)) = xs ! i"
  using assms
proof (induction xs arbitrary: i)
  case Nil
  then show ?case by simp
next
  case (Cons x xs)
  then show ?case by (cases i) auto
qed

definition table_wf :: "(nat \<Rightarrow> vfs_file_t) \<Rightarrow> bool" where
  "table_wf tab \<longleftrightarrow> (\<forall>i < MAX_FILES. length (vf_name (tab i)) = MAX_FILENAME)"

lemma disk_file_encode_table:
  assumes "table_wf tab" and "i < MAX_FILES"
  shows "disk_file (encode_table tab) i = tab i"
proof -
  have "take 32 (drop (32 * i) (encode_table tab)) = encode_file (tab i)"
    using assms unfolding encode_table_def table_wf_def
    by (subst chunk_of_concat) (auto simp add: encode_file_length simp del: upt_rec_numeral)
  then show ?thesis using assms by (simp add: disk_file_def decode_encode_file table_wf_def)
qed

lemma encode_table_length: "table_wf tab \<Longrightarrow> length (encode_table tab) = 512"
proof -
  assume "table_wf tab"
  then have "map (length \<circ> (\<lambda>i. encode_file (tab i))) [0..<MAX_FILES] = map (\<lambda>_. 32) [0..<MAX_FILES]"
    by (intro map_cong refl) (simp add: table_wf_def encode_file_length)
  then show ?thesis
    by (simp add: encode_table_def length_concat sum_list_triv del: upt_rec_numeral map_eq_conv)
qed

lemma disk_file_name_length: "length d = 512 \<Longrightarrow> i < MAX_FILES \<Longrightarrow> length (vf_name (disk_file d i)) = 20"
  by (simp add: disk_file_def decode_file_def)

section \<open>Strings\<close>

lemma strcmp_impl_eq: "strcmp_impl a b = 0 \<longleftrightarrow> a = b"
  by (induction a b rule: strcmp_impl.induct) auto

lemma c_string_terminated: "0 \<notin> set n \<Longrightarrow> c_string (n @ 0 # r) = n"
  by (auto simp add: c_string_def takeWhile_append takeWhile_eq_all_conv)

definition good_name :: "bytes \<Rightarrow> bool" where
  "good_name n \<longleftrightarrow> n \<noteq> [] \<and> 0 \<notin> set n \<and> length n < MAX_FILENAME"

lemma strcpy_impl_length: "length dest = MAX_FILENAME \<Longrightarrow> length (strcpy_impl dest src) = MAX_FILENAME"
  by (simp add: strcpy_impl_def Let_def)

lemma entry_name_strcpy:
  assumes "good_name n"
  shows "entry_name (f\<lparr>vf_name := strcpy_impl dest n\<rparr>) = n"
  using assms c_string_terminated [of n] by (simp add: entry_name_def encode_file_def strcpy_impl_def good_name_def)

section \<open>The map on the disk\<close>

definition dir_entry :: "(u32 \<Rightarrow> bytes) \<Rightarrow> nat \<Rightarrow> vfs_file_t" where
  "dir_entry d i = disk_file (d VFS_METADATA_LBA) i"

definition data_lba :: "nat \<Rightarrow> u32" where
  "data_lba i = VFS_DATA_START_LBA + of_nat (i * 2)"

definition contents :: "(u32 \<Rightarrow> bytes) \<Rightarrow> nat \<Rightarrow> bytes" where
  "contents d i = take (unat (vf_size (dir_entry d i))) (d (data_lba i) @ d (data_lba i + 1))"

definition has_file :: "(u32 \<Rightarrow> bytes) \<Rightarrow> bytes \<Rightarrow> nat \<Rightarrow> bool" where
  "has_file d n i \<longleftrightarrow> valid_file (dir_entry d i) \<and> entry_name (dir_entry d i) = n"

definition fs_lookup :: "(u32 \<Rightarrow> bytes) \<Rightarrow> bytes \<rightharpoonup> bytes" where
  "fs_lookup d n = map_option (contents d) (List.find (has_file d n) [0..<MAX_FILES])"

definition fs_ok :: "(u32 \<Rightarrow> bytes) \<Rightarrow> bool" where
  "fs_ok d \<longleftrightarrow>
     (\<forall>i < MAX_FILES. valid_file (dir_entry d i) \<longrightarrow> vf_start_lba (dir_entry d i) = data_lba i) \<and>
     (\<forall>i < MAX_FILES. \<forall>j < MAX_FILES. valid_file (dir_entry d i) \<longrightarrow> valid_file (dir_entry d j) \<longrightarrow>
        entry_name (dir_entry d i) = entry_name (dir_entry d j) \<longrightarrow> i = j) \<and>
     (\<forall>l. length (d l) = 512)"

definition has_room :: "(u32 \<Rightarrow> bytes) \<Rightarrow> bool" where
  "has_room d \<longleftrightarrow> (\<exists>i < MAX_FILES. \<not> valid_file (dir_entry d i))"

lemma find_index_Some: "List.find P [0..<n] = Some i \<longleftrightarrow> i < n \<and> P i \<and> (\<forall>j < i. \<not> P j)"
  by (auto simp add: find_Some_iff)

lemma find_index_None: "List.find P [0..<n] = None \<longleftrightarrow> (\<forall>i < n. \<not> P i)"
  by (auto simp add: find_None_iff)

lemma find_index_unique:
  assumes "i < n" and "P i" and "\<And>j. j < n \<Longrightarrow> P j \<Longrightarrow> j = i"
  shows "List.find P [0..<n] = Some i"
  unfolding find_index_Some using assms by (metis less_trans nat_less_le)

lemma fs_lookup_slot:
  assumes "fs_ok d" and "i < MAX_FILES" and "has_file d n i"
  shows "List.find (has_file d n) [0..<MAX_FILES] = Some i" and "fs_lookup d n = Some (contents d i)"
proof -
  show find: "List.find (has_file d n) [0..<MAX_FILES] = Some i"
  proof (rule find_index_unique)
    show "j = i" if "j < MAX_FILES" "has_file d n j" for j
      using assms that unfolding fs_ok_def has_file_def by blast
  qed (use assms in auto)
  show "fs_lookup d n = Some (contents d i)" unfolding fs_lookup_def find by simp
qed

lemma fs_lookup_None: "fs_lookup d n = None \<longleftrightarrow> (\<forall>i < MAX_FILES. \<not> has_file d n i)"
  by (simp add: fs_lookup_def find_index_None del: upt_rec_numeral)

lemma fs_lookup_same:
  assumes "\<And>i. i < MAX_FILES \<Longrightarrow> has_file d' n i = has_file d n i"
    and "\<And>i. i < MAX_FILES \<Longrightarrow> has_file d n i \<Longrightarrow> contents d' i = contents d i"
  shows "fs_lookup d' n = fs_lookup d n"
proof -
  have find: "List.find (has_file d' n) [0..<MAX_FILES] = List.find (has_file d n) [0..<MAX_FILES]"
    by (rule find_cong) (use assms(1) in auto)
  show ?thesis
  proof (cases "List.find (has_file d n) [0..<MAX_FILES]")
    case None
    then show ?thesis by (simp add: fs_lookup_def find del: upt_rec_numeral)
  next
    case (Some i)
    then have "i < MAX_FILES" "has_file d n i" by (simp_all add: find_index_Some del: upt_rec_numeral)
    then show ?thesis using assms(2) Some by (simp add: fs_lookup_def find del: upt_rec_numeral)
  qed
qed

text \<open>
  Changing one slot of the disk: every other slot is as before, or stays invalid.  The slot becomes the file \<open>n\<close>, or
  no file.
\<close>

definition slots_kept :: "nat \<Rightarrow> (u32 \<Rightarrow> bytes) \<Rightarrow> (u32 \<Rightarrow> bytes) \<Rightarrow> bool" where
  "slots_kept j d d' \<longleftrightarrow>
     (\<forall>i < MAX_FILES. i \<noteq> j \<longrightarrow> valid_file (dir_entry d' i) = valid_file (dir_entry d i) \<and>
        (valid_file (dir_entry d i) \<longrightarrow> dir_entry d' i = dir_entry d i \<and> contents d' i = contents d i))"

lemma slots_kept_has_file:
  "slots_kept j d d' \<Longrightarrow> i < MAX_FILES \<Longrightarrow> i \<noteq> j \<Longrightarrow> has_file d' n i = has_file d n i"
  unfolding slots_kept_def has_file_def by metis

lemma slots_kept_contents:
  "slots_kept j d d' \<Longrightarrow> i < MAX_FILES \<Longrightarrow> i \<noteq> j \<Longrightarrow> has_file d n i \<Longrightarrow> contents d' i = contents d i"
  unfolding slots_kept_def has_file_def by metis

lemma fs_lookup_other:
  assumes kept: "slots_kept j d d'" and j: "\<not> has_file d' m j" "\<not> has_file d m j"
  shows "fs_lookup d' m = fs_lookup d m"
proof (rule fs_lookup_same)
  show "has_file d' m i = has_file d m i" if "i < MAX_FILES" for i
    using j slots_kept_has_file [OF kept that] by (cases "i = j") auto
  show "contents d' i = contents d i" if "i < MAX_FILES" "has_file d m i" for i
    using j that slots_kept_contents [OF kept that(1) _ that(2)] by (cases "i = j") auto
qed

lemma fs_ok_store:
  assumes "fs_ok d" and kept: "slots_kept j d d'" and "\<forall>l. length (d' l) = 512"
    and j: "valid_file (dir_entry d' j) \<Longrightarrow> vf_start_lba (dir_entry d' j) = data_lba j"
    and fresh: "\<And>i. valid_file (dir_entry d' j) \<Longrightarrow> i < MAX_FILES \<Longrightarrow> i \<noteq> j \<Longrightarrow> \<not> has_file d (entry_name (dir_entry d' j)) i"
  shows "fs_ok d'"
proof -
  have lba: "vf_start_lba (dir_entry d' i) = data_lba i" if "i < MAX_FILES" "valid_file (dir_entry d' i)" for i
  proof (cases "i = j")
    case True
    then show ?thesis using j that by simp
  next
    case False
    then show ?thesis using assms(1) kept that unfolding fs_ok_def slots_kept_def by metis
  qed
  have no: "\<not> has_file d' (entry_name (dir_entry d' j)) i" if "i < MAX_FILES" "i \<noteq> j" "valid_file (dir_entry d' j)" for i
    using fresh slots_kept_has_file [OF kept that(1,2)] that by blast
  have "i = k" if ik: "i < MAX_FILES" "k < MAX_FILES" "valid_file (dir_entry d' i)" "valid_file (dir_entry d' k)"
      "entry_name (dir_entry d' i) = entry_name (dir_entry d' k)" for i k
  proof (cases "i = j \<or> k = j")
    case True
    then show ?thesis using no [of i] no [of k] ik unfolding has_file_def by metis
  next
    case False
    then show ?thesis using assms(1) kept ik unfolding fs_ok_def slots_kept_def by metis
  qed
  then show ?thesis using lba assms(3) unfolding fs_ok_def by blast
qed

lemma fs_lookup_store:
  assumes "fs_ok d" and kept: "slots_kept j d d'" and ok: "fs_ok d'" and "j < MAX_FILES" and "has_file d' n j"
    and old: "valid_file (dir_entry d j) \<Longrightarrow> entry_name (dir_entry d j) = n"
  shows "fs_lookup d' = (fs_lookup d)(n \<mapsto> contents d' j)"
proof
  fix m
  show "fs_lookup d' m = ((fs_lookup d)(n \<mapsto> contents d' j)) m"
  proof (cases "m = n")
    case True
    then show ?thesis using fs_lookup_slot(2) [OF ok assms(4,5)] by simp
  next
    case False
    have j: "\<not> has_file d' m j" "\<not> has_file d m j"
      using False assms(5) old unfolding has_file_def by auto
    show ?thesis using fs_lookup_other [OF kept j] False by simp
  qed
qed

lemma fs_lookup_remove:
  assumes "fs_ok d" and kept: "slots_kept j d d'" and "j < MAX_FILES" and "has_file d n j"
    and gone: "\<not> valid_file (dir_entry d' j)"
  shows "fs_lookup d' = (fs_lookup d)(n := None)"
proof
  fix m
  have only: "i = j" if "i < MAX_FILES" "has_file d n i" for i
    using assms(1,3,4) that unfolding fs_ok_def has_file_def by blast
  show "fs_lookup d' m = ((fs_lookup d)(n := None)) m"
  proof (cases "m = n")
    case True
    have "\<not> has_file d' n i" if "i < MAX_FILES" for i
      using gone only [OF that] slots_kept_has_file [OF kept that] by (cases "i = j") (auto simp add: has_file_def)
    then show ?thesis using True by (simp add: fs_lookup_None)
  next
    case False
    then have j: "\<not> has_file d' m j" "\<not> has_file d m j" using assms(4) gone unfolding has_file_def by auto
    show ?thesis using fs_lookup_other [OF kept j] False by simp
  qed
qed

section \<open>Transfers of the table\<close>

lemmas ata_view_defs = ata_online_def drive_ok_def drive_defs ata_sectors_def command_events_def
  ata_data_port_def ata_comm_stat_port_def ata_drive_head_port_def ata_seccount_port_def
  ata_lba_lo_port_def ata_lba_mid_port_def ata_lba_hi_port_def

lemma vfs_console [simp]:
  "ata_online hw medium (con_puts str col s) = ata_online hw medium s"
  "ata_sectors medium (con_puts str col s) = ata_sectors medium s"
  "file_table (con_puts str col t) = file_table t"
  by (simp_all add: con_puts_def ata_view_defs fun_eq_iff)

lemma vfs_table_frame [simp]:
  "ata_online hw medium (s\<lparr>file_table := tab\<rparr>) = ata_online hw medium s"
  "ata_sectors medium (s\<lparr>file_table := tab\<rparr>) = ata_sectors medium s"
  by (simp_all add: ata_view_defs fun_eq_iff)

lemma vfs_upd_file [simp]:
  "ata_online hw medium (upd_file i f s) = ata_online hw medium s"
  "ata_sectors medium (upd_file i f s) = ata_sectors medium s"
  "file_table (upd_file i f s) = (file_table s)(i := f (file_table s i))"
  by (simp_all add: upd_file_def)

lemma off_line_table: "off_line t = off_line s \<Longrightarrow> file_table t = file_table s"
  by (drule arg_cong [of _ _ file_table]) (simp add: off_line_def)

lemma ata_online_length: "ata_online hw medium s \<Longrightarrow> length (ata_sectors medium s l) = 512"
  using medium_length by (auto simp add: ata_online_def ata_sectors_def)

text \<open>The table after loading it from disk \<open>d\<close>: the valid entries of \<open>d\<close>, the others unused.\<close>

definition loaded :: "(u32 \<Rightarrow> bytes) \<Rightarrow> (nat \<Rightarrow> vfs_file_t) \<Rightarrow> bool" where
  "loaded d tab \<longleftrightarrow> table_wf tab \<and>
     (\<forall>i < MAX_FILES. if valid_file (dir_entry d i) then tab i = dir_entry d i else vf_used (tab i) = 0)"

lemma vfs_sync_from_disk_loads:
  fixes s :: "'a vfs_sys_scheme"
  assumes "ata_online hw medium s" and "table_wf (file_table s)"
  defines "t \<equiv> vfs_sync_from_disk hw s"
  shows "ata_online hw medium t" and "ata_sectors medium t = ata_sectors medium s"
    and "loaded (ata_sectors medium s) (file_table t)"
proof -
  obtain u where u: "ata_read_sector hw VFS_METADATA_LBA (Some (replicate 512 0)) s =
      (0, Some (ata_sectors medium s (take_bit 28 VFS_METADATA_LBA)), u)"
    "ata_online hw medium u" "ata_sectors medium u = ata_sectors medium s" "off_line u = off_line s"
    by (rule ata_store.read_sector_elim [OF assms(1)])
  define tab where "tab = (\<lambda>i. if i < MAX_FILES
      then load_entry (file_table u i) (dir_entry (ata_sectors medium s) i) else file_table u i)"
  have lba: "take_bit 28 VFS_METADATA_LBA = VFS_METADATA_LBA" by simp
  show "ata_online hw medium t" "ata_sectors medium t = ata_sectors medium s"
    using u(1-3) lba
    by (simp_all add: t_def vfs_sync_from_disk_def Let_def dir_entry_def [symmetric] tab_def [symmetric])
  have tt: "file_table t = tab"
    using u(1) lba by (simp add: t_def vfs_sync_from_disk_def Let_def dir_entry_def tab_def fun_eq_iff)
  have "length (vf_name (dir_entry (ata_sectors medium s) i)) = 20" if "i < MAX_FILES" for i
    using that ata_online_length [OF assms(1)] by (simp add: dir_entry_def disk_file_name_length)
  then show "loaded (ata_sectors medium s) (file_table t)"
    using assms(2) off_line_table [OF u(4)]
    by (auto simp add: tt loaded_def table_wf_def tab_def load_entry_def)
qed

lemma vfs_sync_to_disk_stores:
  fixes s :: "'a vfs_sys_scheme"
  assumes "ata_online hw medium s" and "table_wf (file_table s)"
  defines "t \<equiv> vfs_sync_to_disk hw s"
  shows "ata_online hw medium t" and "file_table t = file_table s"
    and "ata_sectors medium t = (ata_sectors medium s)(VFS_METADATA_LBA := encode_table (file_table s))"
proof -
  obtain u where u: "ata_write_sector hw VFS_METADATA_LBA (Some (encode_table (file_table s))) s = (0, u)"
    "ata_online hw medium u"
    "ata_sectors medium u = (ata_sectors medium s)(take_bit 28 VFS_METADATA_LBA := encode_table (file_table s))"
    "off_line u = off_line s"
    by (rule ata_store.write_sector_elim [OF assms(1) encode_table_length [OF assms(2)]])
  have lba: "take_bit 28 VFS_METADATA_LBA = VFS_METADATA_LBA" by simp
  show "ata_online hw medium t" "file_table t = file_table s"
    "ata_sectors medium t = (ata_sectors medium s)(VFS_METADATA_LBA := encode_table (file_table s))"
    using u lba off_line_table [OF u(4)] by (simp_all add: t_def vfs_sync_to_disk_def)
qed

text \<open>The data sectors are apart from each other and from the table.\<close>

lemma data_lba_unat: "i < MAX_FILES \<Longrightarrow> unat (data_lba i) = 101 + 2 * i" "i < MAX_FILES \<Longrightarrow> unat (data_lba i + 1) = 102 + 2 * i"
proof -
  assume i: "i < MAX_FILES"
  have "unat (of_nat (i * 2) :: u32) = i * 2" unfolding unat_of_nat using i by simp
  then show 1: "unat (data_lba i) = 101 + 2 * i" using i unfolding data_lba_def
    by (subst unat_add_no_wrap) simp_all
  show "unat (data_lba i + 1) = 102 + 2 * i" using i 1 by (subst unat_plus_one_no_wrap) simp_all
qed

lemma take_bit_small: "unat (w :: u32) < 2 ^ 28 \<Longrightarrow> take_bit 28 w = w"
  by (simp add: take_bit_eq_mod word_unat_eq_iff unat_mod)

lemma data_lba_28 [simp]:
  "i < MAX_FILES \<Longrightarrow> take_bit 28 (data_lba i) = data_lba i" "i < MAX_FILES \<Longrightarrow> take_bit 28 (data_lba i + 1) = data_lba i + 1"
  by (rule take_bit_small; simp add: data_lba_unat)+

lemma data_lba_apart:
  assumes "i < MAX_FILES" and "j < MAX_FILES"
  shows "data_lba i \<noteq> VFS_METADATA_LBA" "data_lba i + 1 \<noteq> VFS_METADATA_LBA" "data_lba i \<noteq> data_lba j + 1"
    and "data_lba i = data_lba j \<longleftrightarrow> i = j" "data_lba i + 1 = data_lba j + 1 \<longleftrightarrow> i = j"
proof -
  note u = data_lba_unat [OF assms(1)] data_lba_unat [OF assms(2)]
  show "data_lba i \<noteq> VFS_METADATA_LBA" "data_lba i + 1 \<noteq> VFS_METADATA_LBA" using u by (auto simp add: word_unat_eq_iff)
  show "data_lba i \<noteq> data_lba j + 1"
  proof
    assume "data_lba i = data_lba j + 1"
    then have "101 + 2 * i = 102 + 2 * j" using u by metis
    then show False by presburger
  qed
  show eq: "data_lba i = data_lba j \<longleftrightarrow> i = j" using u by (metis add_left_imp_eq mult_left_cancel zero_neq_numeral)
  show "data_lba i + 1 = data_lba j + 1 \<longleftrightarrow> i = j" using eq by simp
qed

section \<open>One slot at a time\<close>

lemma loaded_wf: "loaded d tab \<Longrightarrow> table_wf tab"
  by (simp add: loaded_def)

lemma loaded_slot:
  assumes "loaded d tab" and "i < MAX_FILES"
  shows "vf_used (tab i) \<noteq> 0 \<longleftrightarrow> valid_file (dir_entry d i)" and "valid_file (dir_entry d i) \<Longrightarrow> tab i = dir_entry d i"
    and "valid_file (tab i) \<longleftrightarrow> valid_file (dir_entry d i)"
proof -
  have *: "if valid_file (dir_entry d i) then tab i = dir_entry d i else vf_used (tab i) = 0"
    using assms unfolding loaded_def by blast
  then show "vf_used (tab i) \<noteq> 0 \<longleftrightarrow> valid_file (dir_entry d i)" "valid_file (dir_entry d i) \<Longrightarrow> tab i = dir_entry d i"
    "valid_file (tab i) \<longleftrightarrow> valid_file (dir_entry d i)"
    by (auto simp add: valid_file_def split: if_splits)
qed

lemma loaded_find:
  assumes "loaded d (file_table t)"
  shows "find_file n t = List.find (has_file d n) [0..<MAX_FILES]"
    and "find_free t = List.find (\<lambda>i. \<not> valid_file (dir_entry d i)) [0..<MAX_FILES]"
proof -
  show "find_file n t = List.find (has_file d n) [0..<MAX_FILES]" unfolding find_file_def
  proof (rule find_cong [OF refl])
    fix i
    assume "i \<in> set [0..<MAX_FILES]"
    then have i: "i < MAX_FILES" by simp
    show "(vf_used (file_table t i) \<noteq> 0 \<and> strcmp_impl (entry_name (file_table t i)) n = 0) = has_file d n i"
      using loaded_slot [OF assms i] by (auto simp add: has_file_def strcmp_impl_eq)
  qed
  show "find_free t = List.find (\<lambda>i. \<not> valid_file (dir_entry d i)) [0..<MAX_FILES]" unfolding find_free_def
  proof (rule find_cong [OF refl])
    fix i
    assume "i \<in> set [0..<MAX_FILES]"
    then have i: "i < MAX_FILES" by simp
    show "(vf_used (file_table t i) = 0) = (\<not> valid_file (dir_entry d i))"
      using loaded_slot(1) [OF assms i] by auto
  qed
qed

text \<open>Writing back a loaded table with slot \<open>j\<close> changed, and perhaps the data sectors of that slot.\<close>

lemma stored_table:
  assumes "loaded d tab" and j: "j < MAX_FILES" and f: "length (vf_name f) = MAX_FILENAME"
    and meta: "d' VFS_METADATA_LBA = encode_table (tab(j := f))"
    and data: "\<And>i. i < MAX_FILES \<Longrightarrow> i \<noteq> j \<Longrightarrow> d' (data_lba i) = d (data_lba i) \<and> d' (data_lba i + 1) = d (data_lba i + 1)"
  shows "dir_entry d' j = f" and "slots_kept j d d'"
proof -
  have wf: "table_wf (tab(j := f))" using loaded_wf [OF assms(1)] f by (simp add: table_wf_def)
  have dir: "dir_entry d' i = (tab(j := f)) i" if "i < MAX_FILES" for i
    using disk_file_encode_table [OF wf that] by (simp add: dir_entry_def meta)
  show "dir_entry d' j = f" using dir [OF j] by simp
  show "slots_kept j d d'"
    unfolding slots_kept_def
  proof (intro allI impI)
    fix i
    assume i: "i < MAX_FILES" "i \<noteq> j"
    have di: "dir_entry d' i = tab i" using dir [OF i(1)] i(2) by simp
    show "valid_file (dir_entry d' i) = valid_file (dir_entry d i) \<and>
        (valid_file (dir_entry d i) \<longrightarrow> dir_entry d' i = dir_entry d i \<and> contents d' i = contents d i)"
      using loaded_slot(2,3) [OF assms(1) i(1)] data [OF i] by (simp add: di contents_def)
  qed
qed

lemma loaded_stored:
  assumes "loaded d tab" and "j < MAX_FILES" and "length (vf_name f) = MAX_FILENAME"
    and "d' VFS_METADATA_LBA = encode_table (tab(j := f))" and "vf_used f = 0 \<or> valid_file f"
  shows "loaded d' (tab(j := f))"
proof -
  have wf: "table_wf (tab(j := f))" using loaded_wf [OF assms(1)] assms(3) by (simp add: table_wf_def)
  have "dir_entry d' i = (tab(j := f)) i" if "i < MAX_FILES" for i
    using disk_file_encode_table [OF wf that] by (simp add: dir_entry_def assms(4))
  then show ?thesis unfolding loaded_def using wf assms(5) loaded_slot [OF assms(1)] by auto
qed

section \<open>Creating a file\<close>

definition new_entry :: "nat \<Rightarrow> bytes \<Rightarrow> vfs_file_t \<Rightarrow> vfs_file_t" where
  "new_entry i n f = f\<lparr>vf_used := 1, vf_size := 0, vf_start_lba := data_lba i, vf_name := strcpy_impl (vf_name f) n\<rparr>"

lemma new_entry_simps:
  assumes "good_name n"
  shows "valid_file (new_entry i n f)" "entry_name (new_entry i n f) = n" "vf_start_lba (new_entry i n f) = data_lba i"
    "vf_size (new_entry i n f) = 0" "length (vf_name f) = MAX_FILENAME \<Longrightarrow> length (vf_name (new_entry i n f)) = MAX_FILENAME"
  using entry_name_strcpy [OF assms, where f = "f\<lparr>vf_used := 1, vf_size := 0, vf_start_lba := data_lba i\<rparr>" and dest = "vf_name f"]
  by (simp_all add: new_entry_def valid_file_def strcpy_impl_length)

text \<open>The state after a successful \<open>vfs_create_file\<close>: slot \<open>i\<close> of the table and of the disk is the file \<open>n\<close>.\<close>

definition opened :: "hardware \<Rightarrow> (io_event list \<Rightarrow> u32 \<Rightarrow> bytes) \<Rightarrow> bytes \<Rightarrow> nat \<Rightarrow> 'a vfs_sys_scheme \<Rightarrow> bool" where
  "opened hw medium n i t \<longleftrightarrow>
     ata_online hw medium t \<and> loaded (ata_sectors medium t) (file_table t) \<and> fs_ok (ata_sectors medium t) \<and>
     i < MAX_FILES \<and> has_file (ata_sectors medium t) n i"

lemma vfs_create_new:
  fixes t :: "'a vfs_sys_scheme"
  assumes "ata_online hw medium t" and "loaded d (file_table t)" and d: "d = ata_sectors medium t" and ok: "fs_ok d"
    and n: "good_name n" "fs_lookup d n = None" and i: "i < MAX_FILES" "\<not> valid_file (dir_entry d i)"
  defines "u \<equiv> vfs_sync_to_disk hw (upd_file i (new_entry i n) t)"
  shows "opened hw medium n i u" and "fs_lookup (ata_sectors medium u) = (fs_lookup d)(n \<mapsto> [])"
proof -
  define f where "f = new_entry i n (file_table t i)"
  have len: "length (vf_name f) = MAX_FILENAME"
    using loaded_wf [OF assms(2)] i(1) new_entry_simps(5) [OF n(1)] by (simp add: f_def table_wf_def)
  have wf: "table_wf ((file_table t)(i := f))"
    using loaded_wf [OF assms(2)] len by (simp add: table_wf_def)
  note sync = vfs_sync_to_disk_stores [of hw medium "upd_file i (new_entry i n) t"]
  have u: "ata_online hw medium u" "file_table u = (file_table t)(i := f)"
    "ata_sectors medium u = d(VFS_METADATA_LBA := encode_table ((file_table t)(i := f)))"
    using sync assms(1) wf by (simp_all add: u_def f_def d)
  define d' where "d' = ata_sectors medium u"
  have meta: "d' VFS_METADATA_LBA = encode_table ((file_table t)(i := f))" by (simp add: d'_def u(3))
  have st: "dir_entry d' i = f" "slots_kept i d d'"
    using stored_table [where d' = d', OF assms(2) i(1) len meta] data_lba_apart by (simp_all add: d'_def u(3))
  have lens: "\<forall>l. length (d' l) = 512" using ata_online_length [OF u(1)] by (simp add: d'_def)
  have none: "\<not> has_file d n k" if "k < MAX_FILES" for k using n(2) that by (simp add: fs_lookup_None)
  have ok': "fs_ok d'"
    using new_entry_simps [OF n(1)] none by (intro fs_ok_store [OF ok st(2) lens]) (simp_all add: st(1) f_def)
  have stored: "has_file d' n i" using new_entry_simps [OF n(1)] by (simp add: has_file_def st(1) f_def)
  have "loaded d' ((file_table t)(i := f))"
    using new_entry_simps(1) [OF n(1)] by (intro loaded_stored [where d' = d', OF assms(2) i(1) len meta]) (simp add: f_def)
  then show "opened hw medium n i u" using u ok' i stored by (simp add: opened_def d'_def)
  have "contents d' i = []" using new_entry_simps(4) [OF n(1)] by (simp add: contents_def st(1) f_def)
  then show "fs_lookup (ata_sectors medium u) = (fs_lookup d)(n \<mapsto> [])"
    using fs_lookup_store [OF ok st(2) ok' i(1) stored] i(2) by (simp add: d'_def)
qed

lemma vfs_create_file_opens:
  fixes s :: "'a vfs_sys_scheme"
  assumes "ata_online hw medium s" and "table_wf (file_table s)" and d: "d = ata_sectors medium s" and ok: "fs_ok d"
    and n: "good_name n" and room: "n \<in> dom (fs_lookup d) \<or> has_room d"
  obtains i t where "vfs_create_file hw (Some n) s = (int i, t)" and "opened hw medium n i t"
    and "fs_lookup (ata_sectors medium t) = (if n \<in> dom (fs_lookup d) then fs_lookup d else (fs_lookup d)(n \<mapsto> []))"
proof -
  define t where "t = vfs_sync_from_disk hw s"
  have t: "ata_online hw medium t" "ata_sectors medium t = d" "loaded d (file_table t)"
    using vfs_sync_from_disk_loads [OF assms(1,2)] by (simp_all add: t_def d)
  have ne: "n \<noteq> []" using n by (simp add: good_name_def)
  show thesis
  proof (cases "List.find (has_file d n) [0..<MAX_FILES]")
    case (Some i)
    then have "i < MAX_FILES" "has_file d n i" by (simp_all add: find_index_Some del: upt_rec_numeral)
    moreover have "vfs_create_file hw (Some n) s = (int i, t)"
      using ne loaded_find(1) [OF t(3)] Some by (simp add: vfs_create_file_def t_def [symmetric] del: upt_rec_numeral)
    moreover have "n \<in> dom (fs_lookup d)" using Some by (simp add: fs_lookup_def domIff del: upt_rec_numeral)
    ultimately show ?thesis using that t ok by (simp add: opened_def)
  next
    case None
    then have no: "fs_lookup d n = None" by (simp add: fs_lookup_def del: upt_rec_numeral)
    then have nd: "n \<notin> dom (fs_lookup d)" by (simp add: domIff)
    obtain i where free: "List.find (\<lambda>i. \<not> valid_file (dir_entry d i)) [0..<MAX_FILES] = Some i"
      using room nd find_index_None [of "\<lambda>i. \<not> valid_file (dir_entry d i)" MAX_FILES]
      unfolding has_room_def by (auto simp del: upt_rec_numeral)
    then have i: "i < MAX_FILES" "\<not> valid_file (dir_entry d i)" by (simp_all add: find_index_Some del: upt_rec_numeral)
    have "vfs_create_file hw (Some n) s = (int i, vfs_sync_to_disk hw (upd_file i (new_entry i n) t))"
      using ne loaded_find [OF t(3)] None free
      by (simp add: vfs_create_file_def t_def [symmetric] new_entry_def [abs_def] data_lba_def Let_def del: upt_rec_numeral)
    then show ?thesis
      using that vfs_create_new [OF t(1,3) t(2) [symmetric] ok n no i] nd by simp
  qed
qed

section \<open>Writing, deleting and reading\<close>

lemma write_sector_view:
  fixes s :: "'a vfs_sys_scheme"
  assumes "ata_online hw medium s" and "length b = 512" and "take_bit 28 l = l"
  defines "t \<equiv> snd (ata_write_sector hw l (Some b) s)"
  shows "ata_online hw medium t" "ata_sectors medium t = (ata_sectors medium s)(l := b)" "file_table t = file_table s"
proof -
  obtain u where u: "ata_write_sector hw l (Some b) s = (0, u)" "ata_online hw medium u"
    "ata_sectors medium u = (ata_sectors medium s)(take_bit 28 l := b)" "off_line u = off_line s"
    by (rule ata_store.write_sector_elim [OF assms(1,2)])
  show "ata_online hw medium t" "ata_sectors medium t = (ata_sectors medium s)(l := b)" "file_table t = file_table s"
    using u(2,3) assms(3) off_line_table [OF u(4)] by (simp_all add: t_def u(1))
qed

lemma sector_part_length [simp]: "length (sector_part base content len) = 512"
  by (simp add: sector_part_def del: upt_rec_numeral)

lemma sector_parts_content:
  assumes "unat len \<le> 1024" and "unat len > 512 \<Longrightarrow> second = sector_part 512 content len" and "length second = 512"
  shows "take (unat len) (sector_part 0 content len @ second) = map content [0..<unat len]"
proof (rule nth_equalityI)
  show "length (take (unat len) (sector_part 0 content len @ second)) = length (map content [0..<unat len])"
    using assms(1,3) by simp
  fix k
  assume "k < length (take (unat len) (sector_part 0 content len @ second))"
  then have k: "k < unat len" by simp
  show "take (unat len) (sector_part 0 content len @ second) ! k = map content [0..<unat len] ! k"
  proof (cases "k < 512")
    case True
    then show ?thesis using k by (simp add: nth_append) (simp add: sector_part_def del: upt_rec_numeral)
  next
    case False
    then show ?thesis using k assms(1,2) by (simp add: nth_append) (simp add: sector_part_def del: upt_rec_numeral)
  qed
qed

text \<open>The data part of \<open>vfs_write_file\<close> on an open file.\<close>

definition write_data :: "hardware \<Rightarrow> nat \<Rightarrow> (nat \<Rightarrow> u8) \<Rightarrow> u32 \<Rightarrow> 'a vfs_sys_scheme \<Rightarrow> 'a vfs_sys_scheme" where
  "write_data hw i content len s =
     (let s = upd_file i (\<lambda>f. f\<lparr>vf_size := len\<rparr>) s;
          s = snd (ata_write_sector hw (vf_start_lba (file_table s i)) (Some (sector_part 0 content len)) s);
          s = (if len > 512
               then snd (ata_write_sector hw (vf_start_lba (file_table s i) + 1)
                           (Some (sector_part 512 content len)) s)
               else s)
      in vfs_sync_to_disk hw s)"

lemma vfs_write_file_data:
  assumes "vfs_create_file hw name s = (int i, t)"
  shows "vfs_write_file hw name content len s =
    (int (unat (min len MAX_FILE_SIZE)), write_data hw i content (min len MAX_FILE_SIZE) t)"
proof -
  have "(if len > MAX_FILE_SIZE then MAX_FILE_SIZE else len) = min len MAX_FILE_SIZE" by (auto simp add: min_def)
  then show ?thesis using assms by (simp add: vfs_write_file_def write_data_def Let_def del: min_less_iff_conj)
qed

lemma entry_name_size:
  assumes "length (vf_name f) = MAX_FILENAME" and "length (entry_name f) < MAX_FILENAME"
  shows "entry_name (f\<lparr>vf_size := z\<rparr>) = entry_name f"
proof (cases "0 \<in> set (vf_name f)")
  case True
  then show ?thesis by (auto simp add: entry_name_def encode_file_def c_string_def takeWhile_append)
next
  case False
  then have "length (entry_name f) \<ge> length (vf_name f)"
    by (auto simp add: entry_name_def encode_file_def c_string_def takeWhile_append)
  then show ?thesis using assms by simp
qed

lemma write_data_stores:
  fixes t :: "'a vfs_sys_scheme" and content :: "nat \<Rightarrow> u8"
  assumes "opened hw medium n i t" and len: "len \<le> MAX_FILE_SIZE" and n: "good_name n"
  defines "u \<equiv> write_data hw i content len t" and "e \<equiv> ata_sectors medium t"
  shows "ata_online hw medium u" and "table_wf (file_table u)" and "fs_ok (ata_sectors medium u)"
    and "fs_lookup (ata_sectors medium u) = (fs_lookup e)(n \<mapsto> map content [0..<unat len])"
proof -
  have op: "ata_online hw medium t" "loaded e (file_table t)" "fs_ok e" "i < MAX_FILES" "has_file e n i"
    using assms(1) by (simp_all add: opened_def e_def)
  have valid: "valid_file (dir_entry e i)" "entry_name (dir_entry e i) = n" using op(5) by (simp_all add: has_file_def)
  have fi: "file_table t i = dir_entry e i" using loaded_slot(2) [OF op(2,4) valid(1)] .
  have lba: "vf_start_lba (dir_entry e i) = data_lba i" using op(3,4) valid(1) by (simp add: fs_ok_def)
  define f where "f = (dir_entry e i)\<lparr>vf_size := len\<rparr>"
  have flen: "length (vf_name f) = MAX_FILENAME"
    using loaded_wf [OF op(2)] op(4) by (simp add: table_wf_def f_def fi [symmetric])
  define s1 where "s1 = upd_file i (\<lambda>f. f\<lparr>vf_size := len\<rparr>) t"
  have s1: "ata_online hw medium s1" "ata_sectors medium s1 = e" "file_table s1 = (file_table t)(i := f)"
    using op(1) by (simp_all add: s1_def e_def f_def fi)
  define s2 where "s2 = snd (ata_write_sector hw (data_lba i) (Some (sector_part 0 content len)) s1)"
  have s2: "ata_online hw medium s2" "ata_sectors medium s2 = e(data_lba i := sector_part 0 content len)"
    "file_table s2 = (file_table t)(i := f)"
    using write_sector_view [OF s1(1) sector_part_length data_lba_28(1) [OF op(4)]] s1 by (simp_all add: s2_def)
  define s3 where "s3 = (if len > 512
      then snd (ata_write_sector hw (data_lba i + 1) (Some (sector_part 512 content len)) s2) else s2)"
  define e3 where "e3 = (if len > 512 then (ata_sectors medium s2)(data_lba i + 1 := sector_part 512 content len)
      else ata_sectors medium s2)"
  have s3: "ata_online hw medium s3" "ata_sectors medium s3 = e3" "file_table s3 = (file_table t)(i := f)"
    using write_sector_view [OF s2(1) sector_part_length data_lba_28(2) [OF op(4)]] s2 by (simp_all add: s3_def e3_def)
  have u_eq: "u = vfs_sync_to_disk hw s3"
    using s1(3) s2(3) lba by (simp add: u_def write_data_def s3_def s2_def s1_def [symmetric] f_def)
  have wf: "table_wf ((file_table t)(i := f))" using loaded_wf [OF op(2)] flen by (simp add: table_wf_def)
  define d' where "d' = ata_sectors medium u"
  have u: "ata_online hw medium u" "file_table u = (file_table t)(i := f)"
    "d' = e3(VFS_METADATA_LBA := encode_table ((file_table t)(i := f)))"
    using vfs_sync_to_disk_stores [OF s3(1)] wf s3 by (simp_all add: u_eq d'_def)
  show "ata_online hw medium u" "table_wf (file_table u)" using u wf by simp_all
  have meta: "d' VFS_METADATA_LBA = encode_table ((file_table t)(i := f))" by (simp add: u(3))
  have data: "d' (data_lba k) = e (data_lba k) \<and> d' (data_lba k + 1) = e (data_lba k + 1)"
    if "k < MAX_FILES" "k \<noteq> i" for k
    using data_lba_apart [OF that(1) op(4)] data_lba_apart [OF op(4) that(1)] that(2) by (auto simp add: u(3) e3_def s2(2))
  have st: "dir_entry d' i = f" "slots_kept i e d'"
    using stored_table [where d' = d', OF op(2,4) flen meta data] by simp_all
  have vf: "valid_file f" using valid(1) len by (simp add: valid_file_def f_def)
  have nf: "entry_name f = n"
    using entry_name_size [of "dir_entry e i" len] flen n valid(2) by (simp add: f_def good_name_def)
  have lens: "\<forall>l. length (d' l) = 512" using ata_online_length [OF u(1)] by (simp add: d'_def)
  have none: "\<not> has_file e n k" if "k < MAX_FILES" "k \<noteq> i" for k
    using op(3-5) that unfolding fs_ok_def has_file_def by blast
  have ok': "fs_ok d'"
    using none nf lba by (intro fs_ok_store [OF op(3) st(2) lens]) (simp_all add: st(1) f_def)
  then show "fs_ok (ata_sectors medium u)" by (simp add: d'_def)
  have here: "has_file d' n i" using vf nf by (simp add: has_file_def st(1))
  have d1: "d' (data_lba i) = sector_part 0 content len"
    using data_lba_apart [OF op(4) op(4)] by (simp add: u(3) e3_def s2(2))
  have d2: "d' (data_lba i + 1) = sector_part 512 content len" if "unat len > 512"
    using that data_lba_apart [OF op(4) op(4)] by (simp add: u(3) e3_def word_less_nat_alt)
  have "unat len \<le> 1024" using len by (simp add: word_le_nat_alt)
  then have "contents d' i = map content [0..<unat len]"
    using sector_parts_content [of len "d' (data_lba i + 1)" content] d1 d2 lens by (simp add: contents_def st(1) f_def)
  then show "fs_lookup (ata_sectors medium u) = (fs_lookup e)(n \<mapsto> map content [0..<unat len])"
    using fs_lookup_store [OF op(3) st(2) ok' op(4) here] valid(2) by (simp add: d'_def)
qed

text \<open>The table of a mounted file system and the disk: what the operations keep.\<close>

definition fs_mounted :: "hardware \<Rightarrow> (io_event list \<Rightarrow> u32 \<Rightarrow> bytes) \<Rightarrow> 'a vfs_sys_scheme \<Rightarrow> bool" where
  "fs_mounted hw medium s \<longleftrightarrow>
     ata_online hw medium s \<and> table_wf (file_table s) \<and> fs_ok (ata_sectors medium s)"

definition fs_map :: "(io_event list \<Rightarrow> u32 \<Rightarrow> bytes) \<Rightarrow> 'a vfs_sys_scheme \<Rightarrow> bytes \<rightharpoonup> bytes" where
  "fs_map medium s = fs_lookup (ata_sectors medium s)"

lemma delete_slot:
  fixes t :: "'a vfs_sys_scheme"
  assumes op: "opened hw medium n i t"
  defines "u \<equiv> vfs_sync_to_disk hw (upd_file i (\<lambda>f. f\<lparr>vf_used := 0, vf_size := 0, vf_name := (vf_name f)[0 := 0]\<rparr>) t)"
  shows "fs_mounted hw medium u" and "fs_map medium u = (fs_map medium t)(n := None)"
proof -
  define e where "e = ata_sectors medium t"
  have op: "ata_online hw medium t" "loaded e (file_table t)" "fs_ok e" "i < MAX_FILES" "has_file e n i"
    using op by (simp_all add: opened_def e_def)
  define f where "f = (file_table t i)\<lparr>vf_used := 0, vf_size := 0, vf_name := (vf_name (file_table t i))[0 := 0]\<rparr>"
  have flen: "length (vf_name f) = MAX_FILENAME"
    using loaded_wf [OF op(2)] op(4) by (simp add: table_wf_def f_def)
  have wf: "table_wf ((file_table t)(i := f))" using loaded_wf [OF op(2)] flen by (simp add: table_wf_def)
  define d' where "d' = ata_sectors medium u"
  note sync = vfs_sync_to_disk_stores
    [of hw medium "upd_file i (\<lambda>f. f\<lparr>vf_used := 0, vf_size := 0, vf_name := (vf_name f)[0 := 0]\<rparr>) t"]
  have u: "ata_online hw medium u" "file_table u = (file_table t)(i := f)"
    "d' = e(VFS_METADATA_LBA := encode_table ((file_table t)(i := f)))"
    using sync op(1) wf by (simp_all add: u_def f_def d'_def e_def)
  have meta: "d' VFS_METADATA_LBA = encode_table ((file_table t)(i := f))" by (simp add: u(3))
  have st: "dir_entry d' i = f" "slots_kept i e d'"
    using stored_table [where d' = d', OF op(2,4) flen meta] data_lba_apart by (simp_all add: u(3))
  have gone: "\<not> valid_file (dir_entry d' i)" by (simp add: st(1) f_def valid_file_def)
  have lens: "\<forall>l. length (d' l) = 512" using ata_online_length [OF u(1)] by (simp add: d'_def)
  have "fs_ok d'" using gone by (intro fs_ok_store [OF op(3) st(2) lens]) simp_all
  then show "fs_mounted hw medium u" using u wf by (simp add: fs_mounted_def d'_def)
  show "fs_map medium u = (fs_map medium t)(n := None)"
    using fs_lookup_remove [OF op(3) st(2) op(4,5) gone] by (simp add: fs_map_def d'_def e_def)
qed

text \<open>Looking a name up after loading the table.\<close>

lemma vfs_open:
  fixes s :: "'a vfs_sys_scheme"
  assumes "fs_mounted hw medium s"
  defines "t \<equiv> vfs_sync_from_disk hw s"
  shows "fs_mounted hw medium t" and "ata_sectors medium t = ata_sectors medium s"
    and "find_file n t = None \<longleftrightarrow> fs_map medium s n = None"
    and "find_file n t = Some i \<Longrightarrow> opened hw medium n i t \<and> fs_map medium s n = Some (contents (ata_sectors medium s) i)"
proof -
  have m: "ata_online hw medium s" "table_wf (file_table s)" "fs_ok (ata_sectors medium s)"
    using assms(1) by (simp_all add: fs_mounted_def)
  have t: "ata_online hw medium t" "ata_sectors medium t = ata_sectors medium s"
    "loaded (ata_sectors medium s) (file_table t)"
    using vfs_sync_from_disk_loads [OF m(1,2)] by (simp_all add: t_def)
  show "fs_mounted hw medium t" using t m(3) loaded_wf by (auto simp add: fs_mounted_def)
  show "ata_sectors medium t = ata_sectors medium s" by (rule t(2))
  show "find_file n t = None \<longleftrightarrow> fs_map medium s n = None"
    by (simp add: loaded_find(1) [OF t(3)] fs_map_def fs_lookup_def del: upt_rec_numeral)
  assume found: "find_file n t = Some i"
  then have i: "i < MAX_FILES" "has_file (ata_sectors medium s) n i"
    by (simp_all add: loaded_find(1) [OF t(3)] find_index_Some del: upt_rec_numeral)
  then show "opened hw medium n i t \<and> fs_map medium s n = Some (contents (ata_sectors medium s) i)"
    using t m(3) fs_lookup_slot(2) [OF m(3) i] by (simp add: opened_def fs_map_def)
qed

lemma copy_range_eq:
  "copy_range lo hi src buf k = (if lo \<le> k \<and> k < hi then src ! (k - lo) else buf k)"
  by (simp add: copy_range_def fold_fill_range)

end
