(* ===== verification/Vfs_Props.thy ===== *)
theory Vfs_Props
  imports Vfs_Refine
begin

text \<open>
  The properties of the file system: reading, writing, deleting and mounting, each as an operation on the map from
  names to contents that the disk stores.
\<close>

section \<open>Reading\<close>

lemma read_sector_view:
  fixes s :: "'a vfs_sys_scheme"
  assumes "ata_online hw medium s" and "take_bit 28 l = l"
  obtains t where "ata_read_sector hw l (Some b) s = (0, Some (ata_sectors medium s l), t)" and "ata_online hw medium t"
    and "ata_sectors medium t = ata_sectors medium s" and "file_table t = file_table s"
proof -
  obtain t where t: "ata_read_sector hw l (Some b) s = (0, Some (ata_sectors medium s (take_bit 28 l)), t)"
    "ata_online hw medium t" "ata_sectors medium t = ata_sectors medium s" "off_line t = off_line s"
    by (rule ata_store.read_sector_elim [OF assms(1)])
  show ?thesis using that t off_line_table [OF t(4)] assms(2) by simp
qed

lemma contents_length:
  assumes "fs_ok d" and "valid_file (dir_entry d i)"
  shows "length (contents d i) = unat (vf_size (dir_entry d i))" and "unat (vf_size (dir_entry d i)) \<le> 1024"
proof -
  show le: "unat (vf_size (dir_entry d i)) \<le> 1024" using assms(2) by (simp add: valid_file_def word_le_nat_alt)
  show "length (contents d i) = unat (vf_size (dir_entry d i))"
    using assms(1) le by (simp add: contents_def fs_ok_def)
qed

text \<open>What the caller's buffer holds after \<open>k\<close> bytes of \<open>c\<close> were read.\<close>

definition filled :: "nat \<Rightarrow> bytes \<Rightarrow> (nat \<Rightarrow> u8) \<Rightarrow> (nat \<Rightarrow> u8)" where
  "filled k c buf = (\<lambda>j. if j < k then c ! j else if j = k then 0 else buf j)"

lemma filled_parts:
  assumes "k \<le> 1024" and "length a = 512" and "k \<le> length c" and "c = take m (a @ b)"
  shows "(copy_range 512 k b (copy_range 0 (min k 512) a buf))(k := 0) = filled k c buf"
    and "k \<le> 512 \<Longrightarrow> (copy_range 0 (min k 512) a buf)(k := 0) = filled k c buf"
  using assms by (auto simp add: fun_eq_iff copy_range_eq filled_def nth_append)

lemma vfs_read_file_opened:
  fixes t :: "'a vfs_sys_scheme"
  assumes "opened hw medium n i t" and "max_len \<noteq> 0"
  defines "c \<equiv> contents (ata_sectors medium t) i"
  assumes t: "t = vfs_sync_from_disk hw s" and found: "find_file n t = Some i"
  shows "\<exists>u. vfs_read_file hw junk (Some n) (Some buf) max_len s =
      (int (min (length c) (unat max_len - 1)), Some (filled (min (length c) (unat max_len - 1)) c buf), u) \<and>
      ata_online hw medium u \<and> ata_sectors medium u = ata_sectors medium t \<and> file_table u = file_table t"
proof -
  define d where "d = ata_sectors medium t"
  have op: "ata_online hw medium t" "loaded d (file_table t)" "fs_ok d" "i < MAX_FILES" "has_file d n i"
    using assms(1) by (simp_all add: opened_def d_def)
  have valid: "valid_file (dir_entry d i)" using op(5) by (simp add: has_file_def)
  have fi: "file_table t i = dir_entry d i" by (rule loaded_slot(2) [OF op(2,4) valid])
  have lba: "vf_start_lba (dir_entry d i) = data_lba i" using op(3,4) valid by (simp add: fs_ok_def)
  have c: "c = contents d i" by (simp add: c_def d_def)
  note len = contents_length [OF op(3) valid]
  define w where "w = (if vf_size (dir_entry d i) > max_len - 1 then max_len - 1 else vf_size (dir_entry d i))"
  define k where "k = min (length c) (unat max_len - 1)"
  have wk: "unat w = k"
    using len(1) assms(2) by (simp add: w_def k_def c word_less_nat_alt unat_minus_one_nz min_def)
  have wi: "uint w = int k" by (simp add: wk [symmetric])
  obtain u where u: "ata_read_sector hw (data_lba i) (Some junk) t = (0, Some (d (data_lba i)), u)"
    "ata_online hw medium u" "ata_sectors medium u = d" "file_table u = file_table t"
    using read_sector_view [OF op(1) data_lba_28(1) [OF op(4)]] by (auto simp add: d_def)
  obtain v where v: "ata_read_sector hw (data_lba i + 1) (Some (d (data_lba i))) u = (0, Some (d (data_lba i + 1)), v)"
    "ata_online hw medium v" "ata_sectors medium v = d" "file_table v = file_table t"
    using read_sector_view [OF u(2) data_lba_28(2) [OF op(4)]] u(3,4) by auto
  have gt: "w > 512 \<longleftrightarrow> k > 512" using wk by (simp add: word_less_nat_alt)
  have a: "length (d (data_lba i)) = 512" using op(3) by (simp add: fs_ok_def)
  have kc: "k \<le> 1024" "k \<le> length c" using len by (simp_all add: k_def c)
  note parts = filled_parts [OF kc(1) a kc(2), where b = "d (data_lba i + 1)" and m = "unat (vf_size (dir_entry d i))" and buf = buf]
  have ceq: "c = take (unat (vf_size (dir_entry d i))) (d (data_lba i) @ d (data_lba i + 1))"
    by (simp add: c contents_def)
  have run: "vfs_read_file hw junk (Some n) (Some buf) max_len s =
      (int k, Some (filled k c buf), if k > 512 then v else u)"
  proof (cases "k > 512")
    case True
    then show ?thesis using assms(2) found u v lba wk wi gt parts(1) [OF ceq]
      by (simp add: vfs_read_file_def t [symmetric] fi w_def [symmetric])
  next
    case False
    then show ?thesis using assms(2) found u lba wk wi gt parts(2) [OF ceq]
      by (simp add: vfs_read_file_def t [symmetric] fi w_def [symmetric])
  qed
  show ?thesis unfolding k_def [symmetric] run using u v
    by (intro exI [of _ "if k > 512 then v else u"]) (simp add: d_def)
qed

section \<open>Mounting\<close>

definition readme_name :: bytes where
  "readme_name = lit ''readme.txt''"

lemma good_readme: "good_name readme_name"
  by (simp add: good_name_def readme_name_def lit_def)

lemma welcome_length: "length welcome_text = 43"
  by (simp add: welcome_text_def lit_def)

definition blank_table :: "(nat \<Rightarrow> vfs_file_t) \<Rightarrow> (nat \<Rightarrow> vfs_file_t)" where
  "blank_table tab = (\<lambda>i. if i < MAX_FILES
     then (tab i)\<lparr>vf_used := 0, vf_size := 0, vf_start_lba := data_lba i, vf_name := (vf_name (tab i))[0 := 0]\<rparr> else tab i)"

lemma vfs_init_blank:
  "fold (\<lambda>i. upd_file i (\<lambda>f. f\<lparr>vf_used := 0, vf_size := 0, vf_start_lba := VFS_DATA_START_LBA + of_nat (i * 2),
     vf_name := (vf_name f)[0 := 0]\<rparr>)) [0..<MAX_FILES] s = s\<lparr>file_table := blank_table (file_table s)\<rparr>"
proof -
  have "fold (\<lambda>i. upd_file i (\<lambda>f. f\<lparr>vf_used := 0, vf_size := 0, vf_start_lba := VFS_DATA_START_LBA + of_nat (i * 2),
      vf_name := (vf_name f)[0 := 0]\<rparr>)) [0..<m] s =
    s\<lparr>file_table := (\<lambda>i. if i < m then (file_table s i)\<lparr>vf_used := 0, vf_size := 0, vf_start_lba := data_lba i,
      vf_name := (vf_name (file_table s i))[0 := 0]\<rparr> else file_table s i)\<rparr>" for m
    by (induction m) (auto simp add: upd_file_def data_lba_def fun_eq_iff less_Suc_eq intro: arg_cong [where f = "\<lambda>t. s\<lparr>file_table := t\<rparr>"])
  then show ?thesis by (simp add: blank_table_def del: upt_rec_numeral)
qed

definition welcome_sector :: bytes where
  "welcome_sector = welcome_text @ [0] @ replicate (512 - length welcome_text - 1) 0"

lemma welcome_sector_props: "length welcome_sector = 512" "take 44 welcome_sector = welcome_text @ [0]"
  by (simp_all add: welcome_sector_def welcome_length)

definition welcome_entry :: "vfs_file_t \<Rightarrow> vfs_file_t" where
  "welcome_entry f = f\<lparr>vf_name := strcpy_impl (vf_name f) readme_name, vf_used := 1,
     vf_start_lba := VFS_DATA_START_LBA, vf_size := of_nat (length welcome_text) + 1\<rparr>"

lemma vfs_init_eq:
  "vfs_init hw s =
    con_puts (lit ''[VFS] Virtual File System Mounted on ATA Hard Disk (/)'' @ [ch_nl]) COLOR_LIGHT_GREEN
      (let t = vfs_sync_from_disk hw (s\<lparr>file_table := blank_table (file_table s)\<rparr>)
       in if vf_used (file_table t 0) = 0
          then vfs_sync_to_disk hw (snd (ata_write_sector hw VFS_DATA_START_LBA (Some welcome_sector)
                 (t\<lparr>file_table := (file_table t)(0 := welcome_entry (file_table t 0))\<rparr>)))
          else t)"
  unfolding vfs_init_def vfs_init_blank Let_def welcome_sector_def
  by (simp add: welcome_entry_def upd_file_def readme_name_def)

text \<open>The file of welcome, put into slot 0 of a loaded table whose slot 0 is unused.\<close>

lemma welcome_stored:
  fixes t :: "'a vfs_sys_scheme"
  assumes "ata_online hw medium t" and "loaded d (file_table t)" and d: "d = ata_sectors medium t"
    and free: "\<not> valid_file (dir_entry d 0)"
  defines "f \<equiv> welcome_entry (file_table t 0)"
  defines "u \<equiv> vfs_sync_to_disk hw
      (snd (ata_write_sector hw VFS_DATA_START_LBA (Some welcome_sector) (t\<lparr>file_table := (file_table t)(0 := f)\<rparr>)))"
  shows "fs_map medium u = (fs_lookup d)(readme_name \<mapsto> welcome_text @ [0])"
proof -
  have z: "(0::nat) < MAX_FILES" by simp
  have lba0: "VFS_DATA_START_LBA = data_lba 0" by (simp add: data_lba_def)
  have flen: "length (vf_name f) = MAX_FILENAME"
    using loaded_wf [OF assms(2)] by (simp add: f_def welcome_entry_def table_wf_def strcpy_impl_length)
  have wf: "table_wf ((file_table t)(0 := f))" using loaded_wf [OF assms(2)] flen by (simp add: table_wf_def)
  define v where "v = snd (ata_write_sector hw VFS_DATA_START_LBA (Some welcome_sector) (t\<lparr>file_table := (file_table t)(0 := f)\<rparr>))"
  have on: "ata_online hw medium (t\<lparr>file_table := (file_table t)(0 := f)\<rparr>)" using assms(1) by simp
  have v: "ata_online hw medium v" "ata_sectors medium v = d(data_lba 0 := welcome_sector)" "file_table v = (file_table t)(0 := f)"
    using write_sector_view [OF on welcome_sector_props(1) data_lba_28(1) [OF z]] by (simp_all add: v_def lba0 d)
  define d' where "d' = ata_sectors medium u"
  have d': "d' = (d(data_lba 0 := welcome_sector))(VFS_METADATA_LBA := encode_table ((file_table t)(0 := f)))"
    using vfs_sync_to_disk_stores(3) [OF v(1)] wf v by (simp add: d'_def u_def v_def)
  have meta: "d' VFS_METADATA_LBA = encode_table ((file_table t)(0 := f))" by (simp add: d')
  have data: "d' (data_lba i) = d (data_lba i) \<and> d' (data_lba i + 1) = d (data_lba i + 1)" if "i < MAX_FILES" "i \<noteq> 0" for i
    using data_lba_apart [OF that(1) z] data_lba_apart [OF z that(1)] that(2) by (auto simp add: d')
  have st: "dir_entry d' 0 = f" "slots_kept 0 d d'"
    using stored_table [where d' = d', OF assms(2) z flen meta data] by simp_all
  have valid: "valid_file f" by (simp add: f_def welcome_entry_def valid_file_def welcome_length)
  have name: "entry_name f = readme_name"
    using entry_name_strcpy [OF good_readme, where f = "(file_table t 0)\<lparr>vf_used := 1, vf_start_lba := VFS_DATA_START_LBA,
        vf_size := of_nat (length welcome_text) + 1\<rparr>" and dest = "vf_name (file_table t 0)"]
    by (simp add: f_def welcome_entry_def entry_name_def encode_file_def)
  have here: "has_file d' readme_name 0" using valid name by (simp add: has_file_def st(1))
  have fsize: "unat (vf_size (dir_entry d' 0)) = 44" unfolding st(1) by (simp add: f_def welcome_entry_def welcome_length)
  have "d' (data_lba 0) = welcome_sector" using data_lba_apart(1) [OF z z] by (simp add: d')
  then have "contents d' 0 = take 44 welcome_sector"
    by (simp add: contents_def fsize welcome_sector_props(1))
  moreover have "List.find (has_file d' readme_name) [0..<MAX_FILES] = Some 0" using here
    by (simp add: find_index_Some del: upt_rec_numeral)
  ultimately have readme: "fs_lookup d' readme_name = Some (welcome_text @ [0])"
    unfolding fs_lookup_def by (simp add: welcome_sector_props(2) del: upt_rec_numeral)
  have "fs_lookup d' m = fs_lookup d m" if "m \<noteq> readme_name" for m
    using that free name by (intro fs_lookup_other [OF st(2)]) (simp_all add: has_file_def st(1))
  then show ?thesis using readme by (auto simp add: fs_map_def d'_def fun_eq_iff)
qed

section \<open>Properties\<close>

definition demo_vfs :: vfs_sys where
  "demo_vfs = ata_sys.extend demo_ata
     \<lparr>file_table = (\<lambda>_. \<lparr>vf_name = replicate 20 0, vf_size = 0, vf_start_lba = 0, vf_used = 0\<rparr>)\<rparr>"

abbreviation demo_medium :: "io_event list \<Rightarrow> u32 \<Rightarrow> bytes" where
  "demo_medium \<equiv> sim_medium demo_disk"

lemma demo_vfs_fields [simp]:
  "disk_present demo_vfs = 1" "use_secondary demo_vfs = 0" "use_slave demo_vfs = 0" "io_trace demo_vfs = io_trace demo_ata"
  "file_table demo_vfs i = \<lparr>vf_name = replicate 20 0, vf_size = 0, vf_start_lba = 0, vf_used = 0\<rparr>"
  by (simp_all add: demo_vfs_def ata_sys.defs demo_ata_def kbd_sys.defs)

lemma demo_vfs_online: "ata_online (sim_hw demo_disk) demo_medium demo_vfs"
  by (simp add: ata_online_def sim_drive_ok demo_disk_def)

lemma demo_sectors: "ata_sectors demo_medium demo_vfs = demo_disk"
proof -
  have "sim_state demo_disk (io_trace demo_ata) = sim_state demo_disk []" by code_simp
  then show ?thesis by (simp add: ata_sectors_def sim_medium_def) (simp add: sim_state_def)
qed

lemma demo_dir: "i < MAX_FILES \<Longrightarrow> \<not> valid_file (dir_entry demo_disk i)"
proof -
  assume "i < MAX_FILES"
  then have "min 32 (512 - 32 * i) = 32" by simp
  then have "take 32 (drop (32 * i) (replicate 512 (0 :: u8))) = replicate 32 0" by simp
  then show ?thesis by (simp add: dir_entry_def demo_disk_def disk_file_def decode_file_def un_le32_def valid_file_def)
qed

lemma demo_mounted: "fs_mounted (sim_hw demo_disk) demo_medium demo_vfs"
  using demo_vfs_online demo_dir by (simp add: fs_mounted_def table_wf_def demo_sectors fs_ok_def) (simp add: demo_disk_def)

lemma demo_room: "has_room (ata_sectors demo_medium demo_vfs)"
  unfolding has_room_def demo_sectors by (intro exI [of _ 0]) (simp add: demo_dir)

lemma demo_empty: "fs_map demo_medium demo_vfs = Map.empty"
  using demo_dir by (auto simp add: fs_map_def demo_sectors fs_lookup_None has_file_def fun_eq_iff)

lemma vfs_write_file_map:
  fixes s :: "'a vfs_sys_scheme"
  assumes "fs_mounted hw medium s" and "good_name n"
    and "n \<in> dom (fs_map medium s) \<or> has_room (ata_sectors medium s)"
  shows "\<exists>t. vfs_write_file hw (Some n) content len s = (int (min (unat len) 1024), t) \<and> fs_mounted hw medium t \<and>
    fs_map medium t = (fs_map medium s)(n \<mapsto> map content [0..<min (unat len) 1024])"
proof -
  have m: "ata_online hw medium s" "table_wf (file_table s)" "fs_ok (ata_sectors medium s)"
    using assms(1) by (simp_all add: fs_mounted_def)
  obtain i t where t: "vfs_create_file hw (Some n) s = (int i, t)" "opened hw medium n i t"
    "fs_lookup (ata_sectors medium t) = (if n \<in> dom (fs_lookup (ata_sectors medium s))
       then fs_lookup (ata_sectors medium s) else (fs_lookup (ata_sectors medium s))(n \<mapsto> []))"
    by (rule vfs_create_file_opens [OF m(1,2) refl m(3) assms(2)]) (use assms(3) in \<open>auto simp add: fs_map_def\<close>)
  define w where "w = min len MAX_FILE_SIZE"
  have w: "unat w = min (unat len) 1024" by (simp add: w_def min_def word_le_nat_alt)
  have "w \<le> MAX_FILE_SIZE" by (simp add: w_def)
  note u = write_data_stores [OF t(2) this assms(2), of content]
  have "vfs_write_file hw (Some n) content len s = (int (unat w), write_data hw i content w t)"
    unfolding w_def by (rule vfs_write_file_data [OF t(1)])
  then show ?thesis using u t(3) unfolding w
    by (intro exI [of _ "write_data hw i content w t"]) (simp add: fs_mounted_def fs_map_def)
qed

text \<open>C8. Writing a file is an update of the map the disk stores: for a name of 1 to 19 characters that exists or for which
  a slot is free, \<open>vfs_write_file\<close> reports the number of bytes kept (at most 1024), the name is mapped to exactly those
  bytes, every other file keeps its contents, and the disk stays well formed.\<close>

theorem vfs_write_refines:
  fixes s :: "'a vfs_sys_scheme"
  assumes "fs_mounted hw medium s" and "good_name n"
    and "n \<in> dom (fs_map medium s) \<or> has_room (ata_sectors medium s)"
  shows "\<exists>t. vfs_write_file hw (Some n) content len s = (int (min (unat len) 1024), t) \<and> fs_mounted hw medium t \<and>
    fs_map medium t = (fs_map medium s)(n \<mapsto> map content [0..<min (unat len) 1024])"
  by (rule vfs_write_file_map [OF assms])

theorem vfs_write_refines_witness:
  "\<exists>t. vfs_write_file (sim_hw demo_disk) (Some [0x61]) of_nat 700 demo_vfs = (700, t) \<and>
     fs_map demo_medium t = [[0x61] \<mapsto> map of_nat [0..<700]]"
  using vfs_write_refines [OF demo_mounted, of "[0x61]" of_nat 700] demo_room
  by (auto simp add: good_name_def demo_empty simp del: upt_rec_numeral)

lemma vfs_read_file_map:
  fixes s :: "'a vfs_sys_scheme"
  assumes "fs_mounted hw medium s" and "max_len \<noteq> 0"
  shows "\<exists>t. vfs_read_file hw junk (Some n) (Some buf) max_len s =
      (case fs_map medium s n of
         None \<Rightarrow> (- 1, Some buf, t)
       | Some c \<Rightarrow> (int (min (length c) (unat max_len - 1)), Some (filled (min (length c) (unat max_len - 1)) c buf), t)) \<and>
    fs_mounted hw medium t \<and> fs_map medium t = fs_map medium s"
proof -
  define t where "t = vfs_sync_from_disk hw s"
  note opn = vfs_open [OF assms(1), folded t_def]
  show ?thesis
  proof (cases "find_file n t")
    case None
    then have "fs_map medium s n = None" using opn(3) by simp
    then show ?thesis using None opn(1,2) assms(2)
      by (intro exI [of _ t]) (simp add: vfs_read_file_def t_def [symmetric] fs_map_def)
  next
    case (Some i)
    have op: "opened hw medium n i t" "fs_map medium s n = Some (contents (ata_sectors medium t) i)"
      using opn(4) [OF Some] opn(2) by simp_all
    obtain u where "vfs_read_file hw junk (Some n) (Some buf) max_len s =
        (int (min (length (contents (ata_sectors medium t) i)) (unat max_len - 1)),
         Some (filled (min (length (contents (ata_sectors medium t) i)) (unat max_len - 1)) (contents (ata_sectors medium t) i) buf), u)"
      "ata_online hw medium u" "ata_sectors medium u = ata_sectors medium t" "file_table u = file_table t"
      using vfs_read_file_opened [OF op(1) assms(2) t_def Some] by blast
    then show ?thesis using opn(1,2) op(2)
      by (intro exI [of _ u]) (simp add: fs_mounted_def fs_map_def)
  qed
qed

text \<open>C9. Reading a file looks the name up in the map the disk stores: -1 and an untouched buffer if it is not there,
  otherwise as many bytes of the contents as fit before a terminating NUL, and nothing behind it is written.  Reading
  changes no file.\<close>

theorem vfs_read_refines:
  fixes s :: "'a vfs_sys_scheme"
  assumes "fs_mounted hw medium s" and "max_len \<noteq> 0"
  shows "\<exists>t. vfs_read_file hw junk (Some n) (Some buf) max_len s =
      (case fs_map medium s n of
         None \<Rightarrow> (- 1, Some buf, t)
       | Some c \<Rightarrow> (int (min (length c) (unat max_len - 1)), Some (filled (min (length c) (unat max_len - 1)) c buf), t)) \<and>
    fs_mounted hw medium t \<and> fs_map medium t = fs_map medium s"
  by (rule vfs_read_file_map [OF assms])

theorem vfs_read_refines_witness:
  "\<exists>t. vfs_read_file (sim_hw demo_disk) [] (Some [0x61]) (Some (\<lambda>_. 9)) 20 demo_vfs = (- 1, Some (\<lambda>_. 9), t)"
  using vfs_read_refines [OF demo_mounted, of 20 "[]" "[0x61]" "\<lambda>_. 9"] by (auto simp add: demo_empty)

text \<open>C15. Deleting a file removes its name from the map the disk stores and nothing else; if the name is not there the
  result is -1 and nothing changes.\<close>

theorem vfs_delete_refines:
  fixes s :: "'a vfs_sys_scheme"
  assumes "fs_mounted hw medium s" and "n \<noteq> []"
  shows "\<exists>t. vfs_delete_file hw (Some n) s = (if n \<in> dom (fs_map medium s) then 0 else - 1, t) \<and>
    fs_mounted hw medium t \<and> fs_map medium t = (fs_map medium s)(n := None)"
proof -
  define t where "t = vfs_sync_from_disk hw s"
  note opn = vfs_open [OF assms(1), folded t_def]
  show ?thesis
  proof (cases "find_file n t")
    case None
    then have "fs_map medium s n = None" using opn(3) by simp
    then show ?thesis using None opn(1,2) assms(2)
      by (intro exI [of _ t]) (auto simp add: vfs_delete_file_def t_def [symmetric] fs_map_def domIff)
  next
    case (Some i)
    have op: "opened hw medium n i t" "n \<in> dom (fs_map medium s)" using opn(4) [OF Some] by auto
    have same: "fs_map medium t = fs_map medium s" using opn(2) by (simp add: fs_map_def)
    show ?thesis using delete_slot [OF op(1)] op(2) assms(2) Some same
      by (intro exI conjI) (simp_all add: vfs_delete_file_def t_def [symmetric] Let_def)
  qed
qed

theorem vfs_delete_refines_witness:
  "\<exists>t. vfs_delete_file (sim_hw demo_disk) (Some [0x61]) demo_vfs = (- 1, t) \<and> fs_map demo_medium t = Map.empty"
  using vfs_delete_refines [OF demo_mounted, of "[0x61]"] by (auto simp add: demo_empty)

text \<open>C40. Mounting keeps the files of a disk whose slot 0 is in use.  If slot 0 is free, mounting puts the file
  \<open>readme.txt\<close> with the text of welcome there, whether or not another slot holds a file of that name: such a file of
  the user is hidden from then on.  All other names keep their contents.\<close>

theorem vfs_init_mounts:
  fixes s :: "'a vfs_sys_scheme"
  assumes "ata_online hw medium s" and "table_wf (file_table s)"
  shows "fs_map medium (vfs_init hw s) =
    (if valid_file (dir_entry (ata_sectors medium s) 0) then fs_map medium s
     else (fs_map medium s)(readme_name \<mapsto> welcome_text @ [0]))"
proof -
  define r where "r = s\<lparr>file_table := blank_table (file_table s)\<rparr>"
  define t where "t = vfs_sync_from_disk hw r"
  define d where "d = ata_sectors medium s"
  have r: "ata_online hw medium r" "ata_sectors medium r = d" "table_wf (file_table r)"
    using assms by (simp_all add: r_def d_def table_wf_def blank_table_def)
  have t: "ata_online hw medium t" "ata_sectors medium t = d" "loaded d (file_table t)"
    using vfs_sync_from_disk_loads [OF r(1,3)] r(2) by (simp_all add: t_def)
  note slot0 = loaded_slot(1) [OF t(3), of 0]
  show ?thesis
    using slot0 t(2) welcome_stored [OF t(1,3) t(2) [symmetric]]
    by (cases "valid_file (dir_entry d 0)")
      (simp_all add: vfs_init_eq Let_def r_def [symmetric] t_def [symmetric] d_def [symmetric] fs_map_def)
qed

theorem vfs_init_mounts_witness:
  "fs_map demo_medium (vfs_init (sim_hw demo_disk) demo_vfs) = [readme_name \<mapsto> welcome_text @ [0]]"
proof -
  have "table_wf (file_table demo_vfs)" by (simp add: table_wf_def)
  from vfs_init_mounts [OF demo_vfs_online this] show ?thesis
    using demo_dir [of 0] by (simp add: demo_sectors demo_empty)
qed

end
