(* ===== verification/Sync.thy ===== *)
theory Sync
  imports Vfs_Props
begin

text \<open>
  Spinlocks and counting semaphores, \<^verbatim>\<open>src/kernel/spinlock.c\<close> and \<^verbatim>\<open>src/kernel/semaphore.c\<close>.

  There are two views.  The operations as functions: a loop that waits for somebody else takes what the others
  do meanwhile as an argument (\<open>pause\<close>, \<open>yield\<close>) and its result is optional.  And the operations as the atomic steps of
  any number of threads on one semaphore: \<open>sem_step\<close> has one rule per memory access of the C code, the count is
  read and written in separate steps, and the theorems are invariants of all interleavings.
\<close>

section \<open>Operations\<close>

record spinlock_t =
  locked :: u32

record semaphore_t =
  sem_count :: u32
  sem_lock :: spinlock_t

text \<open>\<open>None\<close> is the NULL pointer, on which every operation does nothing.\<close>

definition spinlock_init :: "spinlock_t option \<Rightarrow> spinlock_t option" where
  "spinlock_init lock = map_option (\<lambda>l. l\<lparr>locked := 0\<rparr>) lock"

text \<open>The two atomic accesses, \<^verbatim>\<open>__sync_lock_test_and_set(&l->locked, 1)\<close> and \<^verbatim>\<open>__sync_lock_release\<close>.\<close>

definition lock_test_and_set :: "spinlock_t \<Rightarrow> u32 \<times> spinlock_t" where
  "lock_test_and_set l = (locked l, l\<lparr>locked := 1\<rparr>)"

definition lock_release :: "spinlock_t \<Rightarrow> spinlock_t" where
  "lock_release l = l\<lparr>locked := 0\<rparr>"

partial_function (option) spin :: "(spinlock_t \<Rightarrow> spinlock_t) \<Rightarrow> spinlock_t \<Rightarrow> spinlock_t option" where
  "spin pause l =
     (let (old, l) = lock_test_and_set l in if old \<noteq> 0 then spin pause (pause l) else Some l)"

definition spinlock_lock :: "(spinlock_t \<Rightarrow> spinlock_t) \<Rightarrow> spinlock_t option \<Rightarrow> spinlock_t option option" where
  "spinlock_lock pause lock = (case lock of None \<Rightarrow> Some None | Some l \<Rightarrow> map_option Some (spin pause l))"

definition spinlock_unlock :: "spinlock_t option \<Rightarrow> spinlock_t option" where
  "spinlock_unlock lock = map_option lock_release lock"

definition sem_init :: "u32 \<Rightarrow> semaphore_t option \<Rightarrow> semaphore_t option" where
  "sem_init value sem = map_option (\<lambda>s. s\<lparr>sem_count := value, sem_lock := (sem_lock s)\<lparr>locked := 0\<rparr>\<rparr>) sem"

definition sem_acquire :: "(spinlock_t \<Rightarrow> spinlock_t) \<Rightarrow> semaphore_t \<Rightarrow> semaphore_t option" where
  "sem_acquire pause s = map_option (\<lambda>l. s\<lparr>sem_lock := l\<rparr>) (spin pause (sem_lock s))"

definition sem_release :: "semaphore_t \<Rightarrow> semaphore_t" where
  "sem_release s = s\<lparr>sem_lock := lock_release (sem_lock s)\<rparr>"

partial_function (option) sem_wait_loop ::
    "(spinlock_t \<Rightarrow> spinlock_t) \<Rightarrow> (semaphore_t \<Rightarrow> semaphore_t) \<Rightarrow> semaphore_t \<Rightarrow> semaphore_t option" where
  "sem_wait_loop pause yield s =
     (case sem_acquire pause s of
        None \<Rightarrow> None
      | Some s \<Rightarrow>
          if 0 <s sem_count s then Some (sem_release (s\<lparr>sem_count := sem_count s - 1\<rparr>))
          else sem_wait_loop pause yield (yield (sem_release s)))"

definition sem_wait ::
    "(spinlock_t \<Rightarrow> spinlock_t) \<Rightarrow> (semaphore_t \<Rightarrow> semaphore_t) \<Rightarrow> semaphore_t option \<Rightarrow> semaphore_t option option" where
  "sem_wait pause yield sem = (case sem of None \<Rightarrow> Some None | Some s \<Rightarrow> map_option Some (sem_wait_loop pause yield s))"

definition sem_signal :: "(spinlock_t \<Rightarrow> spinlock_t) \<Rightarrow> semaphore_t option \<Rightarrow> semaphore_t option option" where
  "sem_signal pause sem =
     (case sem of
        None \<Rightarrow> Some None
      | Some s \<Rightarrow> map_option (\<lambda>s. Some (sem_release (s\<lparr>sem_count := sem_count s + 1\<rparr>))) (sem_acquire pause s))"

declare spin.simps [code] sem_wait_loop.simps [code]

section \<open>Interleavings\<close>

text \<open>
  Where a thread stands: \<open>Pc_Idle\<close> outside, \<open>Wait_\<dots>\<close> inside \<open>sem_wait\<close>, \<open>Signal_\<dots>\<close> inside \<open>sem_signal\<close>.
  A register argument is a value read from memory and not stored back yet.
\<close>

datatype sem_pc =
    Pc_Idle
  | Wait_Lock | Wait_Test | Wait_Load | Wait_Store u32 | Wait_Unlock | Wait_Retry | Wait_Yield
  | Signal_Lock | Signal_Load | Signal_Store u32 | Signal_Unlock

record sem_conf =
  sc_sem :: semaphore_t
  sc_pc :: "nat \<Rightarrow> sem_pc"
  sc_granted :: nat
  sc_released :: nat

abbreviation goto :: "nat \<Rightarrow> sem_pc \<Rightarrow> sem_conf \<Rightarrow> sem_conf" where
  "goto i p c \<equiv> c\<lparr>sc_pc := (sc_pc c)(i := p)\<rparr>"

abbreviation set_count :: "u32 \<Rightarrow> sem_conf \<Rightarrow> sem_conf" where
  "set_count n c \<equiv> c\<lparr>sc_sem := (sc_sem c)\<lparr>sem_count := n\<rparr>\<rparr>"

abbreviation set_lock :: "spinlock_t \<Rightarrow> sem_conf \<Rightarrow> sem_conf" where
  "set_lock l c \<equiv> c\<lparr>sc_sem := (sc_sem c)\<lparr>sem_lock := l\<rparr>\<rparr>"

text \<open>The critical section is entered by a test-and-set that finds the lock free.\<close>

inductive sem_step :: "sem_conf \<Rightarrow> sem_conf \<Rightarrow> bool" where
  call_wait: "sc_pc c i = Pc_Idle \<Longrightarrow> sem_step c (goto i Wait_Lock c)"
| call_signal: "sc_pc c i = Pc_Idle \<Longrightarrow> sem_step c (goto i Signal_Lock c)"
| lock: "sc_pc c i = p \<Longrightarrow> (p, q) \<in> {(Wait_Lock, Wait_Test), (Signal_Lock, Signal_Load)} \<Longrightarrow>
    lock_test_and_set (sem_lock (sc_sem c)) = (0, l) \<Longrightarrow> sem_step c (goto i q (set_lock l c))"
| lock_spin: "sc_pc c i = p \<Longrightarrow> p \<in> {Wait_Lock, Signal_Lock} \<Longrightarrow>
    lock_test_and_set (sem_lock (sc_sem c)) = (old, l) \<Longrightarrow> old \<noteq> 0 \<Longrightarrow> sem_step c (set_lock l c)"
| wait_test: "sc_pc c i = Wait_Test \<Longrightarrow>
    sem_step c (goto i (if 0 <s sem_count (sc_sem c) then Wait_Load else Wait_Retry) c)"
| wait_load: "sc_pc c i = Wait_Load \<Longrightarrow> sem_step c (goto i (Wait_Store (sem_count (sc_sem c))) c)"
| wait_store: "sc_pc c i = Wait_Store r \<Longrightarrow>
    sem_step c ((goto i Wait_Unlock (set_count (r - 1) c))\<lparr>sc_granted := sc_granted c + 1\<rparr>)"
| wait_yield: "sc_pc c i = Wait_Yield \<Longrightarrow> sem_step c (goto i Wait_Lock c)"
| signal_load: "sc_pc c i = Signal_Load \<Longrightarrow> sem_step c (goto i (Signal_Store (sem_count (sc_sem c))) c)"
| signal_store: "sc_pc c i = Signal_Store r \<Longrightarrow>
    sem_step c ((goto i Signal_Unlock (set_count (r + 1) c))\<lparr>sc_released := sc_released c + 1\<rparr>)"
| unlock: "sc_pc c i = p \<Longrightarrow> (p, q) \<in> {(Wait_Unlock, Pc_Idle), (Wait_Retry, Wait_Yield), (Signal_Unlock, Pc_Idle)} \<Longrightarrow>
    sem_step c (goto i q (set_lock (lock_release (sem_lock (sc_sem c))) c))"

inductive sem_reach :: "u32 \<Rightarrow> sem_conf \<Rightarrow> bool" for v where
  start: "sem_init v (Some s) = Some s' \<Longrightarrow>
    sem_reach v \<lparr>sc_sem = s', sc_pc = (\<lambda>_. Pc_Idle), sc_granted = 0, sc_released = 0\<rparr>"
| step: "sem_reach v c \<Longrightarrow> sem_step c d \<Longrightarrow> sem_reach v d"

inductive_cases sem_stepE: "sem_step c d"

fun critical :: "sem_pc \<Rightarrow> bool" where
  "critical Wait_Test = True"
| "critical Wait_Load = True"
| "critical (Wait_Store _) = True"
| "critical Wait_Unlock = True"
| "critical Wait_Retry = True"
| "critical Signal_Load = True"
| "critical (Signal_Store _) = True"
| "critical Signal_Unlock = True"
| "critical _ = False"

text \<open>The lock and the critical sections: the lock is free and nobody is inside, or it is taken and one thread is inside.\<close>

definition lock_inv :: "sem_conf \<Rightarrow> bool" where
  "lock_inv c \<longleftrightarrow>
     (locked (sem_lock (sc_sem c)) = 0 \<and> (\<forall>i. \<not> critical (sc_pc c i))) \<or>
     (locked (sem_lock (sc_sem c)) = 1 \<and> (\<exists>i. critical (sc_pc c i) \<and> (\<forall>j. critical (sc_pc c j) \<longrightarrow> j = i)))"

lemma lock_inv_inside:
  assumes "lock_inv c" and "critical (sc_pc c i)"
  shows "locked (sem_lock (sc_sem c)) = 1" and "critical (sc_pc c j) \<Longrightarrow> j = i"
  using assms unfolding lock_inv_def by metis+

lemma lock_inv_stay:
  assumes "lock_inv c" and "critical (sc_pc c i) = critical p" and "sem_lock (sc_sem d) = sem_lock (sc_sem c)"
    and "sc_pc d = (sc_pc c)(i := p)"
  shows "lock_inv d"
proof -
  have "critical (sc_pc d j) = critical (sc_pc c j)" for j using assms(2,4) by simp
  then show ?thesis using assms(1,3) by (simp add: lock_inv_def)
qed

lemma lock_inv_step:
  assumes inv: "lock_inv c" and "sem_step c d"
  shows "lock_inv d"
  using assms(2)
proof (cases rule: sem_step.cases)
  case (lock i p q l)
  then have "locked (sem_lock (sc_sem c)) = 0" by (simp add: lock_test_and_set_def)
  then have "\<not> critical (sc_pc c j)" for j using inv by (auto simp add: lock_inv_def)
  then show ?thesis using lock by (auto simp add: lock_inv_def lock_test_and_set_def)
next
  case (lock_spin i p old l)
  then have "locked (sem_lock (sc_sem c)) = 1" using inv by (auto simp add: lock_inv_def lock_test_and_set_def)
  moreover have "locked l = 1" using lock_spin by (auto simp add: lock_test_and_set_def)
  ultimately show ?thesis using lock_spin inv by (simp add: lock_inv_def)
next
  case (unlock i p q)
  then have "critical (sc_pc c i)" "\<not> critical q" by auto
  then have "\<not> critical (sc_pc d j)" for j using unlock(1) lock_inv_inside(2) [OF inv, of i j] by auto
  then show ?thesis using unlock(1) by (simp add: lock_inv_def lock_release_def)
qed (rule lock_inv_stay [OF inv]; simp)+

text \<open>
  The count: it is what was put in minus what was taken out, a value in a register of a thread inside is current, and a
  thread that has passed the test will not take the count below zero.  As long as it does not exceed the range of \<open>int\<close>.
\<close>

definition in_range :: "u32 \<Rightarrow> sem_conf \<Rightarrow> bool" where
  "in_range v c \<longleftrightarrow> sint v + int (sc_released c) < 2 ^ 31"

fun pc_ok :: "u32 \<Rightarrow> sem_pc \<Rightarrow> bool" where
  "pc_ok n Wait_Load \<longleftrightarrow> 0 <s n"
| "pc_ok n (Wait_Store r) \<longleftrightarrow> r = n \<and> 0 <s n"
| "pc_ok n (Signal_Store r) \<longleftrightarrow> r = n"
| "pc_ok n _ \<longleftrightarrow> True"

definition count_inv :: "u32 \<Rightarrow> sem_conf \<Rightarrow> bool" where
  "count_inv v c \<longleftrightarrow>
     0 \<le> sint (sem_count (sc_sem c)) \<and>
     sint (sem_count (sc_sem c)) = sint v + int (sc_released c) - int (sc_granted c) \<and>
     (\<forall>i. pc_ok (sem_count (sc_sem c)) (sc_pc c i))"

lemma pc_ok_outside: "\<not> critical p \<Longrightarrow> pc_ok n p"
  by (cases p) simp_all

text \<open>A change of the count by the only thread inside.\<close>

lemma count_inv_change:
  assumes "lock_inv c" and "critical (sc_pc c i)" and "count_inv v c"
    and "sc_pc d = (sc_pc c)(i := p)" and "pc_ok n p" and "sem_count (sc_sem d) = n"
    and "0 \<le> sint n" and "sint n = sint v + int (sc_released d) - int (sc_granted d)"
  shows "count_inv v d"
proof -
  have "pc_ok n (sc_pc d j)" for j
  proof (cases "j = i")
    case True
    then show ?thesis using assms(4,5) by simp
  next
    case False
    then have "\<not> critical (sc_pc c j)" using lock_inv_inside(2) [OF assms(1,2)] by blast
    then show ?thesis using False assms(4) by (simp add: pc_ok_outside)
  qed
  then show ?thesis using assms(6-8) by (simp add: count_inv_def)
qed

lemma sint_pred: "0 <s r \<Longrightarrow> sint (r - 1 :: u32) = sint r - 1"
  using sint_less [of r] by (simp add: sint_word_ariths word_sless_alt signed_take_bit_int_eq_self)

lemma sint_succ: "0 \<le> sint r \<Longrightarrow> sint r < 2 ^ 31 - 1 \<Longrightarrow> sint (r + 1 :: u32) = sint r + 1"
  by (simp add: sint_word_ariths signed_take_bit_int_eq_self)

lemma count_inv_step:
  assumes lock: "lock_inv c" and inv: "count_inv v c" and "sem_step c d" and range: "in_range v d"
  shows "count_inv v d"
  using assms(3)
proof (cases rule: sem_step.cases)
  case (wait_store i r)
  have "pc_ok (sem_count (sc_sem c)) (sc_pc c i)" using inv by (simp add: count_inv_def)
  then have r: "r = sem_count (sc_sem c)" "0 <s r" using wait_store by simp_all
  have "sint v + int (sc_released c) - int (sc_granted c) = sint r" using inv r(1) by (simp add: count_inv_def)
  then show ?thesis using wait_store sint_pred [OF r(2)] r(2)
    by (intro count_inv_change [OF lock _ inv, of i d Wait_Unlock "r - 1"]) (simp_all add: word_sless_alt)
next
  case (signal_store i r)
  have "pc_ok (sem_count (sc_sem c)) (sc_pc c i)" using inv by (simp add: count_inv_def)
  then have r: "r = sem_count (sc_sem c)" using signal_store by simp
  have nn: "0 \<le> sint r" "sint v + int (sc_released c) - int (sc_granted c) = sint r"
    using inv r by (simp_all add: count_inv_def)
  moreover have "sint r < 2 ^ 31 - 1" using range nn(2) signal_store(1) by (simp add: in_range_def)
  ultimately show ?thesis using signal_store sint_succ [of r]
    by (intro count_inv_change [OF lock _ inv, of i d Signal_Unlock "r + 1"]) simp_all
next
  case (lock_spin i p old l)
  then show ?thesis using inv by (simp add: count_inv_def)
next
  case (wait_load i)
  have "pc_ok (sem_count (sc_sem c)) (sc_pc c i)" using inv by (simp add: count_inv_def)
  then show ?thesis using wait_load inv by (simp add: count_inv_def)
qed (use inv in \<open>auto simp add: count_inv_def\<close>)

lemma sem_step_released: "sem_step c d \<Longrightarrow> sc_released c \<le> sc_released d"
  by (erule sem_step.cases) auto

lemma sem_reach_inv:
  assumes "sem_reach v c" and "0 \<le> sint v"
  shows "lock_inv c \<and> (in_range v c \<longrightarrow> count_inv v c)"
  using assms(1)
proof (induction rule: sem_reach.induct)
  case (start s s')
  then show ?case using assms(2) by (auto simp add: sem_init_def lock_inv_def count_inv_def)
next
  case (step c d)
  then show ?case
    using lock_inv_step [of c d] count_inv_step [of c v d] sem_step_released [of c d]
    by (auto simp add: in_range_def)
qed

text \<open>The two views agree: a thread that is not disturbed takes the steps of the function it runs.\<close>

lemma spin_free: "locked l = 0 \<Longrightarrow> spin pause l = Some (l\<lparr>locked := 1\<rparr>)"
  by (simp add: spin.simps lock_test_and_set_def)

lemma sem_signal_steps:
  assumes "sc_pc c i = Signal_Lock" and "locked (sem_lock (sc_sem c)) = 0"
  shows "\<exists>s. sem_signal pause (Some (sc_sem c)) = Some (Some s) \<and>
    sem_step\<^sup>*\<^sup>* c ((goto i Pc_Idle c)\<lparr>sc_sem := s, sc_released := sc_released c + 1\<rparr>)"
proof -
  define n where "n = sem_count (sc_sem c)"
  define l where "l = (sem_lock (sc_sem c))\<lparr>locked := 1\<rparr>"
  define c1 where "c1 = goto i Signal_Load (set_lock l c)"
  define c2 where "c2 = goto i (Signal_Store n) c1"
  define c3 where "c3 = (goto i Signal_Unlock (set_count (n + 1) c2))\<lparr>sc_released := sc_released c2 + 1\<rparr>"
  define c4 where "c4 = goto i Pc_Idle (set_lock (lock_release (sem_lock (sc_sem c3))) c3)"
  have "sem_step c c1" unfolding c1_def
    by (rule sem_step.lock [OF assms(1)]) (simp_all add: lock_test_and_set_def assms(2) l_def)
  moreover have "sem_step c1 c2"
  proof -
    have n: "n = sem_count (sc_sem c1)" by (simp add: c1_def n_def)
    show ?thesis unfolding c2_def n by (rule sem_step.signal_load) (simp add: c1_def)
  qed
  moreover have "sem_step c2 c3" unfolding c3_def by (rule sem_step.signal_store) (simp add: c2_def)
  moreover have "sem_step c3 c4" unfolding c4_def
    by (rule sem_step.unlock [of _ _ Signal_Unlock]) (simp_all add: c3_def)
  ultimately have "sem_step\<^sup>*\<^sup>* c c4" by (meson rtranclp.rtrancl_into_rtrancl rtranclp.rtrancl_refl)
  moreover have "sem_signal pause (Some (sc_sem c)) = Some (Some (sc_sem c4))"
    by (simp add: sem_signal_def sem_acquire_def spin_free assms(2) sem_release_def c4_def c3_def c2_def c1_def l_def n_def)
  moreover have "c4 = (goto i Pc_Idle c)\<lparr>sc_sem := sc_sem c4, sc_released := sc_released c + 1\<rparr>"
    by (simp add: c4_def c3_def c2_def c1_def)
  ultimately show ?thesis by metis
qed

section \<open>Properties\<close>

text \<open>A run of two threads: thread 0 waits on a semaphore with count 1 and holds the lock while thread 1 spins.\<close>

definition demo_sem :: semaphore_t where
  "demo_sem = \<lparr>sem_count = 1, sem_lock = \<lparr>locked = 0\<rparr>\<rparr>"

definition demo_conf :: sem_conf where
  "demo_conf = \<lparr>sc_sem = \<lparr>sem_count = 1, sem_lock = \<lparr>locked = 1\<rparr>\<rparr>,
     sc_pc = (\<lambda>_. Pc_Idle)(0 := Wait_Test, 1 := Signal_Lock), sc_granted = 0, sc_released = 0\<rparr>"

lemma demo_conf_reach: "sem_reach 1 demo_conf"
proof -
  define c0 where "c0 = \<lparr>sc_sem = demo_sem, sc_pc = (\<lambda>_. Pc_Idle), sc_granted = 0, sc_released = 0\<rparr>"
  have "sem_init 1 (Some demo_sem) = Some demo_sem" by (simp add: sem_init_def demo_sem_def)
  then have 0: "sem_reach 1 c0" unfolding c0_def by (rule sem_reach.start)
  have 1: "sem_reach 1 (goto 0 Wait_Lock c0)"
    by (rule sem_reach.step [OF 0], rule sem_step.call_wait) (simp add: c0_def)
  have 2: "sem_reach 1 (goto 0 Wait_Test (set_lock \<lparr>locked = 1\<rparr> (goto 0 Wait_Lock c0)))"
    by (rule sem_reach.step [OF 1], rule sem_step.lock [of _ 0 Wait_Lock])
      (simp_all add: c0_def demo_sem_def lock_test_and_set_def)
  have 3: "sem_reach 1 (goto 1 Signal_Lock (goto 0 Wait_Test (set_lock \<lparr>locked = 1\<rparr> (goto 0 Wait_Lock c0))))"
    by (rule sem_reach.step [OF 2], rule sem_step.call_signal) (simp add: c0_def)
  moreover have "goto 1 Signal_Lock (goto 0 Wait_Test (set_lock \<lparr>locked = 1\<rparr> (goto 0 Wait_Lock c0))) = demo_conf"
    by (simp add: c0_def demo_conf_def demo_sem_def fun_eq_iff)
  ultimately show ?thesis by simp
qed

text \<open>C20. The spinlock gives mutual exclusion: in every interleaving of any number of threads waiting on and signalling a
  semaphore, at most one thread is between a successful test-and-set and the release, and the lock word is 1 exactly
  while there is one.\<close>

theorem spinlock_mutual_exclusion:
  assumes "sem_reach v c" and "0 \<le> sint v"
  shows "(critical (sc_pc c i) \<and> critical (sc_pc c j) \<longrightarrow> i = j) \<and>
    (locked (sem_lock (sc_sem c)) = 1 \<longleftrightarrow> (\<exists>k. critical (sc_pc c k)))"
  using sem_reach_inv [OF assms] unfolding lock_inv_def by (metis zero_neq_one)

theorem spinlock_mutual_exclusion_witness:
  "locked (sem_lock (sc_sem demo_conf)) = 1 \<and> critical (sc_pc demo_conf 0) \<and> \<not> critical (sc_pc demo_conf 1)"
proof -
  have "critical (sc_pc demo_conf 0)" by (simp add: demo_conf_def)
  moreover have "(0::nat) \<noteq> 1" "0 \<le> sint (1 :: u32)" by simp_all
  ultimately show ?thesis using spinlock_mutual_exclusion [OF demo_conf_reach, of 0 1] by blast
qed

text \<open>C21. A semaphore never grants more than it has: in every interleaving its count is the initial value plus the
  signals minus the waits that got through, and it is never negative, as long as initial value and signals together
  stay in the range of \<open>int\<close>.\<close>

theorem semaphore_accounting:
  assumes "sem_reach v c" and "0 \<le> sint v" and "in_range v c"
  shows "int (sc_granted c) \<le> sint v + int (sc_released c) \<and>
    sint (sem_count (sc_sem c)) = sint v + int (sc_released c) - int (sc_granted c)"
  using sem_reach_inv [OF assms(1,2)] assms(3) by (simp add: count_inv_def)

theorem semaphore_accounting_witness:
  "int (sc_granted demo_conf) \<le> 1 \<and> sint (sem_count (sc_sem demo_conf)) = 1 - int (sc_granted demo_conf)"
  using semaphore_accounting [OF demo_conf_reach] by (simp add: in_range_def demo_conf_def)

end
