(* ===== verification/Isr.thy ===== *)
theory Isr
  imports Sync
begin

text \<open>
  Exceptions, \<^verbatim>\<open>src/kernel/isr.c\<close>: the saved registers, the decimal and hexadecimal printing and the panic
  screen; and the processor identification, \<^verbatim>\<open>src/kernel/cpu.c\<close>.

  The handler of an exception never returns.  It ends in an endless loop of \<open>cli; hlt\<close>; the model gives the state
  after the first round, from which a halted processor with interrupts disabled does not go on.
\<close>

section \<open>Exceptions\<close>

record registers_t =
  rg_ds :: u32
  rg_edi :: u32
  rg_esi :: u32
  rg_ebp :: u32
  rg_esp_dummy :: u32
  rg_ebx :: u32
  rg_edx :: u32
  rg_ecx :: u32
  rg_eax :: u32
  rg_int_no :: u32
  rg_err_code :: u32
  rg_eip :: u32
  rg_cs :: u32
  rg_eflags :: u32

definition exception_messages :: "bytes list" where
  "exception_messages = map lit
     [''Division By Zero'', ''Debug'', ''Non-Maskable Interrupt'', ''Breakpoint'', ''Into Detected Overflow'',
      ''Out of Bounds'', ''Invalid Opcode'', ''No Coprocessor'', ''Double Fault'', ''Coprocessor Segment Overrun'',
      ''Bad TSS'', ''Segment Not Present'', ''Stack Fault'', ''General Protection Fault'', ''Page Fault'',
      ''Unknown Interrupt'', ''Coprocessor Fault'', ''Alignment Check'', ''Machine Check'',
      ''SIMD Floating-Point Exception'', ''Virtualization Exception'', ''Control Protection Exception'',
      ''Reserved'', ''Reserved'', ''Reserved'', ''Reserved'', ''Reserved'', ''Reserved'', ''Reserved'', ''Reserved'',
      ''Reserved'', ''Reserved'']"

definition hex_chars :: bytes where
  "hex_chars = lit ''0123456789ABCDEF''"

text \<open>The loop of \<open>print_hex\<close> fills the buffer from its end; \<open>n\<close> is the number of cells left.\<close>

primrec hex_digits :: "nat \<Rightarrow> u32 \<Rightarrow> bytes" where
  "hex_digits 0 val = []"
| "hex_digits (Suc n) val = hex_digits n (drop_bit 4 val) @ [hex_chars ! unat (val AND 0xF)]"

definition print_hex :: "u32 \<Rightarrow> u8 \<Rightarrow> 'a console_scheme \<Rightarrow> 'a console_scheme" where
  "print_hex val color s = con_puts (lit ''0x'' @ hex_digits 8 val) color s"

definition print_dec :: "u32 \<Rightarrow> u8 \<Rightarrow> 'a console_scheme \<Rightarrow> 'a console_scheme" where
  "print_dec val color s =
     (if val = 0 then con_putc 0x30 color s else con_puts (rev (dec_digits 15 (uint val))) color s)"

definition panic_rule :: bytes where
  "panic_rule = lit ''========================================'' @ [ch_nl]"

text \<open>A labelled register of the dump.\<close>

definition print_reg :: "bytes \<Rightarrow> u32 \<Rightarrow> 'a console_scheme \<Rightarrow> 'a console_scheme" where
  "print_reg label val s = print_hex val 0x4F (con_puts label 0x4F s)"

definition panic_dump :: "registers_t \<Rightarrow> 'a console_scheme \<Rightarrow> 'a console_scheme" where
  "panic_dump regs s =
     (let s = con_puts (ch_nl # lit ''--- Register Dump ---'' @ [ch_nl]) 0x4F s;
          s = print_reg (lit ''EIP: '') (rg_eip regs) s;
          s = print_reg (lit ''  CS: '') (rg_cs regs) s;
          s = print_reg (lit ''  EFLAGS: '') (rg_eflags regs) s;
          s = con_puts [ch_nl] 0x4F s;
          s = print_reg (lit ''EAX: '') (rg_eax regs) s;
          s = print_reg (lit ''  EBX: '') (rg_ebx regs) s;
          s = print_reg (lit ''  ECX: '') (rg_ecx regs) s;
          s = con_puts [ch_nl] 0x4F s;
          s = print_reg (lit ''EDX: '') (rg_edx regs) s;
          s = print_reg (lit ''  ESI: '') (rg_esi regs) s;
          s = print_reg (lit ''  EDI: '') (rg_edi regs) s;
          s = con_puts [ch_nl] 0x4F s;
          s = print_reg (lit ''EBP: '') (rg_ebp regs) s;
          s = print_reg (lit ''  DS:  '') (rg_ds regs) s;
          s = con_puts (ch_nl # panic_rule) 0x4F s
      in con_puts (lit ''System Halted.'' @ [ch_nl]) 0x4F s)"

definition isr_handler :: "hardware \<Rightarrow> registers_t \<Rightarrow> 'a console_scheme \<Rightarrow> 'a console_scheme" where
  "isr_handler hw regs s =
     (let panic_color = 0x4F;
          s = con_puts (ch_nl # panic_rule) panic_color s;
          s = con_puts (lit ''          !!! KERNEL PANIC !!!          '' @ [ch_nl]) panic_color s;
          s = con_puts panic_rule panic_color s;
          s = con_puts (lit ''Exception ['') panic_color s;
          s = print_dec (rg_int_no regs) panic_color s;
          s = con_puts (lit '']: '') panic_color s;
          s = (if rg_int_no regs < 32 then con_puts (exception_messages ! unat (rg_int_no regs)) panic_color s
               else con_puts (lit ''Unknown Exception'') panic_color s);
          s = con_puts [ch_nl] panic_color s;
          s = con_puts (lit ''Error Code: '') panic_color s;
          s = print_hex (rg_err_code regs) panic_color s;
          s = con_puts [ch_nl] panic_color s;
          s = (if rg_int_no regs = 14
               then
                 (let faulting_address = hw_cr2 hw (io_trace s);
                      s = con_puts (lit ''Faulting Address (CR2): '') panic_color s;
                      s = print_hex faulting_address panic_color s
                  in con_puts [ch_nl] panic_color s)
               else s);
          s = panic_dump regs s
      in emit Hlt (emit Cli s))"

section \<open>Processor identification\<close>

record cpu_info_t =
  ci_vendor :: bytes
  ci_brand :: bytes
  ci_cores :: u32
  ci_family :: u32
  ci_model :: u32

text \<open>The four registers of one \<open>cpuid\<close> leaf stored as consecutive words.\<close>

definition cpuid_bytes :: "u32 \<times> u32 \<times> u32 \<times> u32 \<Rightarrow> bytes" where
  "cpuid_bytes r = (case r of (eax, ebx, ecx, edx) \<Rightarrow> le32 eax @ le32 ebx @ le32 ecx @ le32 edx)"

definition cpu_get_info :: "hardware \<Rightarrow> cpu_info_t" where
  "cpu_get_info hw =
     (let (eax0, ebx0, ecx0, edx0) = hw_cpuid hw 0;
          (eax1, ebx1, ecx1, edx1) = hw_cpuid hw 1;
          cores = drop_bit 16 ebx1 AND 0xFF;
          (eax8, ebx8, ecx8, edx8) = hw_cpuid hw 0x80000000
      in \<lparr>ci_vendor = le32 ebx0 @ le32 edx0 @ le32 ecx0 @ [0],
          ci_brand = (if eax8 \<ge> 0x80000004
                      then cpuid_bytes (hw_cpuid hw 0x80000002) @ cpuid_bytes (hw_cpuid hw 0x80000003) @
                           cpuid_bytes (hw_cpuid hw 0x80000004) @ [0]
                      else lit ''x86 Processor'' @ [0]),
          ci_cores = (if cores = 0 then 1 else cores),
          ci_family = drop_bit 8 eax1 AND 0x0F,
          ci_model = drop_bit 4 eax1 AND 0x0F\<rparr>)"

definition cpu_print_info :: "hardware \<Rightarrow> 'a console_scheme \<Rightarrow> 'a console_scheme" where
  "cpu_print_info hw s =
     (let cpu = cpu_get_info hw;
          s = con_puts (lit ''  CPU Vendor : '') COLOR_LIGHT_GREEN s;
          s = con_puts (c_string (ci_vendor cpu)) COLOR_WHITE s;
          s = con_putc ch_nl COLOR_WHITE s;
          s = con_puts (lit ''  CPU Model  : '') COLOR_LIGHT_GREEN s;
          s = con_puts (c_string (ci_brand cpu)) COLOR_WHITE s;
          s = con_putc ch_nl COLOR_WHITE s;
          s = con_puts (lit ''  CPU Cores  : '') COLOR_LIGHT_GREEN s;
          s = con_puts (dec_text0 (sint (ci_cores cpu))) COLOR_WHITE s
      in con_puts (lit '' Logical Core(s)'' @ [ch_nl]) COLOR_WHITE s)"

section \<open>Hexadecimal text\<close>

text \<open>Reading hexadecimal text back.\<close>

definition hex_digit_value :: "u8 \<Rightarrow> u32" where
  "hex_digit_value c = (if c \<ge> 0x41 then ucast (c - 0x37) else ucast (c - 0x30))"

definition hex_value :: "bytes \<Rightarrow> u32" where
  "hex_value cs = foldl (\<lambda>v c. v * 16 + hex_digit_value c) 0 cs"

lemma hex_digit_value_char: "n < 16 \<Longrightarrow> hex_digit_value (hex_chars ! n) = of_nat n"
proof -
  assume "n < 16"
  moreover have "\<forall>n \<in> set [0..<16]. hex_digit_value (hex_chars ! n) = of_nat n" by code_simp
  ultimately show ?thesis by simp
qed

lemma hex_digits_value: "hex_value (hex_digits n v) = take_bit (4 * n) v"
proof (induction n arbitrary: v)
  case 0
  show ?case by (simp add: hex_value_def)
next
  case (Suc n)
  have m: "(0xF :: u32) = mask 4" by (simp add: mask_eq_exp_minus_1)
  have low: "v AND 0xF = take_bit 4 v" by (simp add: m take_bit_eq_mask)
  have "unat (v AND 0xF) < 16" by (simp add: low take_bit_eq_mod unat_mod)
  then have "hex_value (hex_digits (Suc n) v) = take_bit (4 * n) (drop_bit 4 v) * 16 + (v AND 0xF)"
    using Suc.IH [of "drop_bit 4 v"] by (simp add: hex_value_def hex_digit_value_char)
  also have "\<dots> = push_bit 4 (take_bit (4 * n) (drop_bit 4 v)) + take_bit 4 v" by (simp add: low push_bit_eq_mult)
  also have "\<dots> = push_bit 4 (take_bit (4 * n) (drop_bit 4 v)) OR take_bit 4 v"
    by (rule disjunctive_add) (auto simp add: bit_simps)
  also have "\<dots> = take_bit (4 * Suc n) v" by (rule bit_word_eqI) (auto simp add: bit_simps)
  finally show ?case .
qed

section \<open>Properties\<close>

text \<open>Operations that only write to the screen.\<close>

definition on_screen :: "'a console_scheme \<Rightarrow> 'a console_scheme \<Rightarrow> bool" where
  "on_screen s t \<longleftrightarrow> (\<exists>v. t = s\<lparr>vga := v\<rparr>)"

lemma on_screen_intros:
  "on_screen s s"
  "on_screen s t \<Longrightarrow> on_screen s (con_puts str col t)"
  "on_screen s t \<Longrightarrow> on_screen s (con_putc c col t)"
  "on_screen s t \<Longrightarrow> on_screen s (print_hex n col t)"
  "on_screen s t \<Longrightarrow> on_screen s (print_dec n col t)"
  "on_screen s t \<Longrightarrow> on_screen s (print_reg str n t)"
  unfolding print_reg_def print_hex_def print_dec_def
  by (auto simp add: on_screen_def con_puts_def con_putc_def intro: exI [of _ "vga s"])

lemma panic_dump_screen: "on_screen s t \<Longrightarrow> on_screen s (panic_dump regs t)"
  unfolding panic_dump_def Let_def by (intro on_screen_intros)

lemma isr_handler_effect:
  "\<exists>v. isr_handler hw regs s = s\<lparr>vga := v, io_trace := Hlt # Cli # io_trace s\<rparr>"
proof -
  have "\<exists>t. isr_handler hw regs s = emit Hlt (emit Cli t) \<and> on_screen s t"
    unfolding isr_handler_def Let_def
    by (rule exI, rule conjI, rule refl, rule panic_dump_screen) (simp add: on_screen_intros)
  then show ?thesis by (auto simp add: on_screen_def emit_def)
qed

text \<open>The register dump prints faithful hexadecimal numbers: the eight digits printed for a word read back as that
  word, and a panic changes nothing but the screen before it disables interrupts and halts.\<close>

theorem panic_is_faithful:
  "hex_value (hex_digits 8 v) = v \<and> length (hex_digits 8 v) = 8 \<and>
   (\<exists>screen. isr_handler hw regs s = s\<lparr>vga := screen, io_trace := Hlt # Cli # io_trace s\<rparr>)"
proof -
  have "hex_value (hex_digits 8 v) = take_bit 32 v" using hex_digits_value [of 8 v] by simp
  moreover have "length (hex_digits n v) = n" for n by (induction n arbitrary: v) simp_all
  ultimately show ?thesis using isr_handler_effect by (simp add: take_bit_word_eq_self)
qed

end
