(* ===== verification/Power_Mgmt.thy ===== *)
theory Power_Mgmt
  imports Isr "HOL-Library.Monad_Syntax"
begin

text \<open>
  Orderly reboot and shutdown, \<^verbatim>\<open>src/kernel/power.c\<close>.

  Both announce every stage on the screen and on the serial line, write the file table back, flush the disk, terminate
  the processes and disable interrupts before they touch the hardware that resets or powers the machine off.  They
  never return: the result is the state in which the final loop of \<open>hlt\<close> executes its first instruction, or \<open>None\<close> if
  the serial line or the keyboard controller never becomes ready.
\<close>

section \<open>Operations\<close>

text \<open>A message on the screen and on the serial line.\<close>

definition say :: "hardware \<Rightarrow> bytes \<Rightarrow> u8 \<Rightarrow> 'a console_scheme \<Rightarrow> 'a console_scheme option" where
  "say hw str color s = serial_puts hw (Some str) (con_puts str color s)"

definition msg_ok :: bytes where
  "msg_ok = lit ''[OK]'' @ [ch_nl]"

text \<open>The first two stages, the same in both functions.\<close>

definition power_quiesce :: "hardware \<Rightarrow> 'a vfs_sys_scheme \<Rightarrow> 'a vfs_sys_scheme option" where
  "power_quiesce hw s = do {
     s \<leftarrow> say hw (lit '' [1/3] Syncing file system & flushing disk cache... '') COLOR_LIGHT_CYAN s;
     s \<leftarrow> say hw msg_ok COLOR_LIGHT_GREEN (ata_flush hw (vfs_sync hw s));
     s \<leftarrow> say hw (lit '' [2/3] Terminating user & background processes...   '') COLOR_LIGHT_CYAN s;
     say hw msg_ok COLOR_LIGHT_GREEN (scheduler_terminate_all s)
   }"

text \<open>\<^verbatim>\<open>do { temp = inb(0x64); if (temp & 1) inb(0x60); } while (temp & 2);\<close>\<close>

partial_function (option) ps2_wait :: "hardware \<Rightarrow> 'a machine_scheme \<Rightarrow> 'a machine_scheme option" where
  "ps2_wait hw s =
     (let (temp, s) = inb hw 0x64 s;
          s = (if temp AND 1 \<noteq> 0 then snd (inb hw 0x60 s) else s)
      in if temp AND 2 \<noteq> 0 then ps2_wait hw s else Some s)"

declare ps2_wait.simps [code]

definition power_reboot :: "hardware \<Rightarrow> u32 \<Rightarrow> 'a vfs_sys_scheme \<Rightarrow> 'a vfs_sys_scheme option" where
  "power_reboot hw null_idt s = do {
     s \<leftarrow> say hw (ch_nl # lit ''[POWER] Initiating orderly system reboot...'' @ [ch_nl]) COLOR_LIGHT_RED s;
     s \<leftarrow> power_quiesce hw s;
     s \<leftarrow> say hw (lit '' [3/3] Sending reset signal to PS/2 controller...   '') COLOR_LIGHT_CYAN s;
     s \<leftarrow> say hw msg_ok COLOR_LIGHT_GREEN (emit Cli s);
     s \<leftarrow> ps2_wait hw s;
     Some (emit Hlt (emit Int3 (emit (Lidt null_idt) (outb 0x64 0xFE s))))
   }"

definition power_off_ports :: "(u16 \<times> u16) list" where
  "power_off_ports =
     [(0x604, 0x2000), (0x604, 0x3400), (0xB004, 0x2000), (0x4004, 0x3400), (0x4004, 0x2000),
      (0x600, 0x3400), (0x600, 0x2000), (0x5001, 0x0000)]"

definition power_shutdown :: "hardware \<Rightarrow> 'a vfs_sys_scheme \<Rightarrow> 'a vfs_sys_scheme option" where
  "power_shutdown hw s = do {
     s \<leftarrow> say hw (ch_nl # lit ''[POWER] Initiating orderly system shutdown...'' @ [ch_nl]) COLOR_LIGHT_RED s;
     s \<leftarrow> power_quiesce hw s;
     s \<leftarrow> say hw (lit '' [3/3] Disabling interrupts and CPU multitasking... '') COLOR_LIGHT_CYAN s;
     s \<leftarrow> say hw msg_ok COLOR_LIGHT_GREEN (emit Cli s);
     s \<leftarrow> say hw (ch_nl # lit ''[POWER] System halted cleanly. Powering off...'' @ [ch_nl]) COLOR_LIGHT_GREEN s;
     Some (emit Hlt (fold (\<lambda>(p, v). outw p v) power_off_ports s))
   }"

section \<open>Terminating the processes\<close>

lemma terminate_fold:
  "\<exists>m. fold (\<lambda>i s. if processes s i \<noteq> 0 \<and> pid (slot s i) \<noteq> me
             then upd_proc (processes s i) (\<lambda>q. q\<lparr>p_state := PROCESS_TERMINATED\<rparr>) s else s) is s = s\<lparr>proc_mem := m\<rparr> \<and>
    (\<forall>a. pid (m a) = pid (proc_mem s a)) \<and>
    (\<forall>a. p_state (m a) = (if a \<noteq> 0 \<and> pid (proc_mem s a) \<noteq> me \<and> a \<in> processes s ` set is
                         then PROCESS_TERMINATED else p_state (proc_mem s a)))"
proof (induction "is" arbitrary: s)
  case Nil
  show ?case by (rule exI [where x = "proc_mem s"]) simp
next
  case (Cons i js)
  define t where "t = (if processes s i \<noteq> 0 \<and> pid (slot s i) \<noteq> me
      then upd_proc (processes s i) (\<lambda>q. q\<lparr>p_state := PROCESS_TERMINATED\<rparr>) s else s)"
  have t: "t = s\<lparr>proc_mem := proc_mem t\<rparr>" "processes t = processes s" "\<And>a. pid (proc_mem t a) = pid (proc_mem s a)"
    "\<And>a. p_state (proc_mem t a) = (if a \<noteq> 0 \<and> pid (proc_mem s a) \<noteq> me \<and> a = processes s i
      then PROCESS_TERMINATED else p_state (proc_mem s a))"
    by (auto simp add: t_def upd_proc_def slot_def)
  obtain m where m: "fold (\<lambda>i s. if processes s i \<noteq> 0 \<and> pid (slot s i) \<noteq> me
        then upd_proc (processes s i) (\<lambda>q. q\<lparr>p_state := PROCESS_TERMINATED\<rparr>) s else s) js t = t\<lparr>proc_mem := m\<rparr>"
    "\<forall>a. pid (m a) = pid (proc_mem t a)"
    "\<forall>a. p_state (m a) = (if a \<noteq> 0 \<and> pid (proc_mem t a) \<noteq> me \<and> a \<in> processes t ` set js
        then PROCESS_TERMINATED else p_state (proc_mem t a))"
    using Cons.IH [of t] by blast
  have eq: "t\<lparr>proc_mem := m\<rparr> = s\<lparr>proc_mem := m\<rparr>" by (subst t(1)) simp
  show ?case
    using m t(2-4) by (intro exI [of _ m]) (auto simp add: t_def [symmetric] eq)
qed

text \<open>Every process but the running one is terminated; nothing but the process records changes.\<close>

definition all_stopped :: "'a sched_sys_scheme \<Rightarrow> bool" where
  "all_stopped s \<longleftrightarrow>
     (\<forall>i < slots_used s. processes s i \<noteq> 0 \<longrightarrow> pid (slot s i) \<noteq> scheduler_get_current_pid s \<longrightarrow>
        state_of s i = PROCESS_TERMINATED)"

lemma scheduler_terminate_all_effect:
  "all_stopped (scheduler_terminate_all s)" "\<exists>m. scheduler_terminate_all s = s\<lparr>proc_mem := m\<rparr>"
proof -
  define me where "me = scheduler_get_current_pid s"
  obtain m where m: "scheduler_terminate_all s = s\<lparr>proc_mem := m\<rparr>" "\<forall>a. pid (m a) = pid (proc_mem s a)"
    "\<forall>a. p_state (m a) = (if a \<noteq> 0 \<and> pid (proc_mem s a) \<noteq> me \<and>
        a \<in> processes s ` set [0..<unat (process_count s)] then PROCESS_TERMINATED else p_state (proc_mem s a))"
    using terminate_fold [of me "[0..<unat (process_count s)]" s]
    by (auto simp add: scheduler_terminate_all_def Let_def me_def)
  then show "\<exists>m. scheduler_terminate_all s = s\<lparr>proc_mem := m\<rparr>" by blast
  have "scheduler_get_current_pid (s\<lparr>proc_mem := m\<rparr>) = me"
    using m(2) by (simp add: me_def scheduler_get_current_pid_def slot_def)
  then show "all_stopped (scheduler_terminate_all s)"
    using m(2,3) by (simp add: all_stopped_def m(1) slot_def state_of_def)
qed

section \<open>Messages do not disturb the disk\<close>

text \<open>Steps that write to the screen and to byte ports only.\<close>

definition calm :: "'a console_scheme \<Rightarrow> 'a console_scheme \<Rightarrow> bool" where
  "calm s t \<longleftrightarrow> (\<exists>v es. t = s\<lparr>vga := v, io_trace := es @ io_trace s\<rparr> \<and> byte_io es)"

lemma say_calm:
  assumes "uart_drains hw"
  obtains t where "say hw str col s = Some t" and "calm s t"
proof -
  obtain es where "say hw str col s = Some ((con_puts str col s)\<lparr>io_trace := es @ io_trace (con_puts str col s)\<rparr>)" "byte_io es"
    using serial_puts_sends [OF assms, of str "con_puts str col s"] by (auto simp add: serial_out_def say_def)
  then show ?thesis using that unfolding calm_def con_puts_def by auto
qed

lemma calm_disk:
  fixes s :: "'a ata_sys_scheme"
  assumes "calm s t"
  shows "ata_online hw medium t = ata_online hw medium s"
    and "ata_online hw medium s \<Longrightarrow> ata_sectors medium t = ata_sectors medium s"
proof -
  obtain v es where t: "t = s\<lparr>vga := v, io_trace := es @ io_trace s\<rparr>" "byte_io es" using assms by (auto simp add: calm_def)
  show "ata_online hw medium t = ata_online hw medium s" by (simp add: t(1) ata_view_defs)
  assume "ata_online hw medium s"
  then have keeps: "drive_keeps medium s" by (simp add: ata_online_def drive_ok_def)
  have "medium (es @ io_trace s) = medium (io_trace s)"
    by (rule medium_quiet [OF keeps]) (use t(2) in \<open>auto simp add: byte_io_def\<close>)
  then show "ata_sectors medium t = ata_sectors medium s" by (simp add: ata_sectors_def t(1))
qed

lemma calm_frame:
  "calm (s :: 'a vfs_sys_scheme) t \<Longrightarrow> file_table t = file_table s"
  "calm (u :: 'b sched_sys_scheme) w \<Longrightarrow> processes w = processes u \<and> process_count w = process_count u \<and>
     proc_mem w = proc_mem u \<and> current_process w = current_process u"
  by (auto simp add: calm_def)

lemma calm_trace: "calm s t \<Longrightarrow> set (io_trace s) \<subseteq> set (io_trace t)"
  by (auto simp add: calm_def)

text \<open>Writing back a table that was loaded from the disk changes no file.\<close>

lemma sync_keeps_files:
  assumes "loaded d tab" and "fs_ok d"
  shows "fs_lookup (d(VFS_METADATA_LBA := encode_table tab)) = fs_lookup d"
proof
  fix n
  define d' where "d' = d(VFS_METADATA_LBA := encode_table tab)"
  have dir: "dir_entry d' i = tab i" if "i < MAX_FILES" for i
    using disk_file_encode_table [OF loaded_wf [OF assms(1)] that] by (simp add: dir_entry_def d'_def)
  have "fs_lookup d' n = fs_lookup d n"
  proof (rule fs_lookup_same)
    fix i
    assume i: "i < MAX_FILES"
    show "has_file d' n i = has_file d n i"
      using loaded_slot [OF assms(1) i] unfolding has_file_def dir [OF i] by metis
    assume "has_file d n i"
    then show "contents d' i = contents d i"
      using loaded_slot(2) [OF assms(1) i] data_lba_apart(1,2) [OF i i]
      by (simp add: contents_def dir [OF i] has_file_def) (simp add: d'_def)
  qed
  then show "fs_lookup (d(VFS_METADATA_LBA := encode_table tab)) n = fs_lookup d n" by (simp add: d'_def)
qed

lemma ata_flush_view:
  fixes s :: "'a ata_sys_scheme"
  assumes "ata_online hw medium s"
  shows "\<exists>h. ata_flush hw s = s\<lparr>io_trace := h\<rparr> \<and> medium h = medium (io_trace s)"
proof -
  have s: "drive_ok hw medium s" "disk_present s \<noteq> 0" using assms by (simp_all add: ata_online_def)
  obtain j where j: "ata_wait_bsy hw s = (True, s\<lparr>io_trace := polls j s @ io_trace s\<rparr>)"
    by (rule ata_wait_bsy_ok [OF s(1)])
  define u where "u = s\<lparr>io_trace := Outb (ata_comm_stat_port s) 0xE7 # polls j s @ io_trace s\<rparr>"
  have u: "drive_ok hw medium u" using s(1) by (simp add: u_def)
  obtain k where k: "ata_wait_bsy hw u = (True, u\<lparr>io_trace := polls k u @ io_trace u\<rparr>)"
    by (rule ata_wait_bsy_ok [OF u])
  have "ata_flush hw s = s\<lparr>io_trace := polls k u @ io_trace u\<rparr>"
    using s(2) j k by (simp add: ata_flush_def outb_def emit_def u_def [symmetric]) (simp add: u_def)
  moreover have "medium (polls k u @ io_trace u) = medium (io_trace s)"
    using medium_silent [OF u] medium_silent [OF s(1)] by (simp add: u_def)
  ultimately show ?thesis by blast
qed

lemma calm_stopped: "calm s t \<Longrightarrow> all_stopped t = all_stopped s"
  using calm_frame(2) [of s t]
  by (simp add: all_stopped_def state_of_def slot_def scheduler_get_current_pid_def)

definition fs_synced :: "hardware \<Rightarrow> (io_event list \<Rightarrow> u32 \<Rightarrow> bytes) \<Rightarrow> 'a vfs_sys_scheme \<Rightarrow> bool" where
  "fs_synced hw medium s \<longleftrightarrow> fs_mounted hw medium s \<and> loaded (ata_sectors medium s) (file_table s)"

lemma calm_synced: "calm s t \<Longrightarrow> fs_synced hw medium s \<Longrightarrow> fs_synced hw medium t \<and> fs_map medium t = fs_map medium s"
  using calm_disk [of s t hw medium] calm_frame(1) [of s t] by (simp add: fs_synced_def fs_mounted_def fs_map_def)

lemma sync_and_flush:
  fixes s :: "'a vfs_sys_scheme"
  assumes "fs_synced hw medium s"
  defines "t \<equiv> ata_flush hw (vfs_sync hw s)"
  shows "ata_online hw medium t" and "fs_map medium t = fs_map medium s"
proof -
  have s: "ata_online hw medium s" "fs_ok (ata_sectors medium s)" "loaded (ata_sectors medium s) (file_table s)"
    using assms(1) by (simp_all add: fs_synced_def fs_mounted_def)
  define u where "u = vfs_sync hw s"
  have u: "ata_online hw medium u"
    "ata_sectors medium u = (ata_sectors medium s)(VFS_METADATA_LBA := encode_table (file_table s))"
    using vfs_sync_to_disk_stores(1,3) [OF s(1) loaded_wf [OF s(3)]] by (simp_all add: u_def vfs_sync_def)
  obtain h where h: "t = u\<lparr>io_trace := h\<rparr>" "medium h = medium (io_trace u)"
    using ata_flush_view [OF u(1)] by (auto simp add: t_def u_def)
  show "ata_online hw medium t" using u(1) by (simp add: h(1) ata_online_def)
  have "ata_sectors medium t = ata_sectors medium u" by (simp add: h ata_sectors_def)
  then show "fs_map medium t = fs_map medium s"
    using sync_keeps_files [OF s(3,2)] by (simp add: fs_map_def u(2))
qed

lemma calm_map: "calm s t \<Longrightarrow> ata_online hw medium s \<Longrightarrow> ata_online hw medium t \<and> fs_map medium t = fs_map medium s"
  using calm_disk [of s t hw medium] by (simp add: fs_map_def)

lemma power_quiesce_effect:
  fixes s :: "'a vfs_sys_scheme"
  assumes "uart_drains hw" and "fs_synced hw medium s"
  obtains t where "power_quiesce hw s = Some t" and "ata_online hw medium t" and "fs_map medium t = fs_map medium s"
    and "all_stopped t"
proof -
  obtain s1 where s1: "say hw (lit '' [1/3] Syncing file system & flushing disk cache... '') COLOR_LIGHT_CYAN s = Some s1" "calm s s1"
    by (rule say_calm [OF assms(1)])
  have c1: "fs_synced hw medium s1" "fs_map medium s1 = fs_map medium s" using calm_synced [OF s1(2) assms(2)] by simp_all
  define s2 where "s2 = ata_flush hw (vfs_sync hw s1)"
  have c2: "ata_online hw medium s2" "fs_map medium s2 = fs_map medium s"
    using sync_and_flush [OF c1(1)] c1(2) by (simp_all add: s2_def)
  obtain s3 where s3: "say hw msg_ok COLOR_LIGHT_GREEN s2 = Some s3" "calm s2 s3" by (rule say_calm [OF assms(1)])
  obtain s4 where s4: "say hw (lit '' [2/3] Terminating user & background processes...   '') COLOR_LIGHT_CYAN s3 = Some s4" "calm s3 s4"
    by (rule say_calm [OF assms(1)])
  have c4: "ata_online hw medium s4" "fs_map medium s4 = fs_map medium s"
    using calm_map [OF s3(2) c2(1)] calm_map [OF s4(2)] c2(2) by auto
  define s5 where "s5 = scheduler_terminate_all s4"
  obtain m where m: "s5 = s4\<lparr>proc_mem := m\<rparr>" using scheduler_terminate_all_effect(2) [of s4] by (auto simp add: s5_def)
  have c5: "ata_online hw medium s5" "fs_map medium s5 = fs_map medium s" "all_stopped s5"
    using c4 scheduler_terminate_all_effect(1) [of s4]
    by (simp_all add: m ata_view_defs fs_map_def) (simp add: m [symmetric] s5_def)
  obtain s6 where s6: "say hw msg_ok COLOR_LIGHT_GREEN s5 = Some s6" "calm s5 s6" by (rule say_calm [OF assms(1)])
  have "power_quiesce hw s = Some s6"
    using s1(1) s3(1) s4(1) s6(1) by (simp add: power_quiesce_def s2_def s5_def)
  then show ?thesis using that calm_map [OF s6(2) c5(1)] calm_stopped [OF s6(2)] c5 by simp
qed

lemma fold_outw: "fold (\<lambda>(p, v). outw p v) ps s = s\<lparr>io_trace := rev (map (\<lambda>(p, v). Outw p v) ps) @ io_trace s\<rparr>"
  by (induction ps arbitrary: s) (auto simp add: outw_def emit_def)

lemma events_keep_disk:
  fixes s :: "'a vfs_sys_scheme"
  assumes "ata_online hw medium s" and "\<forall>e \<in> set es. \<forall>w. e \<noteq> Outw 0x170 w \<and> e \<noteq> Outw 0x1F0 w"
  shows "ata_online hw medium (s\<lparr>io_trace := es @ io_trace s\<rparr>)"
    and "fs_map medium (s\<lparr>io_trace := es @ io_trace s\<rparr>) = fs_map medium s"
proof -
  have keeps: "drive_keeps medium s" using assms(1) by (simp add: ata_online_def drive_ok_def)
  have "medium (es @ io_trace s) = medium (io_trace s)"
    by (rule medium_quiet [OF keeps]) (use assms(2) in \<open>auto simp add: ata_data_port_def\<close>)
  then show "ata_online hw medium (s\<lparr>io_trace := es @ io_trace s\<rparr>)"
    "fs_map medium (s\<lparr>io_trace := es @ io_trace s\<rparr>) = fs_map medium s"
    using assms(1) by (simp_all add: ata_online_def fs_map_def ata_sectors_def)
qed

section \<open>Properties\<close>

text \<open>A machine with the simulated drive and a UART that is always ready.\<close>

definition demo_hw :: "(u32 \<Rightarrow> bytes) \<Rightarrow> hardware" where
  "demo_hw d0 = (sim_hw d0)\<lparr>hw_inb := (\<lambda>h p. if p = COM1_PORT + 5 then 0x20 else hw_inb (sim_hw d0) h p)\<rparr>"

lemma demo_hw_uart: "uart_drains (demo_hw d0)"
  unfolding uart_drains_def demo_hw_def by simp

lemma demo_hw_drive:
  assumes "primary_master s" and "\<forall>l. length (d0 l) = 512"
  shows "drive_ok (demo_hw d0) (sim_medium d0) s"
proof -
  have p: "ata_comm_stat_port s = 0x1F7" using assms(1) by (simp add: ata_comm_stat_port_def)
  have eq: "hw_inb (demo_hw d0) h (ata_comm_stat_port s) = hw_inb (sim_hw d0) h (ata_comm_stat_port s)"
    "hw_inw (demo_hw d0) h q = hw_inw (sim_hw d0) h q" for h q
    by (simp_all add: demo_hw_def p)
  show ?thesis using sim_drive_ok [OF assms] by (simp add: drive_ok_def drive_ready_def drive_requests_def drive_delivers_def eq)
qed

lemma demo_synced: "fs_synced (demo_hw demo_disk) demo_medium demo_vfs"
proof -
  have "drive_ok (demo_hw demo_disk) demo_medium demo_vfs" by (rule demo_hw_drive) (simp_all add: demo_disk_def)
  moreover have "loaded demo_disk (file_table demo_vfs)" using demo_dir by (simp add: loaded_def table_wf_def)
  ultimately show ?thesis using demo_mounted
    by (simp add: fs_synced_def fs_mounted_def ata_online_def demo_sectors)
qed



end
