(* ===== verification/Syscall.thy ===== *)
theory Syscall
  imports Power_Mgmt
begin

text \<open>
  System calls, \<^verbatim>\<open>src/kernel/syscall.c\<close>: the dispatcher behind \<open>int 0x80\<close> and the client side wrappers.

  \<open>regs\<close> is the frame of the calling process; the dispatcher returns the frame it leaves.  Pointers are addresses of the
  byte memory \<open>ram\<close>.  The result is optional: reading a string that never ends, a heap walk over a broken list, or waiting for a
  device that never answers does not return.  \<open>esp\<close> is the stack pointer with which a call that gives up the processor
  is resumed; \<open>null_idt\<close> is the address of the empty descriptor used by the reboot.
\<close>

abbreviation SYS_YIELD :: u32 where "SYS_YIELD \<equiv> 0"
abbreviation SYS_EXIT :: u32 where "SYS_EXIT \<equiv> 1"
abbreviation SYS_WRITE :: u32 where "SYS_WRITE \<equiv> 2"
abbreviation SYS_MALLOC :: u32 where "SYS_MALLOC \<equiv> 3"
abbreviation SYS_GETPID :: u32 where "SYS_GETPID \<equiv> 4"
abbreviation SYS_READ :: u32 where "SYS_READ \<equiv> 5"
abbreviation SYS_FREE :: u32 where "SYS_FREE \<equiv> 6"
abbreviation SYS_SHUTDOWN :: u32 where "SYS_SHUTDOWN \<equiv> 7"
abbreviation SYS_REBOOT :: u32 where "SYS_REBOOT \<equiv> 8"

section \<open>Operations\<close>

text \<open>The C string at an address.\<close>

partial_function (option) read_cstr :: "(u32 \<Rightarrow> u8) \<Rightarrow> u32 \<Rightarrow> bytes option" where
  "read_cstr m a = (if m a = 0 then Some [] else do { cs \<leftarrow> read_cstr m (a + 1); Some (m a # cs) })"

declare read_cstr.simps [code]

definition sys_write_call :: "u32 \<Rightarrow> u32 \<Rightarrow> u32 \<Rightarrow> 'a console_scheme \<Rightarrow> (u32 \<times> 'a console_scheme) option" where
  "sys_write_call fd str count s =
     (if fd = 1 \<or> fd = 2
      then if str \<noteq> 0
           then do {
             text \<leftarrow> read_cstr (ram s) str;
             let s = con_puts text COLOR_WHITE (con_puts (lit ''[SYS_WRITE] '') COLOR_LIGHT_GREEN s);
             Some (count, if count > 0 \<and> ram s (str + (count - 1)) \<noteq> ch_nl then con_putc ch_nl COLOR_WHITE s else s)
           }
           else Some (count, s)
      else Some (- 1, s))"

lemma unat_succ_below:
  assumes "(a :: u32) < b"
  shows "unat (a + 1) = unat a + 1"
proof -
  have "unat a < unat b" using assms by (simp add: word_less_nat_alt)
  moreover have "unat b < 4294967296" by (rule unat_u32_less)
  ultimately have "unat a < 4294967295" by linarith
  then show ?thesis by (simp add: unat_plus_one_no_wrap)
qed

function sys_read_loop :: "u32 \<Rightarrow> u32 \<Rightarrow> u32 \<Rightarrow> 'a kbd_sys_scheme \<Rightarrow> u32 \<times> 'a kbd_sys_scheme" where
  "sys_read_loop buf count read_bytes s =
     (if read_bytes < count
      then
        (let (c, s) = keyboard_getchar s
         in if c \<noteq> 0
            then
              (let s = s\<lparr>ram := (ram s)(buf + read_bytes := c)\<rparr>
               in if c = ch_nl \<or> c = ch_cr then (read_bytes + 1, s)
                  else sys_read_loop buf count (read_bytes + 1) s)
            else (read_bytes, s))
      else (read_bytes, s))"
  by pat_completeness auto
termination
proof (relation "measure (\<lambda>(buf, count, read_bytes, s). unat count - unat read_bytes)", goal_cases)
  case 1
  show ?case by simp
next
  case (2 buf count read_bytes s x c t u)
  then have "unat read_bytes < unat count" by (simp add: word_less_nat_alt)
  moreover have "unat (read_bytes + 1) = unat read_bytes + 1" using 2 by (intro unat_succ_below [of _ count]) simp
  ultimately show ?case by simp
qed

declare sys_read_loop.simps [simp del]

definition sys_read_call :: "u32 \<Rightarrow> u32 \<Rightarrow> u32 \<Rightarrow> 'a kbd_sys_scheme \<Rightarrow> u32 \<times> 'a kbd_sys_scheme" where
  "sys_read_call fd buf count s =
     (if fd = 0 \<and> buf \<noteq> 0 \<and> count > 0 then sys_read_loop buf count 0 s else (0, s))"

text \<open>A call that returns the value \<open>r\<close>.\<close>

abbreviation set_eax :: "registers_t \<Rightarrow> u32 \<Rightarrow> registers_t" where
  "set_eax regs r \<equiv> regs\<lparr>rg_eax := r\<rparr>"

definition syscall_handler ::
    "hardware \<Rightarrow> u32 \<Rightarrow> u32 \<Rightarrow> registers_t \<Rightarrow> 'a vfs_sys_scheme \<Rightarrow> (registers_t \<times> 'a vfs_sys_scheme) option" where
  "syscall_handler hw null_idt esp regs s =
     (let syscall_num = rg_eax regs
      in if syscall_num = SYS_YIELD then Some (set_eax regs 0, scheduler_yield esp s)
         else if syscall_num = SYS_EXIT then Some (regs, process_exit (rg_ebx regs) esp s)
         else if syscall_num = SYS_WRITE
         then map_option (map_prod (set_eax regs) id) (sys_write_call (rg_ebx regs) (rg_ecx regs) (rg_edx regs) s)
         else if syscall_num = SYS_READ
         then Some (map_prod (set_eax regs) id (sys_read_call (rg_ebx regs) (rg_ecx regs) (rg_edx regs) s))
         else if syscall_num = SYS_MALLOC then map_option (map_prod (set_eax regs) id) (kmalloc (rg_ebx regs) s)
         else if syscall_num = SYS_GETPID then Some (set_eax regs (scheduler_get_current_pid s), s)
         else if syscall_num = SYS_FREE then Some (set_eax regs 0, kfree (rg_ebx regs) s)
         else if syscall_num = SYS_SHUTDOWN then map_option (Pair regs) (power_shutdown hw s)
         else if syscall_num = SYS_REBOOT then map_option (Pair regs) (power_reboot hw null_idt s)
         else Some (set_eax regs (- 1), con_puts (lit ''[SYSCALL] Unknown syscall: '') 0x1C s))"

text \<open>
  \<open>int $0x80\<close> as a process executes it.  The environment holds what the instruction finds: the devices, the stack
  pointer, the registers a wrapper does not load.  The value is what comes back in \<open>eax\<close>.
\<close>

record trap_env =
  te_hw :: hardware
  te_null_idt :: u32
  te_esp :: u32
  te_regs :: registers_t

definition int80 :: "trap_env \<Rightarrow> u32 \<Rightarrow> u32 \<Rightarrow> u32 \<Rightarrow> u32 \<Rightarrow> 'a vfs_sys_scheme \<Rightarrow> (u32 \<times> 'a vfs_sys_scheme) option" where
  "int80 env eax ebx ecx edx s =
     map_option (map_prod rg_eax id)
       (syscall_handler (te_hw env) (te_null_idt env) (te_esp env)
         ((te_regs env)\<lparr>rg_eax := eax, rg_ebx := ebx, rg_ecx := ecx, rg_edx := edx\<rparr>) s)"

text \<open>With one argument, the others are whatever the registers hold.\<close>

definition int80_1 :: "trap_env \<Rightarrow> u32 \<Rightarrow> u32 \<Rightarrow> 'a vfs_sys_scheme \<Rightarrow> (u32 \<times> 'a vfs_sys_scheme) option" where
  "int80_1 env eax ebx s = int80 env eax ebx (rg_ecx (te_regs env)) (rg_edx (te_regs env)) s"

definition sys_read :: "trap_env \<Rightarrow> u32 \<Rightarrow> u32 \<Rightarrow> u32 \<Rightarrow> 'a vfs_sys_scheme \<Rightarrow> (u32 \<times> 'a vfs_sys_scheme) option" where
  "sys_read env fd buf count s = int80 env SYS_READ fd buf count s"

definition sys_yield :: "trap_env \<Rightarrow> 'a vfs_sys_scheme \<Rightarrow> 'a vfs_sys_scheme option" where
  "sys_yield env s = map_option snd (int80_1 env SYS_YIELD (rg_ebx (te_regs env)) s)"

definition sys_exit :: "trap_env \<Rightarrow> u32 \<Rightarrow> 'a vfs_sys_scheme \<Rightarrow> 'a vfs_sys_scheme option" where
  "sys_exit env status s = map_option snd (int80_1 env SYS_EXIT status s)"

definition sys_write :: "trap_env \<Rightarrow> u32 \<Rightarrow> u32 \<Rightarrow> u32 \<Rightarrow> 'a vfs_sys_scheme \<Rightarrow> (u32 \<times> 'a vfs_sys_scheme) option" where
  "sys_write env fd str count s = int80 env SYS_WRITE fd str count s"

definition sys_malloc :: "trap_env \<Rightarrow> u32 \<Rightarrow> 'a vfs_sys_scheme \<Rightarrow> (u32 \<times> 'a vfs_sys_scheme) option" where
  "sys_malloc env nbytes s = int80_1 env SYS_MALLOC nbytes s"

definition sys_getpid :: "trap_env \<Rightarrow> 'a vfs_sys_scheme \<Rightarrow> (u32 \<times> 'a vfs_sys_scheme) option" where
  "sys_getpid env s = int80_1 env SYS_GETPID (rg_ebx (te_regs env)) s"

definition sys_free :: "trap_env \<Rightarrow> u32 \<Rightarrow> 'a vfs_sys_scheme \<Rightarrow> 'a vfs_sys_scheme option" where
  "sys_free env ptr s = map_option snd (int80_1 env SYS_FREE ptr s)"

definition sys_shutdown :: "trap_env \<Rightarrow> 'a vfs_sys_scheme \<Rightarrow> 'a vfs_sys_scheme option" where
  "sys_shutdown env s = map_option snd (int80_1 env SYS_SHUTDOWN (rg_ebx (te_regs env)) s)"

definition sys_reboot :: "trap_env \<Rightarrow> 'a vfs_sys_scheme \<Rightarrow> 'a vfs_sys_scheme option" where
  "sys_reboot env s = map_option snd (int80_1 env SYS_REBOOT (rg_ebx (te_regs env)) s)"

section \<open>Reading a line\<close>

text \<open>The characters one read takes off the queue: up to a line end or the size of the buffer.\<close>

fun line_of :: "nat \<Rightarrow> bytes \<Rightarrow> bytes" where
  "line_of 0 q = []"
| "line_of (Suc n) [] = []"
| "line_of (Suc n) (c # q) = (if c = ch_nl \<or> c = ch_cr then [c] else c # line_of n q)"

lemma line_of_length: "length (line_of n q) \<le> n" "length (line_of n q) \<le> length q"
  by (induction n q rule: line_of.induct) auto

lemma kbd_view_ram [simp]:
  "kbd_inv (s\<lparr>ram := m\<rparr>) = kbd_inv s" "kbd_contents (s\<lparr>ram := m\<rparr>) = kbd_contents s"
  by (simp_all add: kbd_inv_def kbd_contents_def kbd_count_def)

lemma keyboard_getchar_frame: "snd (keyboard_getchar s) = s\<lparr>kbd_tail := kbd_tail (snd (keyboard_getchar s))\<rparr>"
  by (simp add: keyboard_getchar_def)

lemma sys_read_loop_line:
  fixes s :: "'a kbd_sys_scheme"
  assumes "kbd_inv s" and "0 \<notin> set (kbd_contents s)" and "unat n \<le> unat count"
  shows "\<exists>t. sys_read_loop buf count n s =
      (n + of_nat (length (line_of (unat count - unat n) (kbd_contents s))), t) \<and>
    t = s\<lparr>kbd_tail := kbd_tail t, ram := store_bytes (ram s) (buf + n) (line_of (unat count - unat n) (kbd_contents s))\<rparr> \<and>
    kbd_inv t \<and> kbd_contents t = drop (length (line_of (unat count - unat n) (kbd_contents s))) (kbd_contents s)"
  using assms
proof (induction "unat count - unat n" arbitrary: n s)
  case 0
  then have "\<not> n < count" by (simp add: word_less_nat_alt)
  then show ?case using 0 by (intro exI [of _ s]) (simp add: sys_read_loop.simps [of buf count n s])
next
  case (Suc k)
  have lt: "n < count" using Suc.hyps(2) by (simp add: word_less_nat_alt)
  have k: "unat count - unat n = Suc k" using Suc.hyps(2) by simp
  have n1: "unat (n + 1) = unat n + 1" by (rule unat_succ_below [OF lt])
  define u where "u = snd (keyboard_getchar s)"
  have u: "kbd_inv u" "kbd_contents u = tl (kbd_contents s)" "u = s\<lparr>kbd_tail := kbd_tail u\<rparr>"
    using kbd_ring.pop_inv [OF Suc.prems(1)] kbd_ring.contents_pop [OF Suc.prems(1)] keyboard_getchar_frame [of s]
    by (simp_all add: u_def)
  have ramu: "ram u = ram s" by (subst u(3)) simp
  have get: "keyboard_getchar s = (case kbd_contents s of [] \<Rightarrow> 0 | x # _ \<Rightarrow> x, u)"
    using kbd_ring.pop_value [OF Suc.prems(1)] by (simp add: u_def prod_eq_iff)
  show ?case
  proof (cases "kbd_contents s")
    case Nil
    have "u\<lparr>ram := ram s\<rparr> = u" by (simp add: ramu [symmetric])
    then show ?thesis using Nil lt get u k
      by (intro exI [of _ u]) (simp add: sys_read_loop.simps [of buf count n s])
  next
    case (Cons c q)
    have c: "c \<noteq> 0" "0 \<notin> set q" using Suc.prems(2) Cons by auto
    define w where "w = u\<lparr>ram := (ram u)(buf + n := c)\<rparr>"
    have w: "kbd_inv w" "kbd_contents w = q" "w = s\<lparr>kbd_tail := kbd_tail w, ram := (ram s)(buf + n := c)\<rparr>"
      using u Cons by (simp_all add: w_def ramu)
    have step: "sys_read_loop buf count n s =
        (if c = ch_nl \<or> c = ch_cr then (n + 1, w) else sys_read_loop buf count (n + 1) w)"
      using lt get Cons c(1) by (simp add: sys_read_loop.simps [of buf count n s] w_def)
    show ?thesis
    proof (cases "c = ch_nl \<or> c = ch_cr")
      case True
      then show ?thesis using step w Cons k by (intro exI [of _ w]) auto
    next
      case False
      have k1: "k = unat count - unat (n + 1)" using n1 k by simp
      have le: "unat (n + 1) \<le> unat count" using n1 k by simp
      obtain t where t: "sys_read_loop buf count (n + 1) w = (n + 1 + of_nat (length (line_of k q)), t)"
        "t = w\<lparr>kbd_tail := kbd_tail t, ram := store_bytes (ram w) (buf + (n + 1)) (line_of k q)\<rparr>"
        "kbd_inv t" "kbd_contents t = drop (length (line_of k q)) q"
        using Suc.hyps(1) [OF k1 w(1) _ le] c(2) unfolding w(2) k1 [symmetric] by blast
      have ramw: "ram w = (ram s)(buf + n := c)" by (subst w(3)) simp
      have "t = s\<lparr>kbd_tail := kbd_tail t, ram := store_bytes (ram s) (buf + n) (c # line_of k q)\<rparr>"
        using t(2) by (subst (asm) w(3)) (simp add: ramw add.assoc)
      then show ?thesis using step t False Cons k by (intro exI [of _ t]) (simp add: algebra_simps)
    qed
  qed
qed

section \<open>Strings in memory\<close>

lemma is_cstring_Nil [simp]: "is_cstring m a [] \<longleftrightarrow> m a = 0"
  by (simp add: is_cstring_def load_bytes_def)

lemma is_cstring_Cons [simp]: "is_cstring m a (c # cs) \<longleftrightarrow> m a = c \<and> c \<noteq> 0 \<and> is_cstring m (a + 1) cs"
proof -
  have "m (a + (1 + of_nat i)) = m (a + 1 + of_nat i)" for i by (simp add: add.assoc)
  then show ?thesis
    by (auto simp add: is_cstring_def load_bytes_def map_upt_Suc add.assoc simp del: upt_Suc)
qed

lemma read_cstr_ok: "is_cstring m a cs \<Longrightarrow> read_cstr m a = Some cs"
  by (induction cs arbitrary: a) (simp_all add: read_cstr.simps [of m])

section \<open>Properties\<close>

definition demo_regs :: registers_t where
  "demo_regs = \<lparr>rg_ds = 0x23, rg_edi = 1, rg_esi = 2, rg_ebp = 3, rg_esp_dummy = 0, rg_ebx = 0, rg_edx = 0, rg_ecx = 0,
     rg_eax = 0, rg_int_no = 0x80, rg_err_code = 0, rg_eip = 0x100000, rg_cs = 0x1B, rg_eflags = 0x202\<rparr>"

definition demo_env :: trap_env where
  "demo_env = \<lparr>te_hw = demo_hw demo_disk, te_null_idt = 0x9000, te_esp = 0x8000, te_regs = demo_regs\<rparr>"

definition demo_typed :: vfs_sys where
  "demo_typed = fold kbd_push [0x6C, 0x73, ch_nl, 0x78] demo_vfs"

lemma demo_typed_kbd: "kbd_inv demo_typed" "kbd_contents demo_typed = [0x6C, 0x73, ch_nl, 0x78]"
proof -
  have "kbd_inv demo_vfs" "kbd_contents demo_vfs = []" by code_simp+
  then show "kbd_inv demo_typed" "kbd_contents demo_typed = [0x6C, 0x73, ch_nl, 0x78]"
    using kbd_ring.pushes_contents [of demo_vfs "[0x6C, 0x73, ch_nl, 0x78]"] unfolding demo_typed_def by simp_all
qed

text \<open>C34. Reading from standard input delivers a line: the call stores into the buffer the characters waiting in the
  keyboard queue up to and including a line end, at most as many as the buffer holds, takes exactly those off the queue and
  returns their number; memory outside the buffer is untouched.\<close>

theorem syscall_read_line:
  assumes "kbd_inv s" and "0 \<notin> set (kbd_contents s)"
    and "rg_eax regs = SYS_READ" and "rg_ebx regs = 0" and "rg_ecx regs \<noteq> 0" and "rg_edx regs \<noteq> 0"
  shows "\<exists>t. syscall_handler hw null_idt esp regs s =
      Some (regs\<lparr>rg_eax := of_nat (length (line_of (unat (rg_edx regs)) (kbd_contents s)))\<rparr>, t) \<and>
    ram t = store_bytes (ram s) (rg_ecx regs) (line_of (unat (rg_edx regs)) (kbd_contents s)) \<and>
    kbd_contents t = drop (length (line_of (unat (rg_edx regs)) (kbd_contents s))) (kbd_contents s)"
proof -
  define l where "l = line_of (unat (rg_edx regs)) (kbd_contents s)"
  obtain t where t: "sys_read_loop (rg_ecx regs) (rg_edx regs) 0 s = (of_nat (length l), t)"
    "t = s\<lparr>kbd_tail := kbd_tail t, ram := store_bytes (ram s) (rg_ecx regs) l\<rparr>"
    "kbd_contents t = drop (length l) (kbd_contents s)"
    using sys_read_loop_line [OF assms(1,2), of 0 "rg_edx regs" "rg_ecx regs"] by (auto simp add: l_def)
  have "ram t = store_bytes (ram s) (rg_ecx regs) l" by (subst t(2)) simp
  moreover have "syscall_handler hw null_idt esp regs s = Some (regs\<lparr>rg_eax := of_nat (length l)\<rparr>, t)"
    using assms(3-6) t(1) by (simp add: syscall_handler_def sys_read_call_def word_neq_0_conv)
  ultimately show ?thesis using t(3) unfolding l_def [symmetric] by blast
qed

lemma demo_typed_line: "line_of 64 (kbd_contents demo_typed) = [0x6C, 0x73, ch_nl]" "0 \<notin> set (kbd_contents demo_typed)"
  unfolding demo_typed_kbd(2) by code_simp+

lemma demo_read_regs:
  defines "r \<equiv> demo_regs\<lparr>rg_eax := SYS_READ, rg_ecx := 0x5000, rg_edx := 64\<rparr>"
  shows "rg_eax r = SYS_READ" "rg_ebx r = 0" "rg_ecx r \<noteq> 0" "rg_edx r \<noteq> 0" "unat (rg_edx r) = 64"
  unfolding r_def by code_simp+

theorem syscall_read_line_witness:
  "\<exists>t. syscall_handler (demo_hw demo_disk) 0 0 (demo_regs\<lparr>rg_eax := SYS_READ, rg_ecx := 0x5000, rg_edx := 64\<rparr>) demo_typed =
      Some (demo_regs\<lparr>rg_eax := 3, rg_ecx := 0x5000, rg_edx := 64\<rparr>, t) \<and> kbd_contents t = [0x78]"
  using syscall_read_line [OF demo_typed_kbd(1) demo_typed_line(2) demo_read_regs(1-4), of "demo_hw demo_disk" 0 0]
  unfolding demo_read_regs(5) demo_typed_line(1) by (auto simp add: demo_typed_kbd(2))

lemma pred_option_if:
  "(c \<Longrightarrow> pred_option P x) \<Longrightarrow> (\<not> c \<Longrightarrow> pred_option P y) \<Longrightarrow> pred_option P (if c then x else y)"
  by simp

lemma syscall_handler_regs:
  "pred_option (\<lambda>r. (fst r)\<lparr>rg_eax := rg_eax regs\<rparr> = regs) (syscall_handler hw null_idt esp regs s)"
  unfolding syscall_handler_def Let_def
  by (intro pred_option_if; cases regs) (auto simp add: pred_option_def option.set_map)

text \<open>A system call disturbs no register of its caller but \<open>eax\<close>, and a call number the kernel does not know gives -1
  and changes nothing but the screen.\<close>

theorem syscall_saves_registers:
  "(syscall_handler hw null_idt esp regs s = Some (regs', t) \<longrightarrow> regs'\<lparr>rg_eax := rg_eax regs\<rparr> = regs) \<and>
   (rg_eax regs > SYS_REBOOT \<longrightarrow>
     (\<exists>v. syscall_handler hw null_idt esp regs s = Some (regs\<lparr>rg_eax := - 1\<rparr>, s\<lparr>vga := v\<rparr>)))"
proof (intro conjI impI)
  assume "syscall_handler hw null_idt esp regs s = Some (regs', t)"
  then show "regs'\<lparr>rg_eax := rg_eax regs\<rparr> = regs" using syscall_handler_regs [of regs hw null_idt esp s] by simp
next
  assume big: "rg_eax regs > SYS_REBOOT"
  then have "rg_eax regs \<noteq> n" if "n \<le> SYS_REBOOT" for n using that by auto
  then show "\<exists>v. syscall_handler hw null_idt esp regs s = Some (regs\<lparr>rg_eax := - 1\<rparr>, s\<lparr>vga := v\<rparr>)"
    by (auto simp add: syscall_handler_def con_puts_def)
qed

theorem syscall_saves_registers_witness:
  "\<exists>v. syscall_handler (demo_hw demo_disk) 0 0 (demo_regs\<lparr>rg_eax := 99\<rparr>) demo_vfs =
     Some (demo_regs\<lparr>rg_eax := - 1\<rparr>, demo_vfs\<lparr>vga := v\<rparr>)"
  using syscall_saves_registers [of "demo_hw demo_disk" 0 0 "demo_regs\<lparr>rg_eax := 99\<rparr>" demo_vfs demo_regs demo_vfs] by simp

end
