(* ===== verification/Libc.thy ===== *)
theory Libc
  imports Syscall
begin

text \<open>
  The C library of user programs, \<^verbatim>\<open>src/user/libc.c\<close>.

  Strings and buffers are addresses in the byte memory.  A scan for a terminating NUL is a partial function: in a memory
  without NUL it does not end.  \<open>char\<close> is a signed type, so that characters are compared by \<open>sint\<close>; a C \<open>int\<close> that only
  counts is an \<open>int\<close> of the logic, one that takes part in arithmetic is a 32-bit word whose signed value is \<open>sint\<close>
  (signed overflow, which C leaves undefined, wraps as the machine instruction does).

  The addresses that the compiler chooses for locals and literals are fields of the record \<open>user_env\<close>.  What happens
  between two polls of a waiting loop, the interrupts and the other processes, is a parameter \<open>world\<close> of that loop.
\<close>

section \<open>System call wrappers\<close>

record user_env = trap_env +
  ue_c :: u32
  ue_buf :: u32
  ue_erase :: u32
  ue_null_text :: u32
  ue_percent :: u32

definition syscall1 :: "'e trap_env_scheme \<Rightarrow> u32 \<Rightarrow> u32 \<Rightarrow> 'a vfs_sys_scheme \<Rightarrow> (u32 \<times> 'a vfs_sys_scheme) option" where
  "syscall1 env num arg1 s = int80_1 (trap_env.truncate env) num arg1 s"

definition syscall3 ::
    "'e trap_env_scheme \<Rightarrow> u32 \<Rightarrow> u32 \<Rightarrow> u32 \<Rightarrow> u32 \<Rightarrow> 'a vfs_sys_scheme \<Rightarrow> (u32 \<times> 'a vfs_sys_scheme) option" where
  "syscall3 env num arg1 arg2 arg3 s = int80 (trap_env.truncate env) num arg1 arg2 arg3 s"

definition libc_getpid :: "'e trap_env_scheme \<Rightarrow> 'a vfs_sys_scheme \<Rightarrow> (u32 \<times> 'a vfs_sys_scheme) option" where
  "libc_getpid env s = syscall1 env 1 0 s"

definition libc_yield :: "'e trap_env_scheme \<Rightarrow> 'a vfs_sys_scheme \<Rightarrow> 'a vfs_sys_scheme option" where
  "libc_yield env s = map_option snd (syscall1 env 2 0 s)"

text \<open>The state in which \<open>exit\<close> starts its endless loop.\<close>

definition libc_exit :: "'e trap_env_scheme \<Rightarrow> u32 \<Rightarrow> 'a vfs_sys_scheme \<Rightarrow> 'a vfs_sys_scheme option" where
  "libc_exit env status s = map_option snd (syscall1 env 3 status s)"

definition libc_malloc :: "'e trap_env_scheme \<Rightarrow> u32 \<Rightarrow> 'a vfs_sys_scheme \<Rightarrow> (u32 \<times> 'a vfs_sys_scheme) option" where
  "libc_malloc env nbytes s = syscall1 env 4 nbytes s"

definition libc_free :: "u32 \<Rightarrow> 'a vfs_sys_scheme \<Rightarrow> 'a vfs_sys_scheme" where
  "libc_free ptr s = s"

definition libc_sys_read ::
    "'e trap_env_scheme \<Rightarrow> u32 \<Rightarrow> u32 \<Rightarrow> u32 \<Rightarrow> 'a vfs_sys_scheme \<Rightarrow> (u32 \<times> 'a vfs_sys_scheme) option" where
  "libc_sys_read env fd buf count s = syscall3 env 5 fd buf count s"

definition libc_sys_write ::
    "'e trap_env_scheme \<Rightarrow> u32 \<Rightarrow> u32 \<Rightarrow> u32 \<Rightarrow> 'a vfs_sys_scheme \<Rightarrow> (u32 \<times> 'a vfs_sys_scheme) option" where
  "libc_sys_write env fd buf count s = syscall3 env 6 fd buf count s"

section \<open>Strings and memory\<close>

type_synonym mem = "u32 \<Rightarrow> u8"

partial_function (option) strlen_loop :: "mem \<Rightarrow> u32 \<Rightarrow> u32 \<Rightarrow> u32 option" where
  "strlen_loop m str len = (if m (str + len) \<noteq> 0 then strlen_loop m str (len + 1) else Some len)"

definition strlen :: "u32 \<Rightarrow> mem \<Rightarrow> u32 option" where
  "strlen str m = strlen_loop m str 0"

partial_function (option) strcpy_loop :: "u32 \<Rightarrow> u32 \<Rightarrow> u32 \<Rightarrow> mem \<Rightarrow> mem option" where
  "strcpy_loop dest src i m =
     (if m (src + i) \<noteq> 0
      then strcpy_loop dest src (i + 1) (m(dest + i := m (src + i)))
      else Some (m(dest + i := 0)))"

definition strcpy :: "u32 \<Rightarrow> u32 \<Rightarrow> mem \<Rightarrow> (u32 \<times> mem) option" where
  "strcpy dest src m = map_option (Pair dest) (strcpy_loop dest src 0 m)"

partial_function (option) strcmp_loop :: "mem \<Rightarrow> u32 \<Rightarrow> u32 \<Rightarrow> u32 \<Rightarrow> int option" where
  "strcmp_loop m s1 s2 i =
     (if m (s1 + i) \<noteq> 0 \<and> m (s2 + i) \<noteq> 0
      then if m (s1 + i) \<noteq> m (s2 + i)
           then Some (if sint (m (s1 + i)) < sint (m (s2 + i)) then - 1 else 1)
           else strcmp_loop m s1 s2 (i + 1)
      else if m (s1 + i) = m (s2 + i) then Some 0
      else Some (if sint (m (s1 + i)) < sint (m (s2 + i)) then - 1 else 1))"

definition strcmp :: "u32 \<Rightarrow> u32 \<Rightarrow> mem \<Rightarrow> int option" where
  "strcmp s1 s2 m = strcmp_loop m s1 s2 0"

text \<open>The loop of \<open>strcat\<close> is that of \<open>strcpy\<close> with the destination moved by \<open>dlen\<close>.\<close>

definition strcat :: "u32 \<Rightarrow> u32 \<Rightarrow> mem \<Rightarrow> (u32 \<times> mem) option" where
  "strcat dest src m = do {
     dlen \<leftarrow> strlen dest m;
     m \<leftarrow> strcpy_loop (dest + dlen) src 0 m;
     Some (dest, m)
   }"

partial_function (option) atoi_skip :: "mem \<Rightarrow> u32 \<Rightarrow> u32 \<Rightarrow> u32 option" where
  "atoi_skip m str i = (if m (str + i) = ch_sp then atoi_skip m str (i + 1) else Some i)"

abbreviation is_digit_char :: "u8 \<Rightarrow> bool" where
  "is_digit_char c \<equiv> sint c \<ge> 0x30 \<and> sint c \<le> 0x39"

partial_function (option) atoi_digits :: "mem \<Rightarrow> u32 \<Rightarrow> u32 \<Rightarrow> u32 \<Rightarrow> u32 option" where
  "atoi_digits m str i res =
     (if is_digit_char (m (str + i))
      then atoi_digits m str (i + 1) (res * 10 + (scast (m (str + i)) - 0x30))
      else Some res)"

definition atoi :: "u32 \<Rightarrow> mem \<Rightarrow> u32 option" where
  "atoi str m = do {
     i \<leftarrow> atoi_skip m str 0;
     let (sign, i) = (if m (str + i) = 0x2D then (- 1, i + 1)
                      else if m (str + i) = 0x2B then (1, i + 1)
                      else (1, i));
     res \<leftarrow> atoi_digits m str i 0;
     Some (res * sign)
   }"

definition itoa_char :: "u32 \<Rightarrow> u8" where
  "itoa_char rem = ucast (if rem > 9 then rem - 10 + 0x61 else rem + 0x30)"

partial_function (option) itoa_digits :: "u32 \<Rightarrow> u32 \<Rightarrow> u32 \<Rightarrow> int \<Rightarrow> mem \<Rightarrow> (int \<times> mem) option" where
  "itoa_digits base str num i m =
     (if num \<noteq> 0
      then itoa_digits base str (num div base) (i + 1) (m(str + of_int i := itoa_char (num mod base)))
      else Some (i, m))"

function reverse_loop :: "u32 \<Rightarrow> int \<Rightarrow> int \<Rightarrow> mem \<Rightarrow> mem" where
  "reverse_loop str start end' m =
     (if start < end'
      then
        (let temp = m (str + of_int start);
             m = m(str + of_int start := m (str + of_int end'));
             m = m(str + of_int end' := temp)
         in reverse_loop str (start + 1) (end' - 1) m)
      else m)"
  by pat_completeness auto
termination by (relation "measure (\<lambda>(str, start, end', m). nat (end' - start))") auto

declare reverse_loop.simps [simp del]

definition itoa :: "u32 \<Rightarrow> u32 \<Rightarrow> u32 \<Rightarrow> mem \<Rightarrow> (u32 \<times> mem) option" where
  "itoa value str base m =
     (if sint base < 2 \<or> sint base > 36 then Some (str, m(str := 0))
      else
        (let is_neg = (sint value < 0 \<and> base = 10);
             num = (if is_neg then - value else value)
         in if num = 0 then Some (str, m(str := 0x30, str + 1 := 0))
            else do {
              (i, m) \<leftarrow> itoa_digits base str num 0 m;
              let (i, m) = (if is_neg then (i + 1, m(str + of_int i := 0x2D)) else (i, m));
              let m = m(str + of_int i := 0);
              Some (str, reverse_loop str 0 (i - 1) m)
            }))"

definition memset :: "u32 \<Rightarrow> u32 \<Rightarrow> u32 \<Rightarrow> mem \<Rightarrow> u32 \<times> mem" where
  "memset ptr value num m = (ptr, fold (\<lambda>i m. m(ptr + of_nat i := ucast value)) [0..<unat num] m)"

definition memcpy :: "u32 \<Rightarrow> u32 \<Rightarrow> u32 \<Rightarrow> mem \<Rightarrow> u32 \<times> mem" where
  "memcpy destination source num m =
     (destination, fold (\<lambda>i m. m(destination + of_nat i := m (source + of_nat i))) [0..<unat num] m)"

declare strlen_loop.simps [code] strcpy_loop.simps [code] strcmp_loop.simps [code]
  atoi_skip.simps [code] atoi_digits.simps [code] itoa_digits.simps [code]

section \<open>Input and output\<close>

definition libc_putchar :: "user_env \<Rightarrow> u8 \<Rightarrow> 'a vfs_sys_scheme \<Rightarrow> (u32 \<times> 'a vfs_sys_scheme) option" where
  "libc_putchar env c s = libc_sys_write env 1 (ue_c env) 1 (s\<lparr>ram := (ram s)(ue_c env := c)\<rparr>)"

definition libc_puts :: "user_env \<Rightarrow> u32 \<Rightarrow> 'a vfs_sys_scheme \<Rightarrow> (u32 \<times> 'a vfs_sys_scheme) option" where
  "libc_puts env str s = do {
     n \<leftarrow> strlen str (ram s);
     (len, s) \<leftarrow> libc_sys_write env 1 str n s;
     (_, s) \<leftarrow> libc_putchar env ch_nl s;
     Some (len + 1, s)
   }"

partial_function (option) getchar_loop ::
    "('a vfs_sys_scheme \<Rightarrow> 'a vfs_sys_scheme) \<Rightarrow> user_env \<Rightarrow> 'a vfs_sys_scheme \<Rightarrow> 'a vfs_sys_scheme option" where
  "getchar_loop world env s = do {
     (n, s) \<leftarrow> libc_sys_read env 0 (ue_c env) 1 s;
     if sint n \<le> 0 then do { s \<leftarrow> libc_yield env s; getchar_loop world env (world s) } else Some s
   }"

definition libc_getchar ::
    "('a vfs_sys_scheme \<Rightarrow> 'a vfs_sys_scheme) \<Rightarrow> user_env \<Rightarrow> 'a vfs_sys_scheme \<Rightarrow> (u8 \<times> 'a vfs_sys_scheme) option" where
  "libc_getchar world env s = do {
     s \<leftarrow> getchar_loop world env (s\<lparr>ram := (ram s)(ue_c env := 0)\<rparr>);
     Some (ram s (ue_c env), s)
   }"

partial_function (option) readline_loop ::
    "('a vfs_sys_scheme \<Rightarrow> 'a vfs_sys_scheme) \<Rightarrow> user_env \<Rightarrow> u32 \<Rightarrow> int \<Rightarrow> int \<Rightarrow> 'a vfs_sys_scheme \<Rightarrow>
      (int \<times> 'a vfs_sys_scheme) option" where
  "readline_loop world env buffer max_len idx s =
     (if idx < max_len - 1
      then do {
        (c, s) \<leftarrow> libc_getchar world env s;
        if c = ch_cr \<or> c = ch_nl then do { (_, s) \<leftarrow> libc_putchar env ch_nl s; Some (idx, s) }
        else if c = ch_bs
        then if idx > 0
             then do {
               (_, s) \<leftarrow> libc_sys_write env 1 (ue_erase env) 3 s;
               readline_loop world env buffer max_len (idx - 1) s
             }
             else readline_loop world env buffer max_len idx s
        else do {
          (_, s) \<leftarrow> libc_putchar env c (s\<lparr>ram := (ram s)(buffer + of_int idx := c)\<rparr>);
          readline_loop world env buffer max_len (idx + 1) s
        }
      }
      else Some (idx, s))"

definition libc_readline ::
    "('a vfs_sys_scheme \<Rightarrow> 'a vfs_sys_scheme) \<Rightarrow> user_env \<Rightarrow> u32 \<Rightarrow> int \<Rightarrow> 'a vfs_sys_scheme \<Rightarrow>
      (int \<times> 'a vfs_sys_scheme) option" where
  "libc_readline world env buffer max_len s = do {
     (idx, s) \<leftarrow> readline_loop world env buffer max_len 0 s;
     Some (idx, s\<lparr>ram := (ram s)(buffer + of_int idx := 0)\<rparr>)
   }"

text \<open>\<open>args\<close> is the sequence of words that \<open>va_arg\<close> finds on the stack, \<open>n\<close> the number of them taken so far.\<close>

definition print_text :: "user_env \<Rightarrow> u32 \<Rightarrow> 'a vfs_sys_scheme \<Rightarrow> (u32 \<times> 'a vfs_sys_scheme) option" where
  "print_text env str s = do { len \<leftarrow> strlen str (ram s); libc_sys_write env 1 str len s }"

definition print_int :: "user_env \<Rightarrow> u32 \<Rightarrow> u32 \<Rightarrow> 'a vfs_sys_scheme \<Rightarrow> (u32 \<times> 'a vfs_sys_scheme) option" where
  "print_int env val base s = do {
     (_, m) \<leftarrow> itoa val (ue_buf env) base (ram s);
     print_text env (ue_buf env) (s\<lparr>ram := m\<rparr>)
   }"

definition print_arg ::
    "user_env \<Rightarrow> u8 \<Rightarrow> (nat \<Rightarrow> u32) \<Rightarrow> nat \<Rightarrow> 'a vfs_sys_scheme \<Rightarrow> (u32 \<times> nat \<times> 'a vfs_sys_scheme) option" where
  "print_arg env f args n s =
     (if f = 0x73 then map_option (\<lambda>(r, s). (r, n + 1, s)) (print_text env (if args n = 0 then ue_null_text env else args n) s)
      else if f = 0x64 then map_option (\<lambda>(r, s). (r, n + 1, s)) (print_int env (args n) 10 s)
      else if f = 0x78 then map_option (\<lambda>(r, s). (r, n + 1, s)) (print_int env (args n) 16 s)
      else if f = 0x63 then map_option (\<lambda>(r, s). (r, n + 1, s)) (libc_putchar env (ucast (args n)) s)
      else if f = 0x25 then map_option (\<lambda>(r, s). (r, n, s)) (libc_sys_write env 1 (ue_percent env) 1 s)
      else Some (0, n, s))"

partial_function (option) printf_loop ::
    "user_env \<Rightarrow> u32 \<Rightarrow> (nat \<Rightarrow> u32) \<Rightarrow> u32 \<Rightarrow> nat \<Rightarrow> u32 \<Rightarrow> 'a vfs_sys_scheme \<Rightarrow> (u32 \<times> 'a vfs_sys_scheme) option" where
  "printf_loop env format args i n count s =
     (if ram s (format + i) = 0 then Some (count, s)
      else if ram s (format + i) = 0x25
      then do {
        (r, n, s) \<leftarrow> print_arg env (ram s (format + (i + 1))) args n s;
        printf_loop env format args (i + 2) n (count + r) s
      }
      else do {
        (r, s) \<leftarrow> libc_sys_write env 1 (format + i) 1 s;
        printf_loop env format args (i + 1) n (count + r) s
      })"

definition libc_printf ::
    "user_env \<Rightarrow> u32 \<Rightarrow> (nat \<Rightarrow> u32) \<Rightarrow> 'a vfs_sys_scheme \<Rightarrow> (u32 \<times> 'a vfs_sys_scheme) option" where
  "libc_printf env format args s = printf_loop env format args 0 0 0 s"

declare getchar_loop.simps [code] readline_loop.simps [code] printf_loop.simps [code]

text \<open>\<open>sleep\<close> burns time: the number of times its loop executes \<open>pause\<close>.\<close>

definition sleep_spins :: "u32 \<Rightarrow> u32" where
  "sleep_spins ms =
     (let ticks = ms div 10; ticks = (if ticks = 0 then 1 else ticks) in ticks * 500000)"

end
