(* ===== verification/Libc_Props.thy ===== *)
theory Libc_Props
  imports Libc
begin

text \<open>
  What the C library computes: byte ranges and strings in memory, the string functions against list operations, and the
  conversions between numbers and text.
\<close>

section \<open>Byte ranges\<close>

lemma store_bytes_at:
  "length bs \<le> 2 ^ 32 \<Longrightarrow>
    store_bytes m a bs x = (if unat (x - a) < length bs then bs ! unat (x - a) else m x)"
proof (induction bs arbitrary: m a)
  case Nil
  then show ?case by simp
next
  case (Cons b bs)
  have IH: "store_bytes (m(a := b)) (a + 1) bs x =
      (if unat (x - (a + 1)) < length bs then bs ! unat (x - (a + 1)) else (m(a := b)) x)"
    using Cons by simp
  show ?case
  proof (cases "x = a")
    case True
    then have "unat (x - (a + 1)) = 2 ^ 32 - 1" by (simp add: unsigned_minus_1_eq_mask mask_eq_exp_minus_1)
    then show ?thesis using IH Cons.prems True by simp
  next
    case False
    then have "x - a \<noteq> 0" by simp
    then have "unat (x - (a + 1)) = unat (x - a) - 1" and "0 < unat (x - a)"
      using unat_minus_one_nz [of "x - a"] by (simp_all add: diff_diff_eq unat_gt_0)
    then show ?thesis using IH False by (auto simp add: nth_Cons')
  qed
qed

lemma store_bytes_append:
  "store_bytes m a (xs @ ys) = store_bytes (store_bytes m a xs) (a + of_nat (length xs)) ys"
  by (induction xs arbitrary: m a) (simp_all add: algebra_simps)

text \<open>Two ranges without a common address.\<close>

definition apart :: "u32 \<Rightarrow> nat \<Rightarrow> u32 \<Rightarrow> nat \<Rightarrow> bool" where
  "apart a n b k \<longleftrightarrow> (\<forall>i < n. \<forall>j < k. a + of_nat i \<noteq> b + of_nat j)"

lemma apart_tail: "apart a (Suc n) b (Suc k) \<Longrightarrow> apart (a + 1) n (b + 1) k"
proof -
  assume "apart a (Suc n) b (Suc k)"
  then have "a + of_nat (Suc i) \<noteq> b + of_nat (Suc j)" if "i < n" "j < k" for i j using that unfolding apart_def by blast
  then show ?thesis unfolding apart_def by (simp add: algebra_simps)
qed

lemma apart_head: "apart a n b (Suc k) \<Longrightarrow> i < n \<Longrightarrow> a + of_nat i \<noteq> b"
  unfolding apart_def by (drule spec [of _ i], drule mp, assumption, drule spec [of _ 0]) simp

lemma apart_outside:
  assumes "apart a n b k" and "i < n" and "k \<le> 2 ^ 32"
  shows "k \<le> unat (a + of_nat i - b)"
proof (rule ccontr)
  assume "\<not> k \<le> unat (a + of_nat i - b)"
  moreover have "a + of_nat i = b + of_nat (unat (a + of_nat i - b))" by simp
  ultimately show False using assms(1,2) unfolding apart_def by (metis not_le)
qed

lemma unat_offset:
  assumes "unat a + n \<le> 2 ^ 32" and "i < n"
  shows "unat ((a :: u32) + of_nat i) = unat a + i"
proof -
  have "unat (of_nat i :: u32) = i" using assms by (simp add: unat_of_nat take_bit_nat_eq_self)
  then show ?thesis using assms by (simp add: unat_add_no_wrap)
qed

lemma apart_ranges:
  assumes "unat a + n \<le> unat b \<or> unat b + k \<le> unat a" and "unat a + n \<le> 2 ^ 32" and "unat b + k \<le> 2 ^ 32"
  shows "apart a n b k"
  unfolding apart_def
proof (intro allI impI)
  fix i j assume "i < n" "j < k"
  then have "unat (a + of_nat i) \<noteq> unat (b + of_nat j)"
    using assms by (auto simp add: unat_offset [OF assms(2)] unat_offset [OF assms(3)])
  then show "a + of_nat i \<noteq> b + of_nat j" by auto
qed

section \<open>Strings in memory\<close>

lemma is_cstring_agree:
  "(\<And>i. i \<le> length cs \<Longrightarrow> m' (a + of_nat i) = m (a + of_nat i)) \<Longrightarrow> is_cstring m' a cs = is_cstring m a cs"
proof -
  assume eq: "\<And>i. i \<le> length cs \<Longrightarrow> m' (a + of_nat i) = m (a + of_nat i)"
  then have "load_bytes m' a (length cs) = load_bytes m a (length cs)" by (simp add: load_bytes_def)
  then show ?thesis using eq [of "length cs"] by (simp add: is_cstring_def)
qed

lemma is_cstring_store:
  assumes "0 \<notin> set cs" and "length cs < 2 ^ 32"
  shows "is_cstring (store_bytes m a (cs @ [0])) a cs"
proof -
  have at: "store_bytes m a (cs @ [0]) (a + of_nat i) = (cs @ [0]) ! i" if "i \<le> length cs" for i
  proof -
    have "unat (of_nat i :: u32) = i" using that assms(2) by (simp add: unat_of_nat take_bit_nat_eq_self)
    then show ?thesis using that assms(2) store_bytes_at [of "cs @ [0]" m a "a + of_nat i"] by simp
  qed
  have "load_bytes (store_bytes m a (cs @ [0])) a (length cs) = cs"
    unfolding load_bytes_def by (rule nth_equalityI) (simp_all add: at nth_append)
  then show ?thesis using assms(1) at [of "length cs"] by (simp add: is_cstring_def nth_append)
qed

lemma is_cstring_outside_store:
  assumes "is_cstring m a cs" and "apart a (Suc (length cs)) b (length bs)" and "length bs \<le> 2 ^ 32"
  shows "is_cstring (store_bytes m b bs) a cs"
proof -
  have "store_bytes m b bs (a + of_nat i) = m (a + of_nat i)" if "i \<le> length cs" for i
  proof -
    have "length bs \<le> unat (a + of_nat i - b)" using that by (intro apart_outside [OF assms(2) _ assms(3)]) simp
    then show ?thesis using store_bytes_at [OF assms(3), of m b "a + of_nat i"] by simp
  qed
  then show ?thesis using is_cstring_agree assms(1) by blast
qed

section \<open>The string functions\<close>

lemma strlen_loop_ok: "is_cstring m (a + n) cs \<Longrightarrow> strlen_loop m a n = Some (n + of_nat (length cs))"
  by (induction cs arbitrary: n) (subst strlen_loop.simps, simp add: algebra_simps)+

lemma strlen_ok: "is_cstring m a cs \<Longrightarrow> strlen a m = Some (of_nat (length cs))"
  unfolding strlen_def using strlen_loop_ok [of m a 0 cs] by simp

lemma strcpy_loop_ok:
  assumes "is_cstring m (src + i) cs" and "apart (src + i) (Suc (length cs)) (dest + i) (Suc (length cs))"
  shows "strcpy_loop dest src i m = Some (store_bytes m (dest + i) (cs @ [0]))"
  using assms
proof (induction cs arbitrary: i m)
  case Nil
  then show ?case by (subst strcpy_loop.simps) (simp add: fun_upd_def)
next
  case (Cons c cs)
  let ?m = "m(dest + i := c)"
  have next': "apart (src + (i + 1)) (Suc (length cs)) (dest + (i + 1)) (Suc (length cs))"
    using apart_tail [OF Cons.prems(2) [simplified]] by (simp add: algebra_simps)
  have "src + i + 1 + of_nat k \<noteq> dest + i" if "k \<le> length cs" for k
    using apart_head [OF Cons.prems(2) [simplified], of "Suc k"] that by (simp add: algebra_simps)
  then have "is_cstring ?m (src + i + 1) cs = is_cstring m (src + i + 1) cs"
    by (intro is_cstring_agree) simp
  then have "is_cstring ?m (src + (i + 1)) cs" using Cons.prems(1) by (simp add: add.assoc)
  from Cons.IH [OF this next'] show ?case using Cons.prems(1)
    by (subst strcpy_loop.simps) (simp add: add.assoc fun_upd_def)
qed

lemma strcpy_ok:
  assumes "is_cstring m src cs" and "apart src (Suc (length cs)) dest (Suc (length cs))"
  shows "strcpy dest src m = Some (dest, store_bytes m dest (cs @ [0]))"
  unfolding strcpy_def using strcpy_loop_ok [of m src 0 cs dest] assms by simp

lemma strcat_ok:
  assumes "is_cstring m dest xs" and "is_cstring m src ys"
    and "apart src (Suc (length ys)) (dest + of_nat (length xs)) (Suc (length ys))"
  shows "strcat dest src m = Some (dest, store_bytes m (dest + of_nat (length xs)) (ys @ [0]))"
  unfolding strcat_def
  using strlen_ok [OF assms(1)] strcpy_loop_ok [of m src 0 ys "dest + of_nat (length xs)"] assms(2,3) by simp

text \<open>The order of the signed characters, the terminating NUL included.\<close>

abbreviation char_less :: "(u8 \<times> u8) set" where
  "char_less \<equiv> {(x, y). sint x < sint y}"

lemma strcmp_loop_ok:
  assumes "is_cstring m (a + i) xs" and "is_cstring m (b + i) ys"
  shows "strcmp_loop m a b i =
    Some (if xs = ys then 0 else if (xs @ [0], ys @ [0]) \<in> lexord char_less then - 1 else 1)"
  using assms
proof (induction xs arbitrary: i ys)
  case Nil
  then show ?case by (subst strcmp_loop.simps) (cases ys; simp)
next
  case (Cons x xs)
  show ?case
  proof (cases ys)
    case Nil
    then show ?thesis using Cons.prems by (subst strcmp_loop.simps) simp
  next
    case (Cons y zs)
    have "is_cstring m (a + (i + 1)) xs" "is_cstring m (b + (i + 1)) zs"
      using Cons.prems Cons by (simp_all add: add.assoc)
    from Cons.IH [OF this] show ?thesis using Cons.prems Cons by (subst strcmp_loop.simps) simp
  qed
qed

section \<open>Numbers as text\<close>

text \<open>The digits of a number to a base, the last one first.\<close>

fun digits_of :: "nat \<Rightarrow> nat \<Rightarrow> nat list" where
  "digits_of b n = (if n = 0 \<or> b < 2 then [] else n mod b # digits_of b (n div b))"

declare digits_of.simps [simp del]

lemma digits_of_0 [simp]: "digits_of b 0 = []"
  by (simp add: digits_of.simps)

lemma digits_of_step: "0 < n \<Longrightarrow> 2 \<le> b \<Longrightarrow> digits_of b n = n mod b # digits_of b (n div b)"
  by (subst digits_of.simps) simp

lemma digits_of_less: "d \<in> set (digits_of b n) \<Longrightarrow> d < b"
proof (induction b n rule: digits_of.induct)
  case (1 b n)
  then show ?case by (cases "n = 0 \<or> b < 2") (auto simp add: digits_of.simps [of b n])
qed

lemma digits_of_length: "2 \<le> b \<Longrightarrow> n < b ^ k \<Longrightarrow> length (digits_of b n) \<le> k"
proof (induction k arbitrary: n)
  case (Suc k)
  then have "n div b < b ^ k" by (simp add: less_mult_imp_div_less mult.commute)
  then show ?case using Suc by (cases "n = 0") (auto simp add: digits_of_step)
qed simp

lemma digits_of_value: "2 \<le> b \<Longrightarrow> foldr (\<lambda>d r. r * b + d) (digits_of b n) 0 = n"
proof (induction b n rule: digits_of.induct)
  case (1 b n)
  then show ?case by (cases "n = 0") (simp_all add: digits_of_step)
qed

abbreviation digit_chars :: "nat \<Rightarrow> nat \<Rightarrow> bytes" where
  "digit_chars b n \<equiv> map (\<lambda>d. itoa_char (of_nat d)) (digits_of b n)"

lemma itoa_digits_ok:
  assumes "2 \<le> unat base" and "0 \<le> i"
  shows "itoa_digits base str num i m =
    Some (i + int (length (digits_of (unat base) (unat num))),
      store_bytes m (str + of_int i) (digit_chars (unat base) (unat num)))"
  using assms(2)
proof (induction "unat num" arbitrary: num i m rule: less_induct)
  case less
  show ?case
  proof (cases "num = 0")
    case True
    then show ?thesis by (subst itoa_digits.simps) simp
  next
    case False
    then have pos: "0 < unat num" by (simp add: unat_gt_0)
    have "unat (num div base) < unat num" using pos assms(1) by (simp add: unat_div_distrib)
    from less.hyps [OF this, of "i + 1" "m(str + of_int i := itoa_char (num mod base))"]
    have IH: "itoa_digits base str (num div base) (i + 1) (m(str + of_int i := itoa_char (num mod base))) =
      Some (i + 1 + int (length (digits_of (unat base) (unat num div unat base))),
        store_bytes (m(str + of_int i := itoa_char (num mod base))) (str + of_int (i + 1))
          (digit_chars (unat base) (unat num div unat base)))"
      using less.prems by (simp add: unat_div_distrib)
    have "of_nat (unat num mod unat base) = num mod base" by (simp flip: unat_mod_distrib)
    then show ?thesis using False IH pos assms(1)
      by (subst itoa_digits.simps) (simp add: digits_of_step fun_upd_def algebra_simps)
  qed
qed

lemma offset_eq_iff:
  "0 \<le> p \<Longrightarrow> p < 2 ^ 32 \<Longrightarrow> 0 \<le> k \<Longrightarrow> k < 2 ^ 32 \<Longrightarrow> (a :: u32) + of_int p = a + of_int k \<longleftrightarrow> p = k"
  by (simp add: word_of_int_eq_iff take_bit_int_eq_self)

lemma reverse_loop_at:
  assumes "0 \<le> p" and "q < 2 ^ 32" and "0 \<le> k" and "k < 2 ^ 32"
  shows "reverse_loop str p q m (str + of_int k) =
    m (str + of_int (if p \<le> k \<and> k \<le> q then p + q - k else k))"
  using assms
proof (induction str p q m rule: reverse_loop.induct)
  case (1 str p q m)
  show ?case
  proof (cases "p < q")
    case False
    then have "(if p \<le> k \<and> k \<le> q then p + q - k else k) = k" by auto
    then show ?thesis using False by (subst reverse_loop.simps) simp
  next
    case True
    define m' where "m' = (m(str + of_int p := m (str + of_int q)))(str + of_int q := m (str + of_int p))"
    have "reverse_loop str p q m = reverse_loop str (p + 1) (q - 1) m'"
      using True by (subst reverse_loop.simps) (simp add: m'_def Let_def)
    moreover have "reverse_loop str (p + 1) (q - 1) m' (str + of_int k) =
        m' (str + of_int (if p + 1 \<le> k \<and> k \<le> q - 1 then p + 1 + (q - 1) - k else k))"
      unfolding m'_def by (rule "1.IH" [OF True refl refl refl]) (use "1.prems" in simp_all)
    moreover have "m' (str + of_int j) = m (str + of_int (if j = p then q else if j = q then p else j))"
      if "0 \<le> j" "j < 2 ^ 32" for j
      using that offset_eq_iff [of j p str] offset_eq_iff [of j q str] True "1.prems" by (auto simp add: m'_def)
    ultimately show ?thesis using "1.prems" True by auto
  qed
qed

lemma reverse_loop_string:
  assumes "length ds < 2 ^ 31"
  shows "reverse_loop str 0 (int (length ds) - 1) (store_bytes m str (ds @ [0])) = store_bytes m str (rev ds @ [0])"
proof
  fix x
  define k where "k = unat (x - str)"
  have k: "k < 2 ^ 32" "x = str + of_int (int k)" by (simp_all add: k_def)
  have at: "store_bytes m str bs (str + of_int (int j)) = (if j < length bs then bs ! j else m (str + of_int (int j)))"
    if "j < 2 ^ 32" "length bs \<le> 2 ^ 32" for j bs
  proof -
    have "unat (of_int (int j) :: u32) = j" using that(1) by (simp add: unat_of_nat take_bit_nat_eq_self)
    then show ?thesis using store_bytes_at [OF that(2), of m str "str + of_int (int j)"] by simp
  qed
  show "reverse_loop str 0 (int (length ds) - 1) (store_bytes m str (ds @ [0])) x = store_bytes m str (rev ds @ [0]) x"
  proof (cases "k < length ds")
    case True
    then have j: "int (length ds) - 1 - int k = int (length ds - 1 - k)" "length ds - 1 - k < 2 ^ 32" using assms by auto
    have "reverse_loop str 0 (int (length ds) - 1) (store_bytes m str (ds @ [0])) x =
        store_bytes m str (ds @ [0]) (str + of_int (int (length ds - 1 - k)))"
      unfolding k(2) j(1) [symmetric] using True k(1) assms by (subst reverse_loop_at) auto
    also have "\<dots> = (rev ds @ [0]) ! k" using True j(2) assms by (subst at) (auto simp add: nth_append rev_nth)
    finally show ?thesis using True k assms by (simp add: at del: of_int_of_nat_eq)
  next
    case False
    then show ?thesis unfolding k(2) using k(1) assms
      by (subst reverse_loop_at) (auto simp add: at nth_append simp del: of_int_of_nat_eq)
  qed
qed

text \<open>The text of a signed number.\<close>

definition int_text :: "u32 \<Rightarrow> bytes" where
  "int_text v =
     (if v = 0 then [0x30]
      else (if sint v < 0 then [0x2D] else []) @ rev (digit_chars 10 (unat (if sint v < 0 then - v else v))))"

lemma digit_chars_length: "length (digit_chars 10 (unat (v :: u32))) \<le> 10"
proof -
  have "unat v < 10 ^ 10" by (rule order.strict_trans [OF unat_u32_less]) simp
  then show ?thesis using digits_of_length [of 10 "unat v" 10] by simp
qed

lemma itoa_ok: "itoa v str 10 m = Some (str, store_bytes m str (int_text v @ [0]))"
proof (cases "v = 0")
  case True
  then show ?thesis by (simp add: itoa_def int_text_def fun_upd_def)
next
  case False
  define n where "n = (if sint v < 0 then - v else v)"
  define ds where "ds = digit_chars 10 (unat n) @ (if sint v < 0 then [0x2D] else [])"
  have nz: "n \<noteq> 0" using False by (simp add: n_def)
  have len: "length ds < 2 ^ 31" using digit_chars_length [of n] by (simp add: ds_def)
  have dig: "itoa_digits 10 str n 0 m = Some (int (length (digits_of 10 (unat n))), store_bytes m str (digit_chars 10 (unat n)))"
    using itoa_digits_ok [of 10 0 str n m] by simp
  have "itoa v str 10 m = Some (str, reverse_loop str 0 (int (length ds) - 1) (store_bytes m str (ds @ [0])))"
    using nz dig by (simp add: itoa_def Let_def ds_def n_def store_bytes_append algebra_simps split: if_splits)
  also have "\<dots> = Some (str, store_bytes m str (rev ds @ [0]))" by (simp add: reverse_loop_string [OF len])
  also have "rev ds = int_text v" using False by (simp add: ds_def int_text_def n_def)
  finally show ?thesis .
qed

lemma itoa_char_digit:
  assumes "d < 10"
  shows "is_digit_char (itoa_char (of_nat d))" "scast (itoa_char (of_nat d)) - 0x30 = (of_nat d :: u32)"
    "itoa_char (of_nat d) \<noteq> 0"
proof -
  have "d \<in> {0, 1, 2, 3, 4, 5, 6, 7, 8, 9}" using assms by auto
  then show "is_digit_char (itoa_char (of_nat d))" "scast (itoa_char (of_nat d)) - 0x30 = (of_nat d :: u32)"
    "itoa_char (of_nat d) \<noteq> 0"
    by (auto simp add: itoa_char_def)
qed

lemma atoi_digits_ok:
  assumes "is_cstring m (str + i) (map (\<lambda>d. itoa_char (of_nat d)) ds)" and "\<And>d. d \<in> set ds \<Longrightarrow> d < 10"
  shows "atoi_digits m str i r = Some (foldl (\<lambda>r d. r * 10 + of_nat d) r ds)"
  using assms
proof (induction ds arbitrary: i r)
  case Nil
  then show ?case by (subst atoi_digits.simps) simp
next
  case (Cons d ds)
  have "is_cstring m (str + (i + 1)) (map (\<lambda>d. itoa_char (of_nat d)) ds)" using Cons.prems(1) by (simp add: add.assoc)
  from Cons.IH [OF this, of "r * 10 + of_nat d"] show ?case using Cons.prems itoa_char_digit [of d]
    by (subst atoi_digits.simps) simp
qed

lemma digits_of_word: "foldl (\<lambda>r d. r * 10 + of_nat d) 0 (rev (digits_of 10 (unat (v :: u32)))) = v"
proof -
  have "foldr (\<lambda>d r. r * 10 + of_nat d) ds (0 :: u32) = of_nat (foldr (\<lambda>d r. r * 10 + d) ds 0)" for ds
    by (induction ds) simp_all
  then show ?thesis using digits_of_value [of 10 "unat v"] by (simp add: foldl_conv_foldr)
qed

lemma digits_of_pos: "v \<noteq> 0 \<Longrightarrow> digits_of 10 (unat (v :: u32)) \<noteq> []"
  by (simp add: digits_of_step unat_gt_0)

lemma atoi_int_text:
  assumes "is_cstring m str (int_text v)"
  shows "atoi str m = Some v"
proof (cases "v = 0")
  case True
  then have "m str = 0x30" "m (str + 1) = 0" using assms by (simp_all add: int_text_def)
  then show ?thesis using True
    by (simp add: atoi_def atoi_skip.simps [of m str 0] atoi_digits.simps [of m str 0] atoi_digits.simps [of m str 1])
next
  case False
  define n where "n = (if sint v < 0 then - v else v)"
  define ds where "ds = rev (digits_of 10 (unat n))"
  have ds: "ds \<noteq> []" "\<And>d. d \<in> set ds \<Longrightarrow> d < 10" "foldl (\<lambda>r d. r * 10 + of_nat d) 0 ds = n"
    using False digits_of_pos [of n] digits_of_word [of n] digits_of_less by (auto simp add: ds_def n_def)
  have shape: "int_text v = (if sint v < 0 then [0x2D] else []) @ map (\<lambda>d. itoa_char (of_nat d)) ds"
    using False by (simp add: int_text_def ds_def n_def rev_map)
  show ?thesis
  proof (cases "sint v < 0")
    case True
    then have "m str = 0x2D" "is_cstring m (str + 1) (map (\<lambda>d. itoa_char (of_nat d)) ds)" using assms shape by simp_all
    then show ?thesis using atoi_digits_ok [of m str 1 ds 0] ds True
      by (simp add: atoi_def atoi_skip.simps [of m str 0] n_def)
  next
    case False
    then have body: "is_cstring m (str + 0) (map (\<lambda>d. itoa_char (of_nat d)) ds)" using assms shape by simp
    obtain d ds' where d: "ds = d # ds'" using ds(1) by (cases ds) auto
    then have "is_digit_char (m str)" using body itoa_char_digit(1) [of d] ds(2) [of d] by simp
    then have "m str \<noteq> ch_sp" "m str \<noteq> 0x2D" "m str \<noteq> 0x2B" by auto
    then show ?thesis using atoi_digits_ok [OF body, of 0] ds False
      by (simp add: atoi_def atoi_skip.simps [of m str 0] n_def)
  qed
qed

lemma int_text_string: "0 \<notin> set (int_text v)" "length (int_text v) \<le> 11"
proof -
  have "\<forall>c \<in> set (digit_chars 10 n). c \<noteq> 0" for n by (auto dest!: digits_of_less simp add: itoa_char_digit(3))
  then show "0 \<notin> set (int_text v)" by (auto simp add: int_text_def simp del: set_map)
  show "length (int_text v) \<le> 11"
    using digit_chars_length [of v] digit_chars_length [of "- v"] by (simp add: int_text_def)
qed

section \<open>Reading a line\<close>

text \<open>Freeing heap memory leaves the keyboard and the byte memory alone.\<close>

lemma free_page_run_kbd:
  "ram (free_page_run a n s) = ram s" "kbd_head (free_page_run a n s) = kbd_head s"
  "kbd_tail (free_page_run a n s) = kbd_tail s" "kbd_buffer (free_page_run a n s) = kbd_buffer s"
  by (induction n) (simp_all add: free_page_run_def pmm_free_page_def con_puts_def Let_def)

lemma kfree_kbd [frame_simps]:
  fixes s :: "'a kbd_sys_scheme"
  shows "ram (kfree p s) = ram s" "kbd_head (kfree p s) = kbd_head s"
    "kbd_tail (kfree p s) = kbd_tail s" "kbd_buffer (kfree p s) = kbd_buffer s"
  by (simp_all add: kfree_def merge_next_def merge_prev_def Let_def con_puts_def free_page_run_kbd)

lemma kbd_frame:
  assumes "kbd_head t = kbd_head s" and "kbd_tail t = kbd_tail s" and "kbd_buffer t = kbd_buffer s"
  shows "kbd_inv t = kbd_inv s" "kbd_contents t = kbd_contents s"
  using assms by (simp_all add: kbd_inv_def kbd_contents_def kbd_count_def)

lemma libc_sys_write_frees: "libc_sys_write env fd buf n s = Some (0, kfree fd s)"
  by (simp add: libc_sys_write_def syscall3_def int80_def syscall_handler_def trap_env.truncate_def)

lemma libc_sys_read_reads:
  "libc_sys_read env fd buf n s = Some (sys_read_call fd buf n s)"
  by (simp add: libc_sys_read_def syscall3_def int80_def syscall_handler_def trap_env.truncate_def map_prod_def
      split: prod.split)

lemma load_bytes_Suc: "load_bytes m a (Suc n) = load_bytes m a n @ [m (a + of_nat n)]"
  by (simp add: load_bytes_def)

lemma load_bytes_take: "k \<le> n \<Longrightarrow> load_bytes m a k = take k (load_bytes m a n)"
  by (simp add: load_bytes_def take_map)

lemma load_bytes_upd:
  assumes "\<And>i. i < n \<Longrightarrow> x \<noteq> a + of_nat i"
  shows "load_bytes (m(x := v)) a n = load_bytes m a n"
proof -
  have "(m(x := v)) (a + of_nat i) = m (a + of_nat i)" if "i < n" for i using assms [OF that] by (metis fun_upd_other)
  then show ?thesis unfolding load_bytes_def by (intro map_cong) simp_all
qed

lemma load_bytes_end: "n < 2 ^ 32 \<Longrightarrow> load_bytes (m(a + of_nat n := v)) a n = load_bytes m a n"
proof (rule load_bytes_upd)
  fix i assume "n < 2 ^ 32" "i < n"
  then have "unat (of_nat i :: u32) = i" "unat (of_nat n :: u32) = n" by (simp_all add: unat_of_nat take_bit_nat_eq_self)
  then show "a + of_nat n \<noteq> a + of_nat i" using \<open>i < n\<close> by (metis add_left_cancel less_irrefl)
qed

lemma libc_getchar_takes:
  fixes s :: "'a vfs_sys_scheme"
  assumes "kbd_inv s" and "kbd_contents s = c # q" and "0 \<notin> set (c # q)" and "ue_c env \<noteq> 0"
  shows "\<exists>t. libc_getchar world env s = Some (c, t) \<and> ram t = (ram s)(ue_c env := c) \<and> kbd_inv t \<and> kbd_contents t = q"
proof -
  let ?s = "s\<lparr>ram := (ram s)(ue_c env := 0)\<rparr>"
  have "line_of (unat (1 :: u32) - unat (0 :: u32)) (c # q) = [c]" by (simp add: numeral_eq_Suc)
  then obtain t where t: "sys_read_loop (ue_c env) 1 0 ?s = (1, t)"
    "t = ?s\<lparr>kbd_tail := kbd_tail t, ram := store_bytes (ram ?s) (ue_c env) [c]\<rparr>" "kbd_inv t" "kbd_contents t = q"
    using sys_read_loop_line [of ?s 0 1 "ue_c env"] assms by auto
  have ram: "ram t = (ram s)(ue_c env := c)" by (subst t(2)) simp
  have "getchar_loop world env ?s = Some t" using assms(4) t(1)
    by (subst getchar_loop.simps) (simp add: libc_sys_read_reads sys_read_call_def)
  then show ?thesis using ram t(3,4) by (simp add: libc_getchar_def)
qed

text \<open>The line editor: the line typed so far, the characters to come.\<close>

fun edit_line :: "nat \<Rightarrow> bytes \<Rightarrow> bytes \<Rightarrow> (bytes \<times> bytes) option" where
  "edit_line n line q =
     (if length line < n
      then (case q of
              [] \<Rightarrow> None
            | c # q' \<Rightarrow>
                if c = ch_cr \<or> c = ch_nl then Some (line, q')
                else if c = ch_bs then edit_line n (butlast line) q'
                else edit_line n (line @ [c]) q')
      else Some (line, q))"

declare edit_line.simps [simp del]

text \<open>What one echoed character does to the memory and the queue.\<close>

lemma libc_putchar_effect:
  fixes s :: "'a vfs_sys_scheme"
  shows "\<exists>t. libc_putchar env c s = Some (0, t) \<and> ram t = (ram s)(ue_c env := c) \<and> kbd_inv t = kbd_inv s \<and>
    kbd_contents t = kbd_contents s"
proof -
  let ?t = "kfree 1 (s\<lparr>ram := (ram s)(ue_c env := c)\<rparr>)"
  have "kbd_inv ?t = kbd_inv s" "kbd_contents ?t = kbd_contents s"
    using kbd_frame [of ?t s] by (simp_all add: frame_simps)
  then show ?thesis by (simp add: libc_putchar_def libc_sys_write_frees frame_simps)
qed

lemma erase_effect:
  fixes s :: "'a vfs_sys_scheme"
  shows "\<exists>t. libc_sys_write env 1 (ue_erase env) 3 s = Some (0, t) \<and> ram t = ram s \<and> kbd_inv t = kbd_inv s \<and>
    kbd_contents t = kbd_contents s"
  using kbd_frame [of "kfree 1 s" s] by (simp add: libc_sys_write_frees frame_simps)

definition typed_so_far :: "user_env \<Rightarrow> u32 \<Rightarrow> nat \<Rightarrow> bytes \<Rightarrow> bytes \<Rightarrow> 'a vfs_sys_scheme \<Rightarrow> bool" where
  "typed_so_far env buf n acc q s \<longleftrightarrow>
     kbd_inv s \<and> kbd_contents s = q \<and> 0 \<notin> set q \<and> ue_c env \<noteq> 0 \<and> apart (ue_c env) 1 buf (Suc n) \<and>
     length acc \<le> n \<and> load_bytes (ram s) buf (length acc) = acc"

lemma typed_so_far_c:
  assumes "apart (ue_c env) 1 buf (Suc n)" and "k \<le> Suc n"
  shows "load_bytes (m(ue_c env := c)) buf k = load_bytes m buf k"
proof (rule load_bytes_upd)
  fix i assume "i < k"
  then show "ue_c env \<noteq> buf + of_nat i" using assms(1) [unfolded apart_def, rule_format, of 0 i] assms(2) by simp
qed

lemma typed_so_far_add:
  assumes "typed_so_far env buf n acc (c # q) s" and "length acc < n" and "n < 2 ^ 31"
    and "ram t = ((ram s)(ue_c env := c))(buf + of_nat (length acc) := c, ue_c env := c)" and "kbd_inv t" and "kbd_contents t = q"
  shows "typed_so_far env buf n (acc @ [c]) q t"
proof -
  have c: "apart (ue_c env) 1 buf (Suc n)" "ue_c env \<noteq> 0" "0 \<notin> set q" "load_bytes (ram s) buf (length acc) = acc"
    using assms(1) by (simp_all add: typed_so_far_def)
  have "load_bytes ((ram s)(buf + of_nat (length acc) := c)) buf (length acc) = acc"
    using load_bytes_end [of "length acc"] c(4) assms(2,3) by simp
  then have "load_bytes (ram t) buf (length (acc @ [c])) = acc @ [c]"
    using c assms(2) by (simp add: assms(4) typed_so_far_c [OF c(1)] load_bytes_Suc load_bytes_upd)
  then show ?thesis using c assms(2,5,6) by (simp add: typed_so_far_def)
qed

lemma readline_loop_ok:
  fixes s :: "'a vfs_sys_scheme"
  assumes "edit_line n acc q = Some (line, rest)" and "typed_so_far env buf n acc q s" and "n < 2 ^ 31"
  shows "\<exists>t. readline_loop world env buf (int n + 1) (int (length acc)) s = Some (int (length line), t) \<and>
    length line \<le> n \<and> load_bytes (ram t) buf (length line) = line \<and> kbd_contents t = rest \<and> set line \<subseteq> set acc \<union> set q"
  using assms
proof (induction n acc q arbitrary: s rule: edit_line.induct)
  case (1 n acc q)
  note inv = "1.prems"(2) [unfolded typed_so_far_def]
  show ?case
  proof (cases "length acc < n")
    case False
    then show ?thesis using "1.prems"(1) inv by (subst readline_loop.simps) (auto simp add: edit_line.simps [of n])
  next
    case True
    then obtain c q' where q: "q = c # q'" using "1.prems"(1) by (cases q) (simp_all add: edit_line.simps [of n])
    have q0: "kbd_inv s" "kbd_contents s = c # q'" "0 \<notin> set (c # q')" "ue_c env \<noteq> 0" using inv q by simp_all
    obtain u where u: "libc_getchar world env s = Some (c, u)" "ram u = (ram s)(ue_c env := c)" "kbd_inv u" "kbd_contents u = q'"
      using libc_getchar_takes [OF q0, of world] by blast
    have loop: "readline_loop world env buf (int n + 1) (int (length acc)) s =
        (if c = ch_cr \<or> c = ch_nl then do { (_, s) \<leftarrow> libc_putchar env ch_nl u; Some (int (length acc), s) }
         else if c = ch_bs
         then if acc \<noteq> []
              then do { (_, s) \<leftarrow> libc_sys_write env 1 (ue_erase env) 3 u;
                readline_loop world env buf (int n + 1) (int (length acc) - 1) s }
              else readline_loop world env buf (int n + 1) (int (length acc)) u
         else do { (_, s) \<leftarrow> libc_putchar env c (u\<lparr>ram := (ram u)(buf + of_nat (length acc) := c)\<rparr>);
           readline_loop world env buf (int n + 1) (int (length acc) + 1) s })"
      using True u(1) by (subst readline_loop.simps) simp
    have q1: "0 \<notin> set q'" using q0(3) by simp
    have keep: "load_bytes (ram u) buf k = load_bytes (ram s) buf k" if "k \<le> Suc n" for k
      unfolding u(2) using typed_so_far_c that inv by blast
    consider (line) "c = ch_cr \<or> c = ch_nl" | (erase) "c = ch_bs" | (char) "c \<noteq> ch_cr" "c \<noteq> ch_nl" "c \<noteq> ch_bs" by blast
    then show ?thesis
    proof cases
      case line
      then have "line = acc" "rest = q'" using "1.prems"(1) True q by (simp_all add: edit_line.simps [of n])
      moreover obtain v where v: "libc_putchar env ch_nl u = Some (0, v)" "ram v = (ram u)(ue_c env := ch_nl)"
        "kbd_contents v = kbd_contents u" using libc_putchar_effect by blast
      moreover have "load_bytes (ram v) buf (length acc) = acc"
        unfolding v(2) using typed_so_far_c [of env buf n] keep inv by simp
      ultimately show ?thesis using loop line True u(4) by auto
    next
      case erase
      then have ed: "edit_line n (butlast acc) q' = Some (line, rest)" "\<not> (c = ch_cr \<or> c = ch_nl)"
        using "1.prems"(1) True q by (simp_all add: edit_line.simps [of n acc])
      obtain v where v: "libc_sys_write env 1 (ue_erase env) 3 u = Some (0, v)" "ram v = ram u" "kbd_inv v = kbd_inv u"
        "kbd_contents v = kbd_contents u" using erase_effect by blast
      have bl: "load_bytes (ram s) buf (length (butlast acc)) = butlast acc"
        using inv load_bytes_take [of "length (butlast acc)" "length acc" "ram s" buf] by (simp add: butlast_conv_take)
      then have next': "typed_so_far env buf n (butlast acc) q' w" if "w \<in> {u, v}" for w
        using that inv q0(4) q1 u(3) v(2-4) keep by (auto simp add: typed_so_far_def u(4))
      have sub: "set (butlast acc) \<subseteq> set acc" by (auto dest: in_set_butlastD)
      define w where "w = (if acc = [] then u else v)"
      have "readline_loop world env buf (int n + 1) (int (length acc)) s =
          readline_loop world env buf (int n + 1) (int (length (butlast acc))) w"
        using loop erase v(1) by (cases acc rule: rev_cases) (simp_all add: w_def)
      then show ?thesis using "1.IH"(1) [OF True q ed(2) erase ed(1) next' "1.prems"(3), of w] sub q by (fastforce simp add: w_def)
    next
      case char
      then have ed: "edit_line n (acc @ [c]) q' = Some (line, rest)" "\<not> (c = ch_cr \<or> c = ch_nl)"
        using "1.prems"(1) True q by (simp_all add: edit_line.simps [of n acc])
      let ?u = "u\<lparr>ram := (ram u)(buf + of_nat (length acc) := c)\<rparr>"
      obtain v where v: "libc_putchar env c ?u = Some (0, v)" "ram v = (ram ?u)(ue_c env := c)" "kbd_inv v = kbd_inv ?u"
        "kbd_contents v = kbd_contents ?u" using libc_putchar_effect by blast
      have next': "typed_so_far env buf n (acc @ [c]) q' v"
        using "1.prems"(2) q True "1.prems"(3) u v(2-4) by (intro typed_so_far_add [of env buf n acc c q' s v]) simp_all
      have "readline_loop world env buf (int n + 1) (int (length acc)) s =
          readline_loop world env buf (int n + 1) (int (length (acc @ [c]))) v"
        using loop char v(1) by (simp add: add.commute)
      then show ?thesis using "1.IH"(2) [OF True q ed(2) char(3) ed(1) next' "1.prems"(3)] q by auto
    qed
  qed
qed

lemma apart_shift: "apart b k d (Suc (n + j)) \<Longrightarrow> apart b k (d + of_nat n) (Suc j)"
proof -
  assume ap: "apart b k d (Suc (n + j))"
  have "b + of_nat i \<noteq> d + of_nat n + of_nat l" if "i < k" "l < Suc j" for i l
    using ap [unfolded apart_def, rule_format, of i "n + l"] that by (simp add: add.assoc)
  then show ?thesis by (simp add: apart_def)
qed

lemma store_over:
  assumes "length xs + length ys < 2 ^ 32"
  shows "store_bytes (store_bytes m d (xs @ [0])) (d + of_nat (length xs)) (ys @ [0]) = store_bytes m d (xs @ ys @ [0])"
proof
  fix x
  let ?e = "d + of_nat (length xs)"
  have shift: "store_bytes (m(?e := 0)) ?e (ys @ [0]) x = store_bytes m ?e (ys @ [0]) x" for m :: mem
    using assms by (auto simp add: store_bytes_at)
  show "store_bytes (store_bytes m d (xs @ [0])) ?e (ys @ [0]) x = store_bytes m d (xs @ ys @ [0]) x"
    using shift [of "store_bytes m d xs"] by (simp add: store_bytes_append)
qed

section \<open>Properties\<close>

text \<open>C29. Converting a number to decimal text and back gives the number: \<open>itoa\<close> returns, writes a string of at most 11
  characters and its NUL and nothing else, and \<open>atoi\<close> reads that string as the number again, for every 32-bit value,
  the most negative one included.\<close>

theorem itoa_atoi_roundtrip:
  "\<exists>cs. itoa v str 10 m = Some (str, store_bytes m str (cs @ [0])) \<and> length cs \<le> 11 \<and>
     is_cstring (store_bytes m str (cs @ [0])) str cs \<and> atoi str (store_bytes m str (cs @ [0])) = Some v"
proof -
  have "is_cstring (store_bytes m str (int_text v @ [0])) str (int_text v)"
    using int_text_string [of v] by (intro is_cstring_store) simp_all
  then show ?thesis using itoa_ok int_text_string atoi_int_text by blast
qed

text \<open>C30. \<open>strcmp\<close> is the lexicographic comparison: on two strings it returns, with 0 exactly when they are equal and otherwise
  -1 or 1 as the first is below the second in the lexicographic order of their signed characters, the NUL included.\<close>

theorem strcmp_lexicographic:
  assumes "is_cstring m s1 xs" and "is_cstring m s2 ys"
  shows "strcmp s1 s2 m = Some (if xs = ys then 0 else if (xs @ [0], ys @ [0]) \<in> lexord char_less then - 1 else 1)"
  unfolding strcmp_def using strcmp_loop_ok [of m s1 0 xs s2 ys] assms by simp

definition demo_strings :: mem where
  "demo_strings = store_bytes (store_bytes (\<lambda>_. 0) 0x100 (lit ''abc'')) 0x200 (lit ''abd'')"

lemma demo_strings_ok: "is_cstring demo_strings 0x100 (lit ''abc'')" "is_cstring demo_strings 0x200 (lit ''abd'')"
  by code_simp+

theorem strcmp_lexicographic_witness: "strcmp 0x100 0x200 demo_strings = Some (- 1)"
  using strcmp_lexicographic [OF demo_strings_ok] by (simp add: lit_def)

text \<open>\<open>strcpy\<close> and \<open>strcat\<close> build the concatenation: copying one string to a destination apart from both sources and
  appending the other leaves there the first string followed by the second, and changes no byte but those of the result.\<close>

theorem strcpy_strcat_concat:
  assumes "is_cstring m a xs" and "is_cstring m b ys" and "length xs + length ys < 2 ^ 32"
    and "apart a (Suc (length xs)) d (Suc (length xs + length ys))"
    and "apart b (Suc (length ys)) d (Suc (length xs + length ys))"
  shows "\<exists>m1 m2. strcpy d a m = Some (d, m1) \<and> strcat d b m1 = Some (d, m2) \<and> is_cstring m2 d (xs @ ys) \<and>
    m2 = store_bytes m d (xs @ ys @ [0])"
proof -
  let ?m1 = "store_bytes m d (xs @ [0])"
  let ?m2 = "store_bytes ?m1 (d + of_nat (length xs)) (ys @ [0])"
  have z: "0 \<notin> set xs" "0 \<notin> set ys" using assms(1,2) by (simp_all add: is_cstring_def)
  have "strcpy d a m = Some (d, ?m1)"
    using assms(4) by (intro strcpy_ok [OF assms(1)]) (auto simp add: apart_def)
  moreover have "is_cstring ?m1 d xs" using z assms(3) by (intro is_cstring_store) simp_all
  moreover have "is_cstring ?m1 b ys"
    using assms(2,3,5) by (intro is_cstring_outside_store) (auto simp add: apart_def)
  moreover have "apart b (Suc (length ys)) (d + of_nat (length xs)) (Suc (length ys))"
    by (rule apart_shift [OF assms(5)])
  ultimately have cat: "strcpy d a m = Some (d, ?m1)" "strcat d b ?m1 = Some (d, ?m2)" using strcat_ok by blast+
  have "?m2 = store_bytes m d (xs @ ys @ [0])"
    using assms(3) by (intro store_over) simp
  moreover have "is_cstring (store_bytes m d ((xs @ ys) @ [0])) d (xs @ ys)" using z assms(3) by (intro is_cstring_store) simp_all
  ultimately show ?thesis using cat by (intro exI conjI) simp_all
qed

theorem strcpy_strcat_concat_witness:
  "\<exists>m1 m2. strcpy 0x300 0x100 demo_strings = Some (0x300, m1) \<and> strcat 0x300 0x200 m1 = Some (0x300, m2) \<and>
     is_cstring m2 0x300 (lit ''abcabd'')"
proof -
  have len: "length (lit ''abc'') = 3" "length (lit ''abd'') = 3" "lit ''abc'' @ lit ''abd'' = lit ''abcabd''"
    by (simp_all add: lit_def)
  have "apart 0x100 (Suc (length (lit ''abc''))) 0x300 (Suc (length (lit ''abc'') + length (lit ''abd'')))"
    "apart 0x200 (Suc (length (lit ''abd''))) 0x300 (Suc (length (lit ''abc'') + length (lit ''abd'')))"
    unfolding len by (rule apart_ranges; simp)+
  from strcpy_strcat_concat [OF demo_strings_ok _ this] show ?thesis unfolding len(3) by (auto simp add: len(1,2))
qed

definition demo_user :: user_env where
  "demo_user = trap_env.extend demo_env
     \<lparr>ue_c = 0x7000, ue_buf = 0x7100, ue_erase = 0x7200, ue_null_text = 0x7210, ue_percent = 0x7220\<rparr>"



text \<open>The C library and the kernel number the system calls differently, so that the library's wrappers call something else:
  \<open>getpid\<close> ends the calling process, \<open>write\<close> frees a heap block, \<open>malloc\<close> returns the process identifier,
  \<open>exit\<close> allocates memory and \<open>yield\<close> does nothing.\<close>

theorem libc_numbers_mismatch:
  "libc_getpid env s = Some (1, process_exit 0 (te_esp env) s) \<and>
   libc_sys_write env fd buf n s = Some (0, kfree fd s) \<and>
   libc_malloc env n s = Some (scheduler_get_current_pid s, s) \<and>
   libc_exit env status s = map_option snd (kmalloc status s) \<and>
   libc_yield env s = Some s"
  by (simp add: libc_getpid_def libc_sys_write_frees libc_malloc_def libc_exit_def libc_yield_def syscall1_def int80_1_def
      int80_def syscall_handler_def sys_write_call_def trap_env.truncate_def option.map_comp o_def)

end
