(* ===== verification/Elf.thy ===== *)
theory Elf
  imports Libc_Props
begin

text \<open>
  The program loader, \<^verbatim>\<open>src/kernel/elf.c\<close>: validation of an ELF header, loading of the segments of a file, start
  of the program as a user process.

  The file is read into a buffer of 1024 bytes on the stack.  Its address \<open>buffer\<close> is a parameter, and everything the
  loader computes from the header (program headers, segment contents) is read from the byte memory at whatever address comes
  out, inside the buffer or not, as the code does.  \<open>entry_pt\<close>, the C \<open>entry_point\<close>, is \<open>None\<close> for a null pointer, else the cell it points to.
\<close>

abbreviation ELF_MAGIC :: u32 where "ELF_MAGIC \<equiv> 0x464C457F"
abbreviation ET_REL :: u16 where "ET_REL \<equiv> 1"
abbreviation ET_EXEC :: u16 where "ET_EXEC \<equiv> 2"
abbreviation EM_386 :: u16 where "EM_386 \<equiv> 3"
abbreviation PT_LOAD :: u32 where "PT_LOAD \<equiv> 1"

section \<open>Headers\<close>

record Elf32_Ehdr =
  e_ident :: bytes
  e_type :: u16
  e_machine :: u16
  e_version :: u32
  e_entry :: u32
  e_phoff :: u32
  e_shoff :: u32
  e_flags :: u32
  e_ehsize :: u16
  e_phentsize :: u16
  e_phnum :: u16
  e_shentsize :: u16
  e_shnum :: u16
  e_shstrndx :: u16

record Elf32_Phdr =
  p_type :: u32
  p_offset :: u32
  p_vaddr :: u32
  p_paddr :: u32
  p_filesz :: u32
  p_memsz :: u32
  p_flags :: u32
  p_align :: u32

text \<open>The packed structures at an address.\<close>

definition ehdr_at :: "mem \<Rightarrow> u32 \<Rightarrow> Elf32_Ehdr" where
  "ehdr_at m a =
     \<lparr>e_ident = load_bytes m a 16, e_type = load16 m (a + 16), e_machine = load16 m (a + 18), e_version = load32 m (a + 20),
      e_entry = load32 m (a + 24), e_phoff = load32 m (a + 28), e_shoff = load32 m (a + 32), e_flags = load32 m (a + 36),
      e_ehsize = load16 m (a + 40), e_phentsize = load16 m (a + 42), e_phnum = load16 m (a + 44),
      e_shentsize = load16 m (a + 46), e_shnum = load16 m (a + 48), e_shstrndx = load16 m (a + 50)\<rparr>"

definition phdr_at :: "mem \<Rightarrow> u32 \<Rightarrow> Elf32_Phdr" where
  "phdr_at m a =
     \<lparr>p_type = load32 m a, p_offset = load32 m (a + 4), p_vaddr = load32 m (a + 8), p_paddr = load32 m (a + 12),
      p_filesz = load32 m (a + 16), p_memsz = load32 m (a + 20), p_flags = load32 m (a + 24), p_align = load32 m (a + 28)\<rparr>"

abbreviation Ehdr_size :: int where "Ehdr_size \<equiv> 52"
abbreviation Phdr_size :: u32 where "Phdr_size \<equiv> 32"

section \<open>Operations\<close>

text \<open>The header is \<open>None\<close> for a null pointer.  The magic number is the first word of \<open>e_ident\<close>.\<close>

definition magic_of :: "Elf32_Ehdr \<Rightarrow> u32" where
  "magic_of header = load32 (\<lambda>i. e_ident header ! unat i) 0"

definition elf_validate :: "Elf32_Ehdr option \<Rightarrow> bool" where
  "elf_validate header =
     (case header of
        None \<Rightarrow> False
      | Some h \<Rightarrow>
          if magic_of h \<noteq> ELF_MAGIC then False
          else if e_machine h \<noteq> EM_386 then False
          else if e_type h \<noteq> ET_EXEC \<and> e_type h \<noteq> ET_REL then False
          else True)"

text \<open>The two byte loops of a segment.\<close>

definition copy_segment :: "u32 \<Rightarrow> u32 \<Rightarrow> nat \<Rightarrow> mem \<Rightarrow> mem" where
  "copy_segment dest src n m = fold (\<lambda>k m. m(dest + of_nat k := m (src + of_nat k))) [0..<n] m"

definition clear_segment :: "u32 \<Rightarrow> nat \<Rightarrow> nat \<Rightarrow> mem \<Rightarrow> mem" where
  "clear_segment dest l u m = fold (\<lambda>k m. m(dest + of_nat k := 0)) [l..<u] m"

definition load_segment :: "u32 \<Rightarrow> int \<Rightarrow> u32 \<Rightarrow> u32 \<Rightarrow> u32 \<Rightarrow> 'a vfs_sys_scheme \<Rightarrow> u32 \<times> 'a vfs_sys_scheme" where
  "load_segment buffer read_bytes ph seg_mem entry_pt s =
     (let src = buffer + p_offset (phdr_at (ram s) ph);
          dest = seg_mem;
          s = s\<lparr>ram := copy_segment dest src
                  (min (unat (p_filesz (phdr_at (ram s) ph))) (unat (word_of_int read_bytes :: u32))) (ram s)\<rparr>;
          s = s\<lparr>ram := clear_segment dest (unat (p_filesz (phdr_at (ram s) ph))) (unat (p_memsz (phdr_at (ram s) ph))) (ram s)\<rparr>;
          header = ehdr_at (ram s) buffer;
          p = phdr_at (ram s) ph
      in if e_entry header \<ge> p_vaddr p \<and> e_entry header < p_vaddr p + p_memsz p
         then (let offset = e_entry header - p_vaddr p in (seg_mem + offset, s))
         else (entry_pt, s))"

lemma u16_below: "unat (w :: u16) < 65536"
  by (rule order.strict_trans2 [OF unsigned_less]) simp

function load_segments ::
    "u32 \<Rightarrow> int \<Rightarrow> u32 \<Rightarrow> nat \<Rightarrow> u32 \<Rightarrow> 'a vfs_sys_scheme \<Rightarrow> (int \<times> u32 \<times> 'a vfs_sys_scheme) option" where
  "load_segments buffer read_bytes phdr i entry_pt s =
     (if i < unat (e_phnum (ehdr_at (ram s) buffer))
      then
        (let ph = phdr + Phdr_size * of_nat i; p = phdr_at (ram s) ph
         in if p_type p = PT_LOAD
            then (case kmalloc (if p_memsz p > 0 then p_memsz p else 512) s of
                    None \<Rightarrow> None
                  | Some (seg_mem, s) \<Rightarrow>
                      if seg_mem = 0
                      then Some (- 1, entry_pt, con_puts (lit ''[ELF] Error: Out of memory loading segment'' @ [ch_nl]) COLOR_LIGHT_RED s)
                      else (let (entry_pt, s) = load_segment buffer read_bytes ph seg_mem entry_pt s
                            in load_segments buffer read_bytes phdr (i + 1) entry_pt s))
            else load_segments buffer read_bytes phdr (i + 1) entry_pt s)
      else Some (0, entry_pt, s))"
  by pat_completeness auto
termination
proof (relation "measure (\<lambda>(buffer, read_bytes, phdr, i, entry_pt, s). 65536 - i)", goal_cases)
  case 1
  show ?case by simp
next
  case (2 buffer read_bytes phdr i entry_pt s)
  then have "i < 65536" using u16_below [of "e_phnum (ehdr_at (ram s) buffer)"] by linarith
  then show ?case by simp
next
  case (3 buffer read_bytes phdr i entry_pt s)
  then have "i < 65536" using u16_below [of "e_phnum (ehdr_at (ram s) buffer)"] by linarith
  then show ?case by simp
qed

declare load_segments.simps [simp del]

text \<open>The two lines of a message about a file.\<close>

definition elf_report :: "bytes \<Rightarrow> u8 \<Rightarrow> bytes \<Rightarrow> 'a console_scheme \<Rightarrow> 'a console_scheme" where
  "elf_report msg color filename s = con_putc ch_nl COLOR_WHITE (con_puts filename COLOR_WHITE (con_puts msg color s))"

text \<open>\<open>vfs_read_file\<close> into the buffer at an address.\<close>

definition read_into :: "hardware \<Rightarrow> bytes \<Rightarrow> u32 \<Rightarrow> u32 \<Rightarrow> bytes \<Rightarrow> 'a vfs_sys_scheme \<Rightarrow> int \<times> 'a vfs_sys_scheme" where
  "read_into hw junk buffer len filename s =
     (let (r, buf, s) = vfs_read_file hw junk (Some filename) (Some (\<lambda>i. ram s (buffer + of_nat i))) len s
      in (r, s\<lparr>ram := (\<lambda>a. if a - buffer < len then the buf (unat (a - buffer)) else ram s a)\<rparr>))"

definition elf_load_from_vfs ::
    "hardware \<Rightarrow> bytes \<Rightarrow> u32 \<Rightarrow> bytes option \<Rightarrow> u32 option \<Rightarrow> 'a vfs_sys_scheme \<Rightarrow>
      (int \<times> u32 option \<times> 'a vfs_sys_scheme) option" where
  "elf_load_from_vfs hw junk buffer filename entry_pt s =
     (case (filename, entry_pt) of
        (Some name, Some _) \<Rightarrow>
          (let (read_bytes, s) = read_into hw junk buffer 1024 name s
           in if read_bytes < Ehdr_size
              then Some (- 1, entry_pt,
                     elf_report (lit ''[ELF] Error: File too small or not found: '') COLOR_LIGHT_RED name s)
              else
                (let header = ehdr_at (ram s) buffer
                 in if \<not> elf_validate (Some header)
                    then Some (- 1, entry_pt,
                           elf_report (lit ''[ELF] Error: Invalid 32-bit x86 ELF format: '') COLOR_LIGHT_RED name s)
                    else
                      (case load_segments buffer read_bytes (buffer + e_phoff header) 0 (e_entry header) s of
                         None \<Rightarrow> None
                       | Some (r, entry, s) \<Rightarrow>
                           if r < 0 then Some (r, Some entry, s)
                           else Some (0, Some entry,
                                  elf_report (lit ''[ELF] Successfully Loaded Binary: '') COLOR_LIGHT_GREEN name s))))
      | _ \<Rightarrow> Some (- 1, entry_pt, s))"

definition elf_run :: "hardware \<Rightarrow> bytes \<Rightarrow> u32 \<Rightarrow> bytes option \<Rightarrow> 'a vfs_sys_scheme \<Rightarrow> (int \<times> 'a vfs_sys_scheme) option" where
  "elf_run hw junk buffer filename s =
     (case elf_load_from_vfs hw junk buffer filename (Some 0) s of
        None \<Rightarrow> None
      | Some (r, entry_pt, s) \<Rightarrow>
          if r = 0 \<and> entry_pt \<noteq> Some 0
          then map_option (Pair 0) (scheduler_add_user_process (the entry_pt) (the filename) s)
          else Some (- 1, s))"

section \<open>Segments\<close>

lemma copy_segment_store:
  assumes "apart src n dest n" and "n \<le> 2 ^ 32"
  shows "copy_segment dest src n m = store_bytes m dest (load_bytes m src n)"
  using assms
proof (induction n)
  case 0
  then show ?case by (simp add: copy_segment_def load_bytes_def)
next
  case (Suc n)
  have len: "length (load_bytes m src n) = n" by (simp add: load_bytes_def)
  have "apart src (Suc n) dest n" using Suc.prems(1) by (simp add: apart_def)
  then have "n \<le> unat (src + of_nat n - dest)" using Suc.prems(2) by (intro apart_outside [of src "Suc n" dest n n]) simp_all
  then have "store_bytes m dest (load_bytes m src n) (src + of_nat n) = m (src + of_nat n)"
    using Suc.prems(2) by (simp add: store_bytes_at len)
  moreover have "apart src n dest n" using Suc.prems(1) by (simp add: apart_def)
  then have "copy_segment dest src n m = store_bytes m dest (load_bytes m src n)" using Suc by simp
  ultimately show ?case by (simp add: copy_segment_def load_bytes_Suc store_bytes_append len)
qed

lemma clear_segment_store:
  "l \<le> u \<Longrightarrow> clear_segment dest l u m = store_bytes m (dest + of_nat l) (replicate (u - l) 0)"
proof (induction u)
  case 0
  then show ?case by (simp add: clear_segment_def)
next
  case (Suc u)
  show ?case
  proof (cases "l \<le> u")
    case True
    then have "replicate (Suc u - l) (0 :: u8) = replicate (u - l) 0 @ [0]" by (simp add: Suc_diff_le replicate_append_same)
    moreover have "dest + of_nat l + of_nat (u - l) = dest + of_nat u" using True by (simp add: of_nat_diff)
    ultimately show ?thesis using Suc True by (simp add: clear_segment_def store_bytes_append)
  next
    case False
    then show ?thesis using Suc.prems by (simp add: clear_segment_def)
  qed
qed

lemma segment_store:
  assumes "apart src fs dest fs" and "fs \<le> ms" and "ms \<le> 2 ^ 32"
  shows "clear_segment dest fs ms (copy_segment dest src fs m) =
    store_bytes m dest (load_bytes m src fs @ replicate (ms - fs) 0)"
  using assms by (simp add: copy_segment_store clear_segment_store store_bytes_append load_bytes_def)

text \<open>Headers only depend on their own bytes.\<close>

lemma apart_word: "apart a n b k \<Longrightarrow> unat j < n \<Longrightarrow> k \<le> 2 ^ 32 \<Longrightarrow> k \<le> unat (a + j - b)"
  using apart_outside [of a n b k "unat j"] by simp

lemma store_bytes_apart:
  assumes "apart a n b (length bs)" and "length bs \<le> 2 ^ 32" and "unat j < n"
  shows "store_bytes m b bs (a + j) = m (a + j)"
  using apart_word [OF assms(1,3,2)] store_bytes_at [OF assms(2), of m b "a + j"] by simp

lemma phdr_at_agree: "(\<And>j. unat j < 32 \<Longrightarrow> m' (a + j) = m (a + j)) \<Longrightarrow> phdr_at m' a = phdr_at m a"
proof -
  assume eq: "\<And>j. unat j < 32 \<Longrightarrow> m' (a + j) = m (a + j)"
  have "m' a = m a" using eq [of 0] by simp
  then show ?thesis by (simp add: phdr_at_def load32_def load16_def add.assoc eq)
qed

lemma ehdr_at_agree: "(\<And>j. unat j < 52 \<Longrightarrow> m' (a + j) = m (a + j)) \<Longrightarrow> ehdr_at m' a = ehdr_at m a"
proof -
  assume eq: "\<And>j. unat j < 52 \<Longrightarrow> m' (a + j) = m (a + j)"
  have "load_bytes m' a 16 = load_bytes m a 16"
    unfolding load_bytes_def by (rule map_cong) (auto simp add: unat_of_nat take_bit_nat_eq_self intro!: eq)
  then show ?thesis by (simp add: ehdr_at_def load32_def load16_def add.assoc eq)
qed

lemma unat_word_of_int_small: "0 \<le> r \<Longrightarrow> r < 2 ^ 32 \<Longrightarrow> unat (word_of_int r :: u32) = nat r"
  by (cases r) (simp_all add: unat_of_nat take_bit_nat_eq_self)

lemma load_segment_image:
  fixes s :: "'a vfs_sys_scheme"
  assumes "unat (p_filesz (phdr_at (ram s) ph)) \<le> unat (p_memsz (phdr_at (ram s) ph))"
    and "int (unat (p_filesz (phdr_at (ram s) ph))) \<le> read_bytes" and "read_bytes < 1024"
    and "apart (buffer + p_offset (phdr_at (ram s) ph)) (unat (p_filesz (phdr_at (ram s) ph))) seg_mem (unat (p_memsz (phdr_at (ram s) ph)))"
    and "apart ph 32 seg_mem (unat (p_memsz (phdr_at (ram s) ph)))"
    and "apart buffer 52 seg_mem (unat (p_memsz (phdr_at (ram s) ph)))"
  defines "p \<equiv> phdr_at (ram s) ph"
  shows "load_segment buffer read_bytes ph seg_mem e s =
    (if p_vaddr p \<le> e_entry (ehdr_at (ram s) buffer) \<and> e_entry (ehdr_at (ram s) buffer) < p_vaddr p + p_memsz p
     then seg_mem + (e_entry (ehdr_at (ram s) buffer) - p_vaddr p) else e,
     s\<lparr>ram := store_bytes (ram s) seg_mem
       (load_bytes (ram s) (buffer + p_offset p) (unat (p_filesz p)) @ replicate (unat (p_memsz p) - unat (p_filesz p)) 0)\<rparr>)"
proof -
  let ?fs = "unat (p_filesz p)" and ?ms = "unat (p_memsz p)" and ?src = "buffer + p_offset p"
  have ms: "?ms \<le> 2 ^ 32" using unat_u32_less [of "p_memsz p"] by (simp add: less_imp_le)
  have "0 \<le> read_bytes" using assms(2) by linarith
  then have "unat (word_of_int read_bytes :: u32) = nat read_bytes" using assms(3) by (intro unat_word_of_int_small) simp_all
  then have cnt: "min ?fs (unat (word_of_int read_bytes :: u32)) = ?fs" using assms(2) unfolding p_def by linarith
  have ap: "apart ?src ?fs seg_mem ?fs" using assms(1,4) unfolding p_def apart_def by simp
  have copied: "copy_segment seg_mem ?src ?fs (ram s) = store_bytes (ram s) seg_mem (load_bytes (ram s) ?src ?fs)"
    using assms(1) ms by (intro copy_segment_store [OF ap]) (simp add: p_def)
  have "apart ph 32 seg_mem ?fs" using assms(1,5) unfolding p_def apart_def by simp
  then have ph1: "phdr_at (copy_segment seg_mem ?src ?fs (ram s)) ph = p"
    unfolding copied p_def [symmetric] using assms(1) ms
    by (subst p_def, intro phdr_at_agree store_bytes_apart [of ph 32]) (simp_all add: p_def load_bytes_def)
  define bs where "bs = load_bytes (ram s) ?src ?fs @ replicate (?ms - ?fs) 0"
  define m where "m = store_bytes (ram s) seg_mem bs"
  have whole: "clear_segment seg_mem ?fs ?ms (copy_segment seg_mem ?src ?fs (ram s)) = m"
    unfolding m_def bs_def using segment_store [OF ap _ ms] assms(1) by (simp add: p_def)
  have len: "length bs = ?ms" using assms(1) by (simp add: bs_def load_bytes_def p_def)
  have "phdr_at m ph = p" unfolding m_def p_def
    using assms(5) ms len by (intro phdr_at_agree store_bytes_apart [of ph 32]) (simp_all add: p_def)
  moreover have "ehdr_at m buffer = ehdr_at (ram s) buffer" unfolding m_def
    using assms(6) ms len by (intro ehdr_at_agree store_bytes_apart [of buffer 52]) (simp_all add: p_def)
  ultimately show ?thesis using whole ph1 cnt
    by (simp add: load_segment_def Let_def p_def [symmetric] m_def [symmetric] bs_def [symmetric])
qed

section \<open>Properties\<close>

lemma load32_bytes:
  "ucast (load32 m a) = m a" "ucast (drop_bit 8 (load32 m a)) = m (a + 1)"
  "ucast (drop_bit 16 (load32 m a)) = m (a + 2)" "ucast (drop_bit 24 (load32 m a)) = m (a + 3)"
  by (rule bit_word_eqI; auto simp add: load32_def load16_def bit_simps add.assoc dest: bit_imp_le_length)+

lemma ehdr_magic: "magic_of (ehdr_at m a) = ELF_MAGIC \<longleftrightarrow> load_bytes m a 4 = [0x7F, 0x45, 0x4C, 0x46]"
proof -
  have "load_bytes m a 16 ! i = m (a + of_nat i)" if "i < 16" for i using that by (simp add: load_bytes_def)
  then have "magic_of (ehdr_at m a) = load32 m a"
    by (simp add: magic_of_def ehdr_at_def load32_def load16_def add.assoc)
  moreover have "load_bytes m a 4 = [m a, m (a + 1), m (a + 2), m (a + 3)]" by (simp add: load_bytes_def numeral_eq_Suc)
  moreover have "load32 m a = ELF_MAGIC" if "m a = 0x7F" "m (a + 1) = 0x45" "m (a + 2) = 0x4C" "m (a + 3) = 0x46"
    using that by (simp add: load32_def load16_def add.assoc)
  moreover have "m a = 0x7F \<and> m (a + 1) = 0x45 \<and> m (a + 2) = 0x4C \<and> m (a + 3) = 0x46" if "load32 m a = ELF_MAGIC"
    using load32_bytes [of m a] unfolding that by simp
  ultimately show ?thesis by auto
qed

lemma elf_report_screen: "\<exists>v. elf_report msg color name s = s\<lparr>vga := v\<rparr>"
  by (auto simp add: elf_report_def con_puts_def con_putc_def)

text \<open>C39. A file is run only if it is a 32-bit x86 program: a file that is missing, shorter than a header, or does not start
  with the ELF magic bytes, the machine number 3 and the type 1 or 2 is rejected with -1; no memory is allocated and no process is
  created, only the screen and the buffer differ.\<close>

theorem elf_rejects_invalid:
  fixes s :: "'a vfs_sys_scheme"
  assumes "read_into hw junk buffer 1024 name s = (r, u)"
    and "r < 52 \<or> load_bytes (ram u) buffer 4 \<noteq> [0x7F, 0x45, 0x4C, 0x46] \<or>
      load16 (ram u) (buffer + 18) \<noteq> 3 \<or> load16 (ram u) (buffer + 16) \<notin> {1, 2}"
  shows "\<exists>v. elf_run hw junk buffer (Some name) s = Some (- 1, u\<lparr>vga := v\<rparr>)"
proof -
  have "r < 52 \<or> \<not> elf_validate (Some (ehdr_at (ram u) buffer))"
    using assms(2) by (auto simp add: elf_validate_def ehdr_magic [symmetric]) (auto simp add: ehdr_at_def)
  moreover obtain v w where "elf_report (lit ''[ELF] Error: File too small or not found: '') COLOR_LIGHT_RED name u = u\<lparr>vga := v\<rparr>"
    "elf_report (lit ''[ELF] Error: Invalid 32-bit x86 ELF format: '') COLOR_LIGHT_RED name u = u\<lparr>vga := w\<rparr>"
    using elf_report_screen by metis
  ultimately have "\<exists>v. elf_load_from_vfs hw junk buffer (Some name) (Some 0) s = Some (- 1, Some 0, u\<lparr>vga := v\<rparr>)"
    using assms(1) by (auto simp add: elf_load_from_vfs_def)
  then show ?thesis by (auto simp add: elf_run_def)
qed

theorem elf_rejects_invalid_witness:
  "\<exists>u. elf_run (sim_hw demo_disk) [] 0x5000 (Some [0x61]) demo_vfs = Some (- 1, u)"
proof -
  obtain t where "vfs_read_file (sim_hw demo_disk) [] (Some [0x61]) (Some (\<lambda>i. ram demo_vfs (0x5000 + of_nat i))) 1024 demo_vfs =
      (- 1, Some (\<lambda>i. ram demo_vfs (0x5000 + of_nat i)), t)"
    using vfs_read_file_map [OF demo_mounted, of 1024 "[]" "[0x61]"] by (auto simp add: demo_empty)
  then obtain u where "read_into (sim_hw demo_disk) [] 0x5000 1024 [0x61] demo_vfs = (- 1, u)" by (simp add: read_into_def)
  from elf_rejects_invalid [OF this] show ?thesis by auto
qed

text \<open>C36. Loading a segment builds its image: when the part in the file is no larger than the part in memory and was read in full,
  and the memory allocated does not overlap the buffer, the memory holds the bytes of the file followed by zeros up to the
  size in memory, no other byte changes, and an entry point inside the segment is moved with it.\<close>

theorem elf_segment_image:
  fixes s :: "'a vfs_sys_scheme"
  assumes "phdr_at (ram s) ph = p" and "unat (p_filesz p) \<le> unat (p_memsz p)"
    and "int (unat (p_filesz p)) \<le> read_bytes" and "read_bytes < 1024"
    and "apart (buffer + p_offset p) (unat (p_filesz p)) seg_mem (unat (p_memsz p))"
    and "apart ph 32 seg_mem (unat (p_memsz p))" and "apart buffer 52 seg_mem (unat (p_memsz p))"
  shows "load_segment buffer read_bytes ph seg_mem e s =
    (if p_vaddr p \<le> e_entry (ehdr_at (ram s) buffer) \<and> e_entry (ehdr_at (ram s) buffer) < p_vaddr p + p_memsz p
     then seg_mem + (e_entry (ehdr_at (ram s) buffer) - p_vaddr p) else e,
     s\<lparr>ram := store_bytes (ram s) seg_mem
       (load_bytes (ram s) (buffer + p_offset p) (unat (p_filesz p)) @ replicate (unat (p_memsz p) - unat (p_filesz p)) 0)\<rparr>)"
  using load_segment_image [where s = s and ph = ph] assms by simp

definition demo_file :: bytes where
  "demo_file = replicate 24 0 @ [0x02, 0x80] @ replicate 26 0 @
     [1, 0, 0, 0, 0x60, 0, 0, 0, 0, 0x80, 0, 0, 0, 0, 0, 0, 3, 0, 0, 0, 8, 0, 0, 0] @ replicate 20 0 @ [0x90, 0xF4, 0xC3]"

definition demo_program :: mem where
  "demo_program a = (let i = unat (a - 0x5000) in if i < length demo_file then demo_file ! i else 0)"

lemma demo_program_header:
  "phdr_at demo_program 0x5034 =
     \<lparr>p_type = 1, p_offset = 0x60, p_vaddr = 0x8000, p_paddr = 0, p_filesz = 3, p_memsz = 8, p_flags = 0, p_align = 0\<rparr>"
  "e_entry (ehdr_at demo_program 0x5000) = 0x8002" "load_bytes demo_program 0x5060 3 = [0x90, 0xF4, 0xC3]"
  by code_simp+

theorem elf_segment_image_witness:
  "load_segment 0x5000 0x70 0x5034 0x9000 0 (demo_vfs\<lparr>ram := demo_program\<rparr>) =
     (0x9002, demo_vfs\<lparr>ram := store_bytes demo_program 0x9000 [0x90, 0xF4, 0xC3, 0, 0, 0, 0, 0]\<rparr>)"
proof -
  have "apart 0x5060 3 0x9000 8" "apart 0x5034 32 0x9000 8" "apart 0x5000 52 0x9000 8" by (rule apart_ranges; simp)+
  moreover have zeros: "replicate 5 0 = [0, 0, 0, 0, 0 :: u8]" by (simp add: numeral_eq_Suc)
  moreover have "phdr_at (ram (demo_vfs\<lparr>ram := demo_program\<rparr>)) 0x5034 =
      \<lparr>p_type = 1, p_offset = 0x60, p_vaddr = 0x8000, p_paddr = 0, p_filesz = 3, p_memsz = 8, p_flags = 0, p_align = 0\<rparr>"
    using demo_program_header(1) by simp
  ultimately show ?thesis using elf_segment_image [where s = "demo_vfs\<lparr>ram := demo_program\<rparr>" and ph = "0x5034" and read_bytes = "0x70"
        and buffer = "0x5000" and seg_mem = "0x9000" and e = "0"] demo_program_header(2,3)
    by (simp add: zeros)
qed

end
