(* ===== verification/Shell.thy ===== *)
theory Shell
  imports Elf
begin

text \<open>
  The interactive shell, \<^verbatim>\<open>user_shell_process\<close> of \<^verbatim>\<open>src/kernel/main.c\<close>.

  The variables of the shell are a record of their own, \<open>shell_t\<close>: the line buffer and its fill level, the history of the
  last ten commands and the two counters into it.  An array is a function from the index; what lies behind its last element is
  the memory that follows it, so that reading a string that is not terminated inside the array is described as well.  The shell
  runs in the address space of the kernel and calls kernel functions directly beside its system calls.

  The environment \<open>shell_env\<close> adds to the trap environment the addresses of the locals and of the string literals, and the
  initial contents of uninitialised buffers.  \<open>world\<close> is what happens from a yield of the shell until it runs again.
\<close>

abbreviation MAX_HIST :: nat where "MAX_HIST \<equiv> 10"
abbreviation KEY_UP :: u8 where "KEY_UP \<equiv> 0x80"
abbreviation KEY_DOWN :: u8 where "KEY_DOWN \<equiv> 0x81"

record shell_env = trap_env +
  se_c :: u32
  se_lit :: "bytes \<Rightarrow> u32"
  se_pbuf :: u32
  se_elf_buffer :: u32
  se_junk :: bytes
  se_read_buf :: "nat \<Rightarrow> u8"
  se_fname :: bytes

record shell_t =
  input_buf :: "nat \<Rightarrow> u8"
  buf_idx :: nat
  cmd_history :: "nat \<Rightarrow> nat \<Rightarrow> u8"
  hist_count :: nat
  hist_idx :: nat

text \<open>How a command ends: back to the prompt, on with the loop at once, or not at all.\<close>

datatype shell_flow = Prompt | Again | Gone

section \<open>Helpers\<close>

definition print_shell_prompt :: "'a console_scheme \<Rightarrow> 'a console_scheme" where
  "print_shell_prompt s =
     (let s = con_puts (lit ''user'') COLOR_LIGHT_GREEN s;
          s = con_puts (lit ''@'') COLOR_WHITE s;
          s = con_puts (lit ''humanos'') COLOR_LIGHT_CYAN s;
          s = con_puts (lit '':'') COLOR_WHITE s;
          s = con_puts (lit ''~'') COLOR_YELLOW s
      in con_puts (lit ''$ '') COLOR_WHITE s)"

text \<open>The C string that starts at an index of an array.\<close>

partial_function (option) text_at :: "(nat \<Rightarrow> u8) \<Rightarrow> nat \<Rightarrow> bytes option" where
  "text_at b i = (if b i = 0 then Some [] else do { cs \<leftarrow> text_at b (i + 1); Some (b i # cs) })"

declare text_at.simps [code]

text \<open>\<open>input_buf[0] == 'h' && input_buf[1] == 'e' && \<dots>\<close>\<close>

definition starts_with :: "string \<Rightarrow> (nat \<Rightarrow> u8) \<Rightarrow> bool" where
  "starts_with w b = list_all (\<lambda>k. b k = lit w ! k) [0..<length w]"

text \<open>\<open>sys_write\<close> of a literal, with the count the call passes.\<close>

definition shell_say :: "shell_env \<Rightarrow> bytes \<Rightarrow> u32 \<Rightarrow> 'a vfs_sys_scheme \<Rightarrow> 'a vfs_sys_scheme option" where
  "shell_say env t n s = map_option snd (sys_write (trap_env.truncate env) 1 (se_lit env t) n s)"

definition shell_yield ::
    "('a vfs_sys_scheme \<Rightarrow> 'a vfs_sys_scheme) \<Rightarrow> shell_env \<Rightarrow> 'a vfs_sys_scheme \<Rightarrow> 'a vfs_sys_scheme option" where
  "shell_yield world env s = map_option world (sys_yield (trap_env.truncate env) s)"

section \<open>Commands\<close>

text \<open>What is left of a number after the decimal loop.\<close>

fun dec_rest :: "nat \<Rightarrow> int \<Rightarrow> int" where
  "dec_rest 0 count = count"
| "dec_rest (Suc n) count = (if count > 0 then dec_rest n (count div 10) else count)"

definition cmd_diskinfo :: "'a vfs_sys_scheme \<Rightarrow> 'a vfs_sys_scheme" where
  "cmd_diskinfo s =
     (let s = con_puts (lit ''  ATA Model  : '') COLOR_LIGHT_GREEN s;
          s = con_puts (ata_get_model s) COLOR_WHITE s;
          s = con_puts (ch_nl # lit ''  Sectors    : '') COLOR_LIGHT_GREEN s;
          sc = uint (ata_get_sector_count s);
          s = con_puts (dec_text0 sc) COLOR_WHITE s;
          sc = dec_rest (if sc = 0 then 14 else 15) sc;
          s = con_puts (lit '' LBA Sectors ('') COLOR_WHITE s;
          disk_mb = sc div 2048;
          s = con_puts (dec_text0 disk_mb) COLOR_WHITE s
      in con_puts (lit '' MB)'' @ [ch_nl]) COLOR_WHITE s)"

definition cmd_cat :: "shell_env \<Rightarrow> (nat \<Rightarrow> u8) \<Rightarrow> 'a vfs_sys_scheme \<Rightarrow> 'a vfs_sys_scheme option" where
  "cmd_cat env b s = do {
     fname \<leftarrow> text_at b 4;
     let fname = (if fname = [] then lit ''readme.txt'' else fname);
     let (r, buf, s) = vfs_read_file (te_hw env) (se_junk env) (Some fname) (Some (se_read_buf env)) 512 s;
     if r \<ge> 0
     then do {
       content \<leftarrow> text_at (the buf) 0;
       Some (con_putc ch_nl COLOR_WHITE (con_puts content COLOR_WHITE (con_puts (lit ''  '') COLOR_WHITE s)))
     }
     else shell_say env (lit ''  File not found.'') 17 s
   }"

definition cmd_touch :: "shell_env \<Rightarrow> (nat \<Rightarrow> u8) \<Rightarrow> 'a vfs_sys_scheme \<Rightarrow> 'a vfs_sys_scheme option" where
  "cmd_touch env b s = do {
     fname \<leftarrow> text_at b 6;
     if fname \<noteq> []
     then (let s = snd (vfs_create_file (te_hw env) (Some fname) s)
           in Some (con_putc ch_nl COLOR_WHITE (con_puts fname COLOR_WHITE (con_puts (lit ''  File created: '') COLOR_LIGHT_GREEN s))))
     else Some s
   }"

text \<open>The file name of \<open>write\<close>, at most 31 characters up to a space, and where the text begins.\<close>

definition write_name :: "(nat \<Rightarrow> u8) \<Rightarrow> bytes" where
  "write_name b = takeWhile (\<lambda>c. c \<noteq> ch_sp \<and> c \<noteq> 0) (map b [6..<6 + 31])"

definition write_start :: "(nat \<Rightarrow> u8) \<Rightarrow> nat" where
  "write_start b = (let i = 6 + length (write_name b) in if b i = ch_sp then i + 1 else i)"

definition cmd_write :: "shell_env \<Rightarrow> (nat \<Rightarrow> u8) \<Rightarrow> 'a vfs_sys_scheme \<Rightarrow> 'a vfs_sys_scheme option" where
  "cmd_write env b s = do {
     let fname = write_name b;
     let i = write_start b;
     t \<leftarrow> text_at b i;
     let tlen = length t;
     if length fname > 0 \<and> tlen > 0
     then (let s = snd (vfs_write_file (te_hw env) (Some fname) (\<lambda>j. b (i + j)) (of_nat tlen) s);
               s = con_puts (lit ''  Saved '') COLOR_LIGHT_GREEN s;
               s = con_puts (dec_text (int tlen)) COLOR_WHITE s;
               s = con_puts (lit '' bytes to '') COLOR_LIGHT_GREEN s;
               s = con_puts fname COLOR_WHITE s
           in Some (con_puts (lit '' on disk!'' @ [ch_nl]) COLOR_LIGHT_GREEN s))
     else Some s
   }"

definition cmd_rm :: "shell_env \<Rightarrow> (nat \<Rightarrow> u8) \<Rightarrow> 'a vfs_sys_scheme \<Rightarrow> 'a vfs_sys_scheme option" where
  "cmd_rm env b s = do {
     fname \<leftarrow> text_at b 3;
     if fname \<noteq> []
     then (let (result, s) = vfs_delete_file (te_hw env) (Some fname) s
           in if result = 0
              then Some (con_putc ch_nl COLOR_WHITE (con_puts fname COLOR_WHITE (con_puts (lit ''  File deleted: '') COLOR_LIGHT_GREEN s)))
              else shell_say env (lit ''  File not found.'') 17 s)
     else Some s
   }"

definition cmd_run :: "shell_env \<Rightarrow> (nat \<Rightarrow> u8) \<Rightarrow> 'a vfs_sys_scheme \<Rightarrow> 'a vfs_sys_scheme option" where
  "cmd_run env b s = do {
     fname \<leftarrow> text_at b (if b 0 = 0x72 then 4 else 5);
     if fname \<noteq> [] then map_option snd (elf_run (te_hw env) (se_junk env) (se_elf_buffer env) (Some fname) s)
     else shell_say env (lit ''  Usage: run <filename.elf>'') 27 s
   }"

fun for_each :: "(nat \<Rightarrow> 's \<Rightarrow> 's option) \<Rightarrow> nat list \<Rightarrow> 's \<Rightarrow> 's option" where
  "for_each f [] s = Some s"
| "for_each f (i # is) s = do { s \<leftarrow> f i s; for_each f is s }"

text \<open>The progress number of the stress test: the digits go to \<open>pbuf\<close>, the last one first, and each is written as the string
  that starts there.\<close>

definition stress_progress :: "shell_env \<Rightarrow> nat \<Rightarrow> bytes \<Rightarrow> u32 \<Rightarrow> 'a vfs_sys_scheme \<Rightarrow> 'a vfs_sys_scheme option" where
  "stress_progress env i t n s = do {
     let digits = (if i = 0 then [0x30] else dec_digits 15 (int i));
     let s = s\<lparr>ram := store_bytes (ram s) (se_pbuf env) digits\<rparr>;
     s \<leftarrow> for_each (\<lambda>k s. map_option snd (sys_write (trap_env.truncate env) 1 (se_pbuf env + of_nat k) 1 s))
            (rev [0..<length digits]) s;
     shell_say env t n s
   }"

definition stress_memory ::
    "('a vfs_sys_scheme \<Rightarrow> 'a vfs_sys_scheme) \<Rightarrow> shell_env \<Rightarrow> nat \<Rightarrow> 'a vfs_sys_scheme \<Rightarrow> 'a vfs_sys_scheme option" where
  "stress_memory world env i s = do {
     (ptr, s) \<leftarrow> sys_malloc (trap_env.truncate env) 1024 s;
     s \<leftarrow> (if ptr \<noteq> 0 then sys_free (trap_env.truncate env) ptr s else Some s);
     s \<leftarrow> (if i mod 10 = 0 then stress_progress env i (lit ''/100'' @ [ch_cr]) 6 s else Some s);
     shell_yield world env s
   }"

definition stress_scheduler ::
    "('a vfs_sys_scheme \<Rightarrow> 'a vfs_sys_scheme) \<Rightarrow> shell_env \<Rightarrow> nat \<Rightarrow> 'a vfs_sys_scheme \<Rightarrow> 'a vfs_sys_scheme option" where
  "stress_scheduler world env i s = do {
     s \<leftarrow> (if i mod 10 = 0 then stress_progress env i (lit ''/100'' @ [ch_cr]) 6 s else Some s);
     shell_yield world env s
   }"

definition stress_vfs ::
    "('a vfs_sys_scheme \<Rightarrow> 'a vfs_sys_scheme) \<Rightarrow> shell_env \<Rightarrow> nat \<Rightarrow> 'a vfs_sys_scheme \<Rightarrow> 'a vfs_sys_scheme option" where
  "stress_vfs world env i s = do {
     let name = Some (lit ''stress_test.txt'');
     let s = snd (vfs_create_file (te_hw env) name s);
     let s = snd (vfs_write_file (te_hw env) name (\<lambda>j. (lit ''Stress test data'' @ [0]) ! j) 16 s);
     let (_, _, s) = vfs_read_file (te_hw env) (se_junk env) name (Some (se_read_buf env)) 64 s;
     s \<leftarrow> (if i mod 5 = 0 then stress_progress env i (lit ''/50'' @ [ch_cr]) 5 s else Some s);
     shell_yield world env s
   }"

definition cmd_stress ::
    "('a vfs_sys_scheme \<Rightarrow> 'a vfs_sys_scheme) \<Rightarrow> shell_env \<Rightarrow> 'a vfs_sys_scheme \<Rightarrow> 'a vfs_sys_scheme option" where
  "cmd_stress world env s = do {
     s \<leftarrow> shell_say env (lit ''Starting stress test...'' @ [ch_nl]) 25 s;
     s \<leftarrow> shell_say env (lit ''Test 1: Memory allocation stress'' @ [ch_nl]) 32 s;
     s \<leftarrow> for_each (stress_memory world env) [0..<100] s;
     s \<leftarrow> shell_say env (ch_nl # lit ''Test 1: PASSED'' @ [ch_nl]) 18 s;
     s \<leftarrow> shell_say env (lit ''Test 2: Scheduler stress (rapid yields)'' @ [ch_nl]) 39 s;
     s \<leftarrow> for_each (stress_scheduler world env) [0..<100] s;
     s \<leftarrow> shell_say env (ch_nl # lit ''Test 2: PASSED'' @ [ch_nl]) 18 s;
     s \<leftarrow> shell_say env (lit ''Test 3: VFS stress'' @ [ch_nl]) 20 s;
     s \<leftarrow> for_each (stress_vfs world env) [0..<50] s;
     s \<leftarrow> shell_say env (ch_nl # lit ''Test 3: PASSED'' @ [ch_nl]) 17 s;
     shell_say env (lit ''All stress tests PASSED - No Triple Faults detected'' @ [ch_nl]) 56 s
   }"

text \<open>
  The chain of comparisons.  \<open>exit\<close> returns only if the terminated shell stays the current process, because nothing else
  is READY; shutdown and reboot end in a halted machine.
\<close>

definition shell_command ::
    "('a vfs_sys_scheme \<Rightarrow> 'a vfs_sys_scheme) \<Rightarrow> shell_env \<Rightarrow> (nat \<Rightarrow> u8) \<Rightarrow> 'a vfs_sys_scheme \<Rightarrow>
      (shell_flow \<times> 'a vfs_sys_scheme) option" where
  "shell_command world env b s =
     (if starts_with ''help'' b
      then map_option (Pair Prompt) (shell_say env (lit ''Commands: help, run, exec, ls, cat, touch, write, rm, diskinfo, sysinfo, whoami, hostname, uname, clear, ps, stress, reboot, shutdown, exit'') 138 s)
      else if starts_with ''run'' b \<or> starts_with ''exec'' b then map_option (Pair Prompt) (cmd_run env b s)
      else if starts_with ''ls'' b then Some (Prompt, vfs_list_files (te_hw env) s)
      else if starts_with ''disk'' b then Some (Prompt, cmd_diskinfo s)
      else if starts_with ''cat'' b then map_option (Pair Prompt) (cmd_cat env b s)
      else if starts_with ''touch'' b then map_option (Pair Prompt) (cmd_touch env b s)
      else if starts_with ''write'' b then map_option (Pair Prompt) (cmd_write env b s)
      else if starts_with ''rm'' b then map_option (Pair Prompt) (cmd_rm env b s)
      else if starts_with ''whoami'' b then map_option (Pair Prompt) (shell_say env (lit ''user'') 4 s)
      else if starts_with ''hostname'' b then map_option (Pair Prompt) (shell_say env (lit ''humanos'') 7 s)
      else if starts_with ''uname'' b
      then map_option (Pair Prompt) (shell_say env (lit ''HumanOS 0.0.1 i686 GNU/HumanOS (x86 Ring 3)'') 43 s)
      else if starts_with ''sysinfo'' b then Some (Prompt, cpu_print_info (te_hw env) s)
      else if starts_with ''ver'' b
      then map_option (Pair Prompt) (shell_say env (lit ''HumanOS v0.0.1 (x86 Ring 3 Userland)'') 36 s)
      else if starts_with ''clear'' b then Some (Again, print_shell_prompt (s\<lparr>vga := vga_clear (vga s)\<rparr>))
      else if starts_with ''ps'' b
      then map_option (Pair Prompt) (shell_say env (lit ''Active Processes: PID 1 (Kernel), PID 2 (UserShell)'') 51 s)
      else if starts_with ''stress'' b then map_option (Pair Prompt) (cmd_stress world env s)
      else if starts_with ''reboot'' b then map_option (Pair Gone) (sys_reboot (trap_env.truncate env) s)
      else if starts_with ''shutdown'' b then map_option (Pair Gone) (sys_shutdown (trap_env.truncate env) s)
      else if starts_with ''exit'' b
      then do {
        s \<leftarrow> shell_say env (lit ''Exiting Shell...'') 16 s;
        t \<leftarrow> sys_exit (trap_env.truncate env) 0 s;
        Some (if current_process t = current_process s then Prompt else Gone, t)
      }
      else map_option (Pair Prompt) (shell_say env (lit ''Unknown command. Type '' @ [ch_quote] @ lit ''help'' @ [ch_quote, 0x2E]) 29 s))"

section \<open>Keys\<close>

text \<open>Echo of a line of text, and taking \<open>n\<close> characters off the screen.\<close>

definition erase_chars :: "nat \<Rightarrow> 'a console_scheme \<Rightarrow> 'a console_scheme" where
  "erase_chars n s =
     fold (\<lambda>_ s. con_putc ch_bs COLOR_WHITE (con_putc ch_sp COLOR_WHITE (con_putc ch_bs COLOR_WHITE s))) [0..<n] s"

text \<open>\<open>while (src[k] != 0 && k < 63) dst[k] = src[k]; dst[k] = 0\<close>: the final \<open>k\<close> and the array.\<close>

definition line_length :: "(nat \<Rightarrow> u8) \<Rightarrow> nat" where
  "line_length src = length (takeWhile (\<lambda>c. c \<noteq> 0) (map src [0..<63]))"

definition copy_line :: "(nat \<Rightarrow> u8) \<Rightarrow> (nat \<Rightarrow> u8) \<Rightarrow> (nat \<Rightarrow> u8)" where
  "copy_line src dst = (fold (\<lambda>k d. d(k := src k)) [0..<line_length src] dst)(line_length src := 0)"

definition save_history :: "shell_t \<Rightarrow> shell_t" where
  "save_history sh =
     (let slot = hist_count sh mod MAX_HIST;
          sh = sh\<lparr>cmd_history := (cmd_history sh)(slot := copy_line (input_buf sh) (cmd_history sh slot))\<rparr>;
          sh = sh\<lparr>hist_count := hist_count sh + 1\<rparr>
      in sh\<lparr>hist_idx := hist_count sh\<rparr>)"

definition key_enter ::
    "('a vfs_sys_scheme \<Rightarrow> 'a vfs_sys_scheme) \<Rightarrow> shell_env \<Rightarrow> shell_t \<Rightarrow> 'a vfs_sys_scheme \<Rightarrow>
      (bool \<times> shell_t \<times> 'a vfs_sys_scheme) option" where
  "key_enter world env sh s =
     (let s = con_putc ch_nl COLOR_WHITE s;
          sh = sh\<lparr>input_buf := (input_buf sh)(buf_idx sh := 0)\<rparr>
      in if buf_idx sh > 0
         then
           (let sh = save_history sh;
                s = con_putc ch_nl COLOR_WHITE s
            in case shell_command world env (input_buf sh) s of
                 None \<Rightarrow> None
               | Some (Gone, s) \<Rightarrow> Some (False, sh, s)
               | Some (Again, s) \<Rightarrow> Some (True, sh\<lparr>buf_idx := 0\<rparr>, s)
               | Some (Prompt, s) \<Rightarrow>
                   Some (True, sh\<lparr>buf_idx := 0\<rparr>, print_shell_prompt (con_putc ch_nl COLOR_WHITE s)))
         else Some (True, sh\<lparr>buf_idx := 0\<rparr>, print_shell_prompt s))"

definition key_backspace :: "shell_t \<Rightarrow> 'a console_scheme \<Rightarrow> shell_t \<times> 'a console_scheme" where
  "key_backspace sh s = (if buf_idx sh > 0 then (sh\<lparr>buf_idx := buf_idx sh - 1\<rparr>, erase_chars 1 s) else (sh, s))"

text \<open>The command at \<open>hist_idx\<close> becomes the input line, on the screen too.\<close>

definition recall_line :: "shell_t \<Rightarrow> 'a console_scheme \<Rightarrow> shell_t \<times> 'a console_scheme" where
  "recall_line sh s =
     (let slot = hist_idx sh mod MAX_HIST;
          k = line_length (cmd_history sh slot)
      in (sh\<lparr>input_buf := copy_line (cmd_history sh slot) (input_buf sh), buf_idx := k\<rparr>,
          con_puts (map (cmd_history sh slot) [0..<k]) COLOR_WHITE s))"

definition key_up :: "shell_t \<Rightarrow> 'a console_scheme \<Rightarrow> shell_t \<times> 'a console_scheme" where
  "key_up sh s =
     (if hist_count sh > 0 \<and> hist_idx sh > 0
      then recall_line (sh\<lparr>hist_idx := hist_idx sh - 1, buf_idx := 0\<rparr>) (erase_chars (buf_idx sh) s)
      else (sh, s))"

definition key_down :: "shell_t \<Rightarrow> 'a console_scheme \<Rightarrow> shell_t \<times> 'a console_scheme" where
  "key_down sh s =
     (if hist_idx sh < hist_count sh
      then
        (let s = erase_chars (buf_idx sh) s;
             sh = sh\<lparr>hist_idx := hist_idx sh + 1, buf_idx := 0\<rparr>
         in if hist_idx sh < hist_count sh then recall_line sh s
            else (sh\<lparr>buf_idx := 0, input_buf := (input_buf sh)(0 := 0)\<rparr>, s))
      else (sh, s))"

definition shell_cmds :: "bytes list" where
  "shell_cmds = map lit [''help'', ''ls'', ''cat'', ''touch'', ''write'', ''diskinfo'', ''sysinfo'', ''whoami'',
     ''hostname'', ''uname'', ''clear'', ''ps'', ''reboot'', ''shutdown'', ''exit'']"

text \<open>The first \<open>n\<close> characters of an array agree with a C string; the comparison stops at the first difference, and so never goes
  past the NUL of the string as long as the array holds none.\<close>

definition is_match :: "(nat \<Rightarrow> u8) \<Rightarrow> nat \<Rightarrow> bytes \<Rightarrow> bool" where
  "is_match b n t = list_all (\<lambda>k. k \<le> length t \<and> b k = (t @ [0]) ! k) [0..<n]"

definition complete_command :: "shell_t \<Rightarrow> 'a console_scheme \<Rightarrow> shell_t \<times> 'a console_scheme" where
  "complete_command sh s =
     (case filter (is_match (input_buf sh) (buf_idx sh)) shell_cmds of
        [m] \<Rightarrow>
          (let sh' = sh\<lparr>input_buf := fold (\<lambda>k b. b(k := m ! k)) [buf_idx sh..<length m] (input_buf sh),
                        buf_idx := max (buf_idx sh) (length m)\<rparr>;
               s = con_puts (drop (buf_idx sh) m) COLOR_WHITE s;
               (sh', s) = (if buf_idx sh' < 63
                           then (sh'\<lparr>input_buf := (input_buf sh')(buf_idx sh' := ch_sp), buf_idx := buf_idx sh' + 1\<rparr>,
                                 con_putc ch_sp COLOR_WHITE s)
                           else (sh', s))
           in (sh'\<lparr>input_buf := (input_buf sh')(buf_idx sh' := 0)\<rparr>, s))
      | _ \<Rightarrow> (sh, s))"

text \<open>Appending characters one by one while there is room.\<close>

definition type_char :: "u8 \<Rightarrow> shell_t \<times> 'a console_scheme \<Rightarrow> shell_t \<times> 'a console_scheme" where
  "type_char c st =
     (let (sh, s) = st
      in if buf_idx sh < 63
         then (sh\<lparr>input_buf := (input_buf sh)(buf_idx sh := c), buf_idx := buf_idx sh + 1\<rparr>, con_putc c COLOR_WHITE s)
         else (sh, s))"

text \<open>The name of a used entry of the file table as \<open>vfs_get_filename\<close> stores it into \<open>fname\<close>.\<close>

definition shell_filename :: "shell_env \<Rightarrow> 'a vfs_sys_scheme \<Rightarrow> nat \<Rightarrow> bytes option" where
  "shell_filename env s i =
     (case vfs_get_filename (int i) (Some (se_fname env)) s of
        (r, fname) \<Rightarrow> if r \<noteq> 0 then map_option (takeWhile (\<lambda>c. c \<noteq> 0)) fname else None)"

definition complete_file :: "shell_env \<Rightarrow> nat \<Rightarrow> shell_t \<Rightarrow> 'a vfs_sys_scheme \<Rightarrow> (shell_t \<times> 'a vfs_sys_scheme) option" where
  "complete_file env space_pos sh s = do {
     arg \<leftarrow> text_at (input_buf sh) (space_pos + 1);
     let names = List.map_filter (shell_filename env s) [0..<MAX_FILES];
     let fits = filter (is_match (\<lambda>k. arg ! k) (length arg)) names;
     (case fits of
        [m] \<Rightarrow>
          (let (sh, s) = fold type_char (drop (length arg) m) (sh, s)
           in Some (sh\<lparr>input_buf := (input_buf sh)(buf_idx sh := 0)\<rparr>, s))
      | _ \<Rightarrow> Some (sh, s))
   }"

definition key_tab :: "shell_env \<Rightarrow> shell_t \<Rightarrow> 'a vfs_sys_scheme \<Rightarrow> (shell_t \<times> 'a vfs_sys_scheme) option" where
  "key_tab env sh s =
     (if buf_idx sh > 0
      then
        (let sh = sh\<lparr>input_buf := (input_buf sh)(buf_idx sh := 0)\<rparr>
         in case List.find (\<lambda>i. input_buf sh i = ch_sp) [0..<buf_idx sh] of
              None \<Rightarrow> Some (complete_command sh s)
            | Some space_pos \<Rightarrow> complete_file env space_pos sh s)
      else Some (sh, s))"

text \<open>One key; the Boolean says whether the shell goes on.\<close>

definition shell_key ::
    "('a vfs_sys_scheme \<Rightarrow> 'a vfs_sys_scheme) \<Rightarrow> shell_env \<Rightarrow> u8 \<Rightarrow> shell_t \<Rightarrow> 'a vfs_sys_scheme \<Rightarrow>
      (bool \<times> shell_t \<times> 'a vfs_sys_scheme) option" where
  "shell_key world env c sh s =
     (if c = ch_cr \<or> c = ch_nl then key_enter world env sh s
      else if c = ch_bs then Some (True, key_backspace sh s)
      else if c = KEY_UP then Some (True, key_up sh s)
      else if c = KEY_DOWN then Some (True, key_down sh s)
      else if c = ch_tab then map_option (Pair True) (key_tab env sh s)
      else Some (True, type_char c (sh, s)))"

text \<open>One turn of the main loop.\<close>

definition shell_step ::
    "('a vfs_sys_scheme \<Rightarrow> 'a vfs_sys_scheme) \<Rightarrow> shell_env \<Rightarrow> shell_t \<Rightarrow> 'a vfs_sys_scheme \<Rightarrow>
      (bool \<times> shell_t \<times> 'a vfs_sys_scheme) option" where
  "shell_step world env sh s = do {
     let s = s\<lparr>ram := (ram s)(se_c env := 0)\<rparr>;
     (n, s) \<leftarrow> sys_read (trap_env.truncate env) 0 (se_c env) 1 s;
     if sint n > 0 then shell_key world env (ram s (se_c env)) sh s
     else map_option (\<lambda>s. (True, sh, s)) (shell_yield world env s)
   }"

text \<open>What runs before the loop.\<close>

definition shell_start :: "shell_env \<Rightarrow> shell_t \<Rightarrow> 'a vfs_sys_scheme \<Rightarrow> (shell_t \<times> 'a vfs_sys_scheme) option" where
  "shell_start env sh s = do {
     s \<leftarrow> shell_say env (lit ''Type '' @ [ch_quote] @ lit ''help'' @ [ch_quote] @ lit '' for commands list.'' @ [ch_nl, ch_nl]) 32 s;
     Some (sh\<lparr>buf_idx := 0\<rparr>, print_shell_prompt s)
   }"

end
