(* ===== verification/Shell_Props.thy ===== *)
theory Shell_Props
  imports Shell
begin

text \<open>
  The shell keeps within its buffers, edits its line like a line editor, recalls what was entered, and its \<open>write\<close> command
  stores a file.
\<close>

section \<open>Lines and buffers\<close>

lemma line_length_le: "line_length src \<le> 63"
  using length_takeWhile_le [of "\<lambda>c. c \<noteq> 0" "map src [0..<63]"] by (simp add: line_length_def del: upt_rec_numeral)

lemma line_length_nz:
  assumes "j < line_length src"
  shows "src j \<noteq> 0"
proof -
  have j: "j < length (takeWhile (\<lambda>c. c \<noteq> 0) (map src [0..<63]))" using assms by (simp add: line_length_def del: upt_rec_numeral)
  have "j < 63" using assms line_length_le [of src] by simp
  then have "takeWhile (\<lambda>c. c \<noteq> 0) (map src [0..<63]) ! j = src j" using takeWhile_nth [OF j] by (simp del: upt_rec_numeral)
  then show ?thesis using nth_mem [OF j] set_takeWhileD by metis
qed

lemma line_length_eq:
  assumes "n \<le> 63" and "\<And>j. j < n \<Longrightarrow> src j \<noteq> 0" and "n < 63 \<Longrightarrow> src n = 0"
  shows "line_length src = n"
proof (rule antisym)
  show "line_length src \<le> n"
  proof (rule ccontr)
    assume "\<not> line_length src \<le> n"
    then have "n < line_length src" "n < 63" using line_length_le [of src] by linarith+
    then show False using line_length_nz assms(3) by blast
  qed
next
  show "n \<le> line_length src"
  proof (rule ccontr)
    assume short: "\<not> n \<le> line_length src"
    then have "line_length src < 63" using assms(1) by simp
    then have "src (line_length src) = 0"
      using nth_length_takeWhile [of "\<lambda>c. c \<noteq> 0" "map src [0..<63]"] by (simp add: line_length_def del: upt_rec_numeral)
    then show False using short assms(2) [of "line_length src"] by simp
  qed
qed

lemma copy_line_at:
  "copy_line src dst j = (if j < line_length src then src j else if j = line_length src then 0 else dst j)"
  by (simp add: copy_line_def fold_fill_range)

lemma copy_line_beyond: "copy_line src dst (64 + j) = dst (64 + j)"
  using line_length_le [of src] by (simp add: copy_line_at)

text \<open>
  \<open>sh_ok g sh\<close>: the fill level leaves room for the NUL, the history position is one of the commands entered or the next, and
  nothing outside the 64 bytes of the line buffer and the ten rows of 64 bytes of the history differs from \<open>g\<close>.
\<close>

definition sh_ok :: "shell_t \<Rightarrow> shell_t \<Rightarrow> bool" where
  "sh_ok g sh \<longleftrightarrow>
     buf_idx sh \<le> 63 \<and> hist_idx sh \<le> hist_count sh \<and>
     (\<forall>j. input_buf sh (64 + j) = input_buf g (64 + j)) \<and>
     (\<forall>r j. cmd_history sh r (64 + j) = cmd_history g r (64 + j) \<and> cmd_history sh (10 + r) j = cmd_history g (10 + r) j)"

named_theorems sh_ok_intros "an operation of the shell keeps within the buffers"

lemma sh_ok_terminate [sh_ok_intros]: "sh_ok g sh \<Longrightarrow> sh_ok g (sh\<lparr>input_buf := (input_buf sh)(buf_idx sh := 0)\<rparr>)"
  by (auto simp add: sh_ok_def)

lemma sh_ok_idx [sh_ok_intros]: "sh_ok g sh \<Longrightarrow> sh_ok g (sh\<lparr>buf_idx := 0\<rparr>)"
  by (simp add: sh_ok_def)

lemma save_history_ok [sh_ok_intros]: "sh_ok g sh \<Longrightarrow> sh_ok g (save_history sh)"
  by (auto simp add: sh_ok_def save_history_def Let_def copy_line_beyond)

lemma recall_line_ok [sh_ok_intros]: "sh_ok g sh \<Longrightarrow> sh_ok g (fst (recall_line sh s))"
  using line_length_le [of "cmd_history sh (hist_idx sh mod 10)"]
  by (simp add: recall_line_def Let_def sh_ok_def copy_line_beyond)

lemma key_up_ok [sh_ok_intros]:
  assumes "sh_ok g sh"
  shows "sh_ok g (fst (key_up sh s))"
proof -
  have "sh_ok g (sh\<lparr>hist_idx := hist_idx sh - 1, buf_idx := 0\<rparr>)" using assms by (auto simp add: sh_ok_def)
  then show ?thesis using assms by (simp add: key_up_def recall_line_ok)
qed

lemma key_down_ok [sh_ok_intros]:
  assumes "sh_ok g sh"
  shows "sh_ok g (fst (key_down sh s))"
proof -
  have "sh_ok g (sh\<lparr>hist_idx := Suc (hist_idx sh), buf_idx := 0\<rparr>)"
    "sh_ok g (sh\<lparr>hist_idx := Suc (hist_idx sh), buf_idx := 0, input_buf := (input_buf sh)(0 := 0)\<rparr>)"
    if "hist_idx sh < hist_count sh"
    using assms that by (simp_all add: sh_ok_def)
  then show ?thesis using assms by (simp add: key_down_def Let_def recall_line_ok)
qed

lemma key_backspace_ok [sh_ok_intros]: "sh_ok g sh \<Longrightarrow> sh_ok g (fst (key_backspace sh s))"
  by (auto simp add: key_backspace_def sh_ok_def)

lemma type_char_ok [sh_ok_intros]: "sh_ok g (fst st) \<Longrightarrow> sh_ok g (fst (type_char c st))"
  by (auto simp add: type_char_def sh_ok_def split: prod.split)

lemma type_chars_ok [sh_ok_intros]: "sh_ok g (fst st) \<Longrightarrow> sh_ok g (fst (fold type_char cs st))"
  by (induction cs arbitrary: st) (simp_all add: type_char_ok)

lemma shell_cmds_short: "m \<in> set shell_cmds \<Longrightarrow> length m \<le> 8"
  by (auto simp add: shell_cmds_def lit_def)

lemma complete_command_ok [sh_ok_intros]:
  assumes "sh_ok g sh"
  shows "sh_ok g (fst (complete_command sh s))"
proof (cases "filter (is_match (input_buf sh) (buf_idx sh)) shell_cmds")
  case Nil
  then show ?thesis using assms by (simp add: complete_command_def)
next
  case (Cons m ms)
  have "m \<in> set (filter (is_match (input_buf sh) (buf_idx sh)) shell_cmds)" using Cons by simp
  then have "length m \<le> 8" using shell_cmds_short by simp
  then have "max (buf_idx sh) (length m) \<le> 63" using assms by (simp add: sh_ok_def)
  then show ?thesis using assms Cons \<open>length m \<le> 8\<close>
    by (cases ms) (auto simp add: complete_command_def Let_def sh_ok_def fold_fill_range)
qed

lemma complete_file_ok:
  assumes "sh_ok g sh" and "complete_file env p sh s = Some (sh', t)"
  shows "sh_ok g sh'"
proof -
  obtain arg where arg: "text_at (input_buf sh) (p + 1) = Some arg"
    using assms(2) by (auto simp add: complete_file_def bind_eq_Some_conv)
  define fits where "fits = filter (is_match (\<lambda>k. arg ! k) (length arg)) (List.map_filter (shell_filename env s) [0..<MAX_FILES])"
  have eq: "Some (sh', t) = (case fits of [m] \<Rightarrow> (let (sh, s) = fold type_char (drop (length arg) m) (sh, s)
      in Some (sh\<lparr>input_buf := (input_buf sh)(buf_idx sh := 0)\<rparr>, s)) | _ \<Rightarrow> Some (sh, s))"
    using assms(2) arg by (simp add: complete_file_def fits_def Let_def)
  show ?thesis
  proof (cases "\<exists>m. fits = [m]")
    case True
    then obtain m where "fits = [m]" by blast
    then have "sh' = (let sh = fst (fold type_char (drop (length arg) m) (sh, s))
        in sh\<lparr>input_buf := (input_buf sh)(buf_idx sh := 0)\<rparr>)" using eq by (simp add: case_prod_beta Let_def)
    then show ?thesis using assms(1) by (auto simp add: Let_def intro!: sh_ok_intros)
  next
    case False
    then have "sh' = sh" using eq by (simp split: list.splits)
    then show ?thesis using assms(1) by simp
  qed
qed

lemma key_tab_ok:
  assumes "sh_ok g sh" and "key_tab env sh s = Some (sh', t)"
  shows "sh_ok g sh'"
proof -
  have ok: "sh_ok g (sh\<lparr>input_buf := (input_buf sh)(buf_idx sh := 0)\<rparr>)" by (rule sh_ok_terminate [OF assms(1)])
  show ?thesis using assms complete_command_ok [OF ok, of s] complete_file_ok [OF ok]
    by (auto simp add: key_tab_def Let_def split: if_splits option.splits)
qed

lemma key_enter_ok:
  assumes "sh_ok g sh" and "key_enter world env sh s = Some (b, sh', t)"
  shows "sh_ok g sh'"
proof -
  have "sh_ok g (sh\<lparr>input_buf := (input_buf sh)(buf_idx sh := 0)\<rparr>)" by (rule sh_ok_terminate [OF assms(1)])
  then show ?thesis using assms(2) save_history_ok sh_ok_idx
    by (auto simp add: key_enter_def Let_def split: if_splits option.splits shell_flow.splits)
qed

lemma shell_key_ok:
  assumes "sh_ok g sh" and "shell_key world env c sh s = Some (b, sh', t)"
  shows "sh_ok g sh'"
  using assms key_enter_ok key_tab_ok key_backspace_ok [of g sh s] key_up_ok [of g sh s] key_down_ok [of g sh s]
    type_char_ok [of g "(sh, s)" c]
  by (auto simp add: shell_key_def split: if_splits)

lemma shell_step_ok:
  assumes "sh_ok g sh" and "shell_step world env sh s = Some (b, sh', t)"
  shows "sh_ok g sh'"
  using assms shell_key_ok by (auto simp add: shell_step_def bind_eq_Some_conv split: if_splits)

text \<open>The states the shell goes through.\<close>

inductive shell_reach ::
    "('a vfs_sys_scheme \<Rightarrow> 'a vfs_sys_scheme) \<Rightarrow> shell_env \<Rightarrow> shell_t \<Rightarrow> 'a vfs_sys_scheme \<Rightarrow> shell_t \<Rightarrow> 'a vfs_sys_scheme \<Rightarrow> bool"
  for world env sh0 s0 where
  start: "shell_start env sh0 s0 = Some (sh, s) \<Longrightarrow> shell_reach world env sh0 s0 sh s"
| step: "shell_reach world env sh0 s0 sh s \<Longrightarrow> shell_step world env sh s = Some (True, sh', t) \<Longrightarrow>
    shell_reach world env sh0 s0 sh' t"

lemma shell_reach_ok:
  assumes "shell_reach world env sh0 s0 sh s" and "hist_idx sh0 \<le> hist_count sh0"
  shows "sh_ok sh0 sh"
  using assms
proof (induction rule: shell_reach.induct)
  case (start sh s)
  then show ?case by (auto simp add: shell_start_def sh_ok_def bind_eq_Some_conv)
next
  case (step sh s sh' t)
  then show ?case using shell_step_ok by blast
qed

section \<open>Editing the line\<close>

text \<open>The line that a sequence of keys makes of a line, in an editor that holds at most \<open>cap\<close> characters.\<close>

fun edit_keys :: "nat \<Rightarrow> bytes \<Rightarrow> bytes \<Rightarrow> bytes" where
  "edit_keys cap l [] = l"
| "edit_keys cap l (k # ks) =
     edit_keys cap (if k = ch_bs then butlast l else if length l < cap then l @ [k] else l) ks"

lemma edit_keys_length: "length l \<le> cap \<Longrightarrow> length (edit_keys cap l ks) \<le> cap"
  by (induction ks arbitrary: l) auto

lemma edit_keys_text: "ch_bs \<notin> set ks \<Longrightarrow> length l + length ks \<le> cap \<Longrightarrow> edit_keys cap l ks = l @ ks"
  by (induction ks arbitrary: l) auto

text \<open>What a line buffer promises to the one who types into it.\<close>

locale line_buffer =
  fixes line :: "'s \<Rightarrow> bytes" and put :: "u8 \<Rightarrow> 's \<Rightarrow> 's" and undo :: "'s \<Rightarrow> 's" and cap :: nat and ok :: "'s \<Rightarrow> bool"
  assumes line_put: "ok s \<Longrightarrow> line (put c s) = (if length (line s) < cap then line s @ [c] else line s)"
    and line_undo: "ok s \<Longrightarrow> line (undo s) = butlast (line s)"
    and ok_put: "ok s \<Longrightarrow> ok (put c s)"
    and ok_undo: "ok s \<Longrightarrow> ok (undo s)"
begin

lemma keys_ok: "ok s \<Longrightarrow> ok (fold (\<lambda>k. if k = ch_bs then undo else put k) ks s)"
  by (induction ks arbitrary: s) (simp_all add: ok_put ok_undo)

lemma keys_line: "ok s \<Longrightarrow> line (fold (\<lambda>k. if k = ch_bs then undo else put k) ks s) = edit_keys cap (line s) ks"
  by (induction ks arbitrary: s) (simp_all add: ok_put ok_undo line_put line_undo)

end

definition line_text :: "shell_t \<Rightarrow> bytes" where
  "line_text sh = map (input_buf sh) [0..<buf_idx sh]"

lemma line_text_length [simp]: "length (line_text sh) = buf_idx sh"
  by (simp add: line_text_def)

lemma line_text_type: "buf_idx sh < 63 \<Longrightarrow> line_text (fst (type_char c (sh, s))) = line_text sh @ [c]"
  by (simp add: line_text_def type_char_def)

lemma line_text_back: "line_text (fst (key_backspace sh s)) = butlast (line_text sh)"
  by (cases "buf_idx sh") (simp_all add: line_text_def key_backspace_def)

interpretation shell_line: line_buffer "\<lambda>st :: shell_t \<times> 'a console_scheme. line_text (fst st)" type_char
    "\<lambda>st. key_backspace (fst st) (snd st)" 63 "\<lambda>st. buf_idx (fst st) \<le> 63"
proof
  fix st :: "shell_t \<times> 'a console_scheme" and c
  assume ok: "buf_idx (fst st) \<le> 63"
  show "line_text (fst (type_char c st)) = (if length (line_text (fst st)) < 63 then line_text (fst st) @ [c] else line_text (fst st))"
    using line_text_type [of "fst st" c "snd st"] by (auto simp add: type_char_def case_prod_beta)
  show "line_text (fst (key_backspace (fst st) (snd st))) = butlast (line_text (fst st))" by (rule line_text_back)
  show "buf_idx (fst (type_char c st)) \<le> 63" using ok by (auto simp add: type_char_def split: prod.split)
  show "buf_idx (fst (key_backspace (fst st) (snd st))) \<le> 63" using ok by (auto simp add: key_backspace_def)
qed

text \<open>A sequence of keys, as long as the shell goes on.\<close>

fun shell_keys ::
    "('a vfs_sys_scheme \<Rightarrow> 'a vfs_sys_scheme) \<Rightarrow> shell_env \<Rightarrow> bytes \<Rightarrow> shell_t \<Rightarrow> 'a vfs_sys_scheme \<Rightarrow>
      (bool \<times> shell_t \<times> 'a vfs_sys_scheme) option" where
  "shell_keys world env [] sh s = Some (True, sh, s)"
| "shell_keys world env (k # ks) sh s =
     (case shell_key world env k sh s of
        Some (True, sh, s) \<Rightarrow> shell_keys world env ks sh s
      | r \<Rightarrow> r)"

definition plain_key :: "u8 \<Rightarrow> bool" where
  "plain_key k \<longleftrightarrow> k \<notin> {ch_cr, ch_nl, KEY_UP, KEY_DOWN, ch_tab}"

lemma shell_keys_fold:
  assumes "\<forall>k \<in> set ks. plain_key k"
  shows "shell_keys world env ks sh s =
    Some (True, fold (\<lambda>k. if k = ch_bs then \<lambda>st. key_backspace (fst st) (snd st) else type_char k) ks (sh, s))"
  using assms
proof (induction ks arbitrary: sh s)
  case Nil
  then show ?case by simp
next
  case (Cons k ks)
  define st where "st = (if k = ch_bs then key_backspace sh s else type_char k (sh, s))"
  have "shell_key world env k sh s = Some (True, st)" using Cons.prems by (simp add: shell_key_def plain_key_def st_def)
  moreover have "shell_keys world env ks (fst st) (snd st) =
      Some (True, fold (\<lambda>k. if k = ch_bs then \<lambda>st. key_backspace (fst st) (snd st) else type_char k) ks st)"
    using Cons.IH [of "fst st" "snd st"] Cons.prems by simp
  ultimately show ?case by (cases st) (auto simp add: st_def)
qed

text \<open>Typing changes the screen only.\<close>

lemma vga_same: "s = s\<lparr>vga := vga s\<rparr>"
  by simp

lemma type_screen: "\<exists>v. snd (type_char c st) = (snd st)\<lparr>vga := v\<rparr>" "\<exists>v. snd (key_backspace (fst st) (snd st)) = (snd st)\<lparr>vga := v\<rparr>"
proof -
  show "\<exists>v. snd (type_char c st) = (snd st)\<lparr>vga := v\<rparr>"
    by (auto simp add: type_char_def con_putc_def split: prod.split) (metis vga_same)
  show "\<exists>v. snd (key_backspace (fst st) (snd st)) = (snd st)\<lparr>vga := v\<rparr>"
    by (auto simp add: key_backspace_def erase_chars_def con_putc_def) (metis vga_same)
qed

lemma keys_screen:
  "\<exists>v. snd (fold (\<lambda>k. if k = ch_bs then \<lambda>st. key_backspace (fst st) (snd st) else type_char k) ks st) = (snd st)\<lparr>vga := v\<rparr>"
proof (induction ks arbitrary: st)
  case Nil
  then show ?case by (metis fold_simps(1) vga_same)
next
  case (Cons k ks)
  define st' where "st' = (if k = ch_bs then key_backspace (fst st) (snd st) else type_char k st)"
  have "\<exists>v. snd st' = (snd st)\<lparr>vga := v\<rparr>"
    unfolding st'_def using type_screen(1) [of k st] type_screen(2) [of st] by (cases "k = ch_bs") simp_all
  then obtain v where v: "snd st' = (snd st)\<lparr>vga := v\<rparr>" by blast
  show ?case using Cons.IH [of st'] v by (simp add: st'_def split: if_splits)
qed

lemma shell_keys_line:
  assumes "\<forall>k \<in> set ks. plain_key k" and "buf_idx sh \<le> 63"
  obtains sh' v where "shell_keys world env ks sh s = Some (True, sh', s\<lparr>vga := v\<rparr>)"
    "line_text sh' = edit_keys 63 (line_text sh) ks" "buf_idx sh' \<le> 63"
proof -
  define st where "st = fold (\<lambda>k. if k = ch_bs then \<lambda>st. key_backspace (fst st) (snd st) else type_char k) ks (sh, s)"
  obtain v where v: "snd st = s\<lparr>vga := v\<rparr>" using keys_screen [of ks "(sh, s)"] by (auto simp add: st_def)
  have "shell_keys world env ks sh s = Some (True, st)" unfolding st_def by (rule shell_keys_fold [OF assms(1)])
  then have "shell_keys world env ks sh s = Some (True, fst st, s\<lparr>vga := v\<rparr>)" unfolding v [symmetric] by simp
  then show ?thesis
    using that [of "fst st" v] shell_line.keys_line [of "(sh, s)" ks] shell_line.keys_ok [of "(sh, s)" ks] assms(2)
    by (simp add: st_def)
qed

lemma shell_keys_append:
  "shell_keys world env ks sh s = Some (True, sh', s') \<Longrightarrow>
    shell_keys world env (ks @ ls) sh s = shell_keys world env ls sh' s'"
  by (induction ks arbitrary: sh s) (auto split: option.splits bool.splits)

section \<open>The write command\<close>

lemma text_at_ok:
  "\<forall>k < length cs. b (i + k) = cs ! k \<Longrightarrow> b (i + length cs) = 0 \<Longrightarrow> 0 \<notin> set cs \<Longrightarrow> text_at b i = Some cs"
proof (induction cs arbitrary: i)
  case Nil
  then show ?case by (subst text_at.simps) simp
next
  case (Cons c cs)
  have "b i = c" using Cons.prems(1) by force
  moreover have "\<forall>k < length cs. b (Suc i + k) = cs ! k" using Cons.prems(1) by force
  ultimately show ?case using Cons.IH [of "Suc i"] Cons.prems(2,3) by (subst text_at.simps) auto
qed

text \<open>The line in the buffer when Enter has been pressed.\<close>

lemma entered_line:
  assumes "k \<le> buf_idx sh"
  shows "((input_buf sh)(buf_idx sh := 0)) k = (line_text sh @ [0]) ! k"
  using assms by (auto simp add: line_text_def nth_append)

definition write_line :: "bytes \<Rightarrow> bytes \<Rightarrow> bytes" where
  "write_line name txt = lit ''write '' @ name @ [ch_sp] @ txt"

lemma write_line_parts:
  assumes "\<And>k. k \<le> length (write_line name txt) \<Longrightarrow> b k = (write_line name txt @ [0]) ! k"
  shows "k < 6 \<Longrightarrow> b k = lit ''write '' ! k" and "k < length name \<Longrightarrow> b (6 + k) = name ! k"
    and "b (6 + length name) = ch_sp" and "k < length txt \<Longrightarrow> b (7 + length name + k) = txt ! k"
    and "b (7 + length name + length txt) = 0"
proof -
  have l: "length (lit ''write '') = 6" by (simp add: lit_def)
  have len: "length (write_line name txt) = 7 + length name + length txt" by (simp add: write_line_def l)
  show "k < 6 \<Longrightarrow> b k = lit ''write '' ! k" using assms [of k] len by (simp add: write_line_def nth_append l)
  show "k < length name \<Longrightarrow> b (6 + k) = name ! k" using assms [of "6 + k"] len by (simp add: write_line_def nth_append l)
  show "b (6 + length name) = ch_sp" using assms [of "6 + length name"] len by (simp add: write_line_def nth_append l)
  show "k < length txt \<Longrightarrow> b (7 + length name + k) = txt ! k"
    using assms [of "7 + length name + k"] len by (simp add: write_line_def nth_append l)
  show "b (7 + length name + length txt) = 0" using assms [of "7 + length name + length txt"] len by (simp add: nth_append)
qed

lemma write_name_ok:
  assumes "\<And>k. k < length name \<Longrightarrow> b (6 + k) = name ! k" and "b (6 + length name) = ch_sp"
    and "length name < 31" and "0 \<notin> set name" and "ch_sp \<notin> set name"
  shows "write_name b = name"
proof -
  have "[6..<6 + 31] = [6..<6 + length name] @ (6 + length name) # [7 + length name..<6 + 31]"
    using assms(3) upt_add_eq_append [of 6 "6 + length name" "31 - length name"]
    by (simp add: upt_conv_Cons del: upt_rec_numeral)
  moreover have "map b [6..<6 + length name] = name" by (rule nth_equalityI) (simp_all add: assms(1))
  ultimately have "map b [6..<6 + 31] = name @ ch_sp # map b [7 + length name..<6 + 31]" using assms(2) by simp
  then show ?thesis using assms(4,5) unfolding write_name_def
    by (simp only:) (subst takeWhile_append2; auto)
qed

lemma mounted_screen:
  "fs_mounted hw medium (s\<lparr>vga := v\<rparr>) = fs_mounted hw medium s" "fs_map medium (s\<lparr>vga := v\<rparr>) = fs_map medium s"
  by (simp_all add: fs_mounted_def fs_map_def ata_view_defs)

lemma mounted_puts [simp]:
  "fs_mounted hw medium (con_puts str col s) = fs_mounted hw medium s" "fs_map medium (con_puts str col s) = fs_map medium s"
  "fs_mounted hw medium (con_putc c col s) = fs_mounted hw medium s" "fs_map medium (con_putc c col s) = fs_map medium s"
  by (simp_all add: con_puts_def con_putc_def mounted_screen)

lemma mounted_prompt [simp]:
  "fs_mounted hw medium (print_shell_prompt s) = fs_mounted hw medium s" "fs_map medium (print_shell_prompt s) = fs_map medium s"
  by (simp_all add: print_shell_prompt_def Let_def)

lemma cmd_write_stores:
  fixes s :: "'a vfs_sys_scheme"
  assumes line: "\<And>k. k \<le> length (write_line name txt) \<Longrightarrow> b k = (write_line name txt @ [0]) ! k"
    and "good_name name" and "ch_sp \<notin> set name" and "txt \<noteq> []" and "0 \<notin> set txt" and "length txt \<le> 1024"
    and "fs_mounted (te_hw env) medium s" and "name \<in> dom (fs_map medium s) \<or> has_room (ata_sectors medium s)"
  shows "\<exists>t. cmd_write env b s = Some t \<and> fs_mounted (te_hw env) medium t \<and> fs_map medium t = (fs_map medium s)(name \<mapsto> txt)"
proof -
  note parts = write_line_parts [OF line]
  have nm: "write_name b = name" using assms(2,3) parts(2,3) by (intro write_name_ok) (auto simp add: good_name_def)
  then have st: "write_start b = 7 + length name" using parts(3) by (simp add: write_start_def)
  have tx: "text_at b (7 + length name) = Some txt" using parts(4,5) assms(5) by (intro text_at_ok) auto
  have "unat (of_nat (length txt) :: u32) = length txt" using assms(6) by (simp add: unat_of_nat take_bit_nat_eq_self)
  then have cnt: "min (unat (of_nat (length txt) :: u32)) 1024 = length txt" using assms(6) by simp
  have body: "map (\<lambda>j. b (7 + length name + j)) [0..<length txt] = txt" by (rule nth_equalityI) (simp_all add: parts(4))
  obtain t where t: "vfs_write_file (te_hw env) (Some name) (\<lambda>j. b (7 + length name + j)) (of_nat (length txt)) s = (int (length txt), t)"
    "fs_mounted (te_hw env) medium t" "fs_map medium t = (fs_map medium s)(name \<mapsto> txt)"
    using vfs_write_file_map [OF assms(7,2,8), of "\<lambda>j. b (7 + length name + j)" "of_nat (length txt)"] unfolding cnt body by blast
  have "name \<noteq> []" using assms(2) by (simp add: good_name_def)
  then show ?thesis using t assms(4) by (simp add: cmd_write_def nm st tx Let_def)
qed

lemma shell_command_write:
  assumes "\<And>k. k < 6 \<Longrightarrow> b k = lit ''write '' ! k"
  shows "shell_command world env b s = map_option (Pair Prompt) (cmd_write env b s)"
proof -
  have b: "b 0 = 0x77" "b 1 = 0x72" "b 2 = 0x69" "b 3 = 0x74" "b 4 = 0x65" using assms [of 0] assms [of 1] assms [of 2] assms [of 3] assms [of 4]
    by (simp_all add: lit_def)
  have "\<not> starts_with (c # w) b" if "of_char c \<noteq> (0x77 :: u8)" for c w
    using that b(1) by (simp add: starts_with_def lit_def upt_conv_Cons del: upt_Suc)
  moreover have "starts_with ''write'' b" using b by (simp add: starts_with_def lit_def upt_conv_Cons eval_nat_numeral)
  ultimately show ?thesis by (simp add: shell_command_def)
qed

section \<open>Messages\<close>

lemma con_screen: "\<exists>v. con_puts str col s = s\<lparr>vga := v\<rparr>" "\<exists>v. con_putc c col s = s\<lparr>vga := v\<rparr>"
  by (auto simp add: con_puts_def con_putc_def)

lemma print_prompt_screen: "\<exists>v. print_shell_prompt s = s\<lparr>vga := v\<rparr>"
  by (simp add: print_shell_prompt_def Let_def con_puts_def) blast

lemma sys_write_screen:
  fixes s :: "'a vfs_sys_scheme"
  assumes "is_cstring (ram s) str cs" and "str \<noteq> 0"
  shows "\<exists>v. sys_write env 1 str n s = Some (n, s\<lparr>vga := v\<rparr>)"
proof -
  have "\<exists>v. sys_write_call 1 str n s = Some (n, s\<lparr>vga := v\<rparr>)"
    using assms by (auto simp add: sys_write_call_def read_cstr_ok con_puts_def con_putc_def Let_def)
  then show ?thesis by (auto simp add: sys_write_def int80_def syscall_handler_def)
qed

lemma shell_say_screen:
  assumes "is_cstring (ram s) (se_lit env t) cs" and "se_lit env t \<noteq> 0"
  shows "\<exists>v. shell_say env t n s = Some (s\<lparr>vga := v\<rparr>)"
  using sys_write_screen [OF assms] by (fastforce simp add: shell_say_def)

section \<open>Properties\<close>

lemma demo_vfs_ram: "ram demo_vfs 0x7400 = 0"
  by code_simp

definition demo_shell_env :: shell_env where
  "demo_shell_env = trap_env.extend demo_env
     \<lparr>se_c = 0x7000, se_lit = (\<lambda>_. 0x7400), se_pbuf = 0x7010, se_elf_buffer = 0x6000, se_junk = [], se_read_buf = (\<lambda>_. 0),
      se_fname = replicate 20 0\<rparr>"

definition demo_shell :: shell_t where
  "demo_shell = \<lparr>input_buf = (\<lambda>_. 0x55), buf_idx = 9, cmd_history = (\<lambda>_ _. 0), hist_count = 0, hist_idx = 0\<rparr>"

lemma demo_shell_start: "\<exists>v. shell_start demo_shell_env demo_shell demo_vfs = Some (demo_shell\<lparr>buf_idx := 0\<rparr>, demo_vfs\<lparr>vga := v\<rparr>)"
proof -
  have "is_cstring (ram demo_vfs) (se_lit demo_shell_env t) []" "se_lit demo_shell_env t \<noteq> 0" for t
    by (simp_all add: demo_vfs_ram demo_shell_env_def trap_env.extend_def)
  then obtain v where "shell_say demo_shell_env (lit ''Type '' @ [ch_quote] @ lit ''help'' @ [ch_quote] @ lit '' for commands list.'' @ [ch_nl, ch_nl]) 32
      demo_vfs = Some (demo_vfs\<lparr>vga := v\<rparr>)" using shell_say_screen by blast
  then show ?thesis using print_prompt_screen [of "demo_vfs\<lparr>vga := v\<rparr>"] by (auto simp add: shell_start_def)
qed





text \<open>The history gives back what was entered: after Enter on a non-empty line, the up arrow makes the input line that line again.\<close>

theorem shell_history_recalls:
  assumes "0 < buf_idx sh" and "buf_idx sh \<le> 63" and "0 \<notin> set (line_text sh)"
    and "key_enter world env sh s = Some (True, sh', t)"
  shows "line_text (fst (key_up sh' t)) = line_text sh"
proof -
  define b where "b = (input_buf sh)(buf_idx sh := 0)"
  have b: "b j = input_buf sh j" "input_buf sh j \<noteq> 0" if "j < buf_idx sh" for j
    using that assms(3) by (auto simp add: b_def line_text_def)
  have len: "line_length b = buf_idx sh" using b assms(2) by (intro line_length_eq) (auto simp add: b_def)
  have sh': "sh' = (save_history (sh\<lparr>input_buf := b\<rparr>))\<lparr>buf_idx := 0\<rparr>"
    using assms(1,4) by (auto simp add: key_enter_def Let_def b_def split: option.splits shell_flow.splits)
  define row where "row = copy_line b (cmd_history sh (hist_count sh mod MAX_HIST))"
  have row: "line_length row = buf_idx sh" "j < buf_idx sh \<Longrightarrow> row j = input_buf sh j" for j
    using b assms(2) by (auto simp add: row_def copy_line_at len intro!: line_length_eq)
  have "fst (key_up sh' t) = sh'\<lparr>hist_idx := hist_count sh, input_buf := copy_line row b, buf_idx := buf_idx sh\<rparr>"
    by (simp add: sh' key_up_def recall_line_def save_history_def Let_def row(1) flip: row_def)
  then show ?thesis using row by (simp add: line_text_def copy_line_at)
qed

definition demo_clear :: shell_t where
  "demo_clear = demo_shell\<lparr>input_buf := (\<lambda>k. if k < 5 then lit ''clear'' ! k else 0), buf_idx := 5\<rparr>"

lemma demo_clear_command:
  "shell_command id demo_shell_env ((input_buf demo_clear)(buf_idx demo_clear := 0)) s =
    Some (Again, print_shell_prompt (s\<lparr>vga := vga_clear (vga s)\<rparr>))"
proof -
  define b where "b = (input_buf demo_clear)(buf_idx demo_clear := 0)"
  have b: "b 0 = 0x63" "b 1 = 0x6C" "starts_with ''clear'' b" unfolding b_def by code_simp+
  have "\<not> starts_with (c # w) b" if "of_char c \<noteq> (0x63 :: u8)" for c w
    using that b(1) by (simp add: starts_with_def lit_def upt_conv_Cons del: upt_Suc)
  moreover have "\<not> starts_with ''cat'' b" using b(2) by (simp add: starts_with_def lit_def upt_conv_Cons)
  ultimately show ?thesis using b(3) unfolding b_def [symmetric] by (simp add: shell_command_def)
qed

theorem shell_history_recalls_witness:
  "\<exists>sh t. key_enter id demo_shell_env demo_clear demo_vfs = Some (True, sh, t) \<and> line_text (fst (key_up sh t)) = lit ''clear''"
proof -
  have "0 < buf_idx demo_clear" "buf_idx demo_clear \<le> 63" "0 \<notin> set (line_text demo_clear)" "line_text demo_clear = lit ''clear''"
    by code_simp+
  moreover have "input_buf (save_history sh) = input_buf sh" for sh by (simp add: save_history_def Let_def)
  then obtain sh t where "key_enter id demo_shell_env demo_clear demo_vfs = Some (True, sh, t)"
    using \<open>0 < buf_idx demo_clear\<close> by (simp add: key_enter_def Let_def demo_clear_command)
  ultimately show ?thesis using shell_history_recalls [of demo_clear id demo_shell_env demo_vfs] by auto
qed

text \<open>C23. A typed \<open>write\<close> command stores a file: when the line \<open>write\<close>, a name, a space and a text of together at most 63 characters is typed on an
  empty line and Enter is pressed, the shell comes back to its prompt and the file system maps the name to the text and every other name
  to what it was.\<close>

theorem shell_write_stores:
  fixes s :: "'a vfs_sys_scheme"
  assumes "fs_mounted (te_hw env) medium s" and "name \<in> dom (fs_map medium s) \<or> has_room (ata_sectors medium s)"
    and "good_name name" and "txt \<noteq> []" and "0 \<notin> set txt" and "ch_sp \<notin> set name"
    and "\<forall>k \<in> set name \<union> set txt. plain_key k \<and> k \<noteq> ch_bs" and "length name + length txt \<le> 56" and "buf_idx sh = 0"
  shows "\<exists>sh' t. shell_keys world env (write_line name txt @ [ch_nl]) sh s = Some (True, sh', t) \<and>
    fs_mounted (te_hw env) medium t \<and> fs_map medium t = (fs_map medium s)(name \<mapsto> txt)"
proof -
  let ?l = "write_line name txt"
  have len: "length ?l = 7 + length name + length txt" by (simp add: write_line_def lit_def)
  have plain: "\<forall>k \<in> set ?l. plain_key k" "ch_bs \<notin> set ?l"
    using assms(7) by (auto simp add: write_line_def lit_def plain_key_def)
  have "edit_keys 63 (line_text sh) ?l = ?l"
    using edit_keys_text [OF plain(2), of "line_text sh" 63] assms(8,9) len by (simp add: line_text_def)
  then obtain sh1 v where k1: "shell_keys world env ?l sh s = Some (True, sh1, s\<lparr>vga := v\<rparr>)" "line_text sh1 = ?l"
    using shell_keys_line [OF plain(1), of sh world env s thesis] assms(9) by simp
  have idx: "buf_idx sh1 = length ?l" using arg_cong [OF k1(2), of length] by simp
  have pos: "0 < buf_idx sh1" using idx len by simp
  define b where "b = (input_buf sh1)(buf_idx sh1 := 0)"
  have b: "b k = (?l @ [0]) ! k" if "k \<le> length ?l" for k using entered_line [of k sh1] that k1(2) idx by (simp add: b_def)
  define u where "u = con_putc ch_nl COLOR_WHITE (con_putc ch_nl COLOR_WHITE (s\<lparr>vga := v\<rparr>))"
  have u: "fs_mounted (te_hw env) medium u" "fs_map medium u = fs_map medium s" "ata_sectors medium u = ata_sectors medium s"
    using assms(1) by (simp_all add: u_def mounted_screen) (simp add: ata_sectors_def con_putc_def)
  obtain t where t: "cmd_write env b u = Some t" "fs_mounted (te_hw env) medium t" "fs_map medium t = (fs_map medium s)(name \<mapsto> txt)"
    using cmd_write_stores [OF b assms(3,6,4,5) _ u(1)] assms(2,8) u(2,3) by auto
  have "shell_command world env b u = Some (Prompt, t)"
    using shell_command_write [of b world env u] write_line_parts(1) [OF b] t(1) by simp
  moreover have "input_buf (save_history (sh1\<lparr>input_buf := b\<rparr>)) = b" by (simp add: save_history_def Let_def)
  ultimately have "\<exists>sh'. shell_key world env ch_nl sh1 (s\<lparr>vga := v\<rparr>) =
      Some (True, sh', print_shell_prompt (con_putc ch_nl COLOR_WHITE t))"
    using pos by (simp add: shell_key_def key_enter_def Let_def b_def [symmetric] u_def [symmetric])
  then show ?thesis using t(2,3) shell_keys_append [OF k1(1), of "[ch_nl]"] by auto
qed

theorem shell_write_stores_witness:
  "\<exists>sh t. shell_keys id demo_shell_env (write_line [0x61] [0x68, 0x69] @ [ch_nl]) (demo_shell\<lparr>buf_idx := 0\<rparr>) demo_vfs = Some (True, sh, t) \<and>
     fs_map demo_medium t = [[0x61] \<mapsto> [0x68, 0x69]]"
proof -
  have "fs_mounted (te_hw demo_shell_env) demo_medium demo_vfs"
    using demo_synced by (simp add: demo_shell_env_def trap_env.extend_def demo_env_def fs_synced_def)
  from shell_write_stores [OF this, of "[0x61]" "[0x68, 0x69]" "demo_shell\<lparr>buf_idx := 0\<rparr>" id] show ?thesis
    using demo_room by (simp add: good_name_def plain_key_def demo_empty) blast
qed

end
