(* ===== verification/Boot.thy ===== *)
theory Boot
  imports Shell_Props
begin

text \<open>
  The start of the kernel, \<^verbatim>\<open>kernel_main\<close> of \<^verbatim>\<open>src/kernel/main.c\<close>: the hand-over from the boot loader, the set-up of every
  subsystem in the order of the source, the two first processes and the idle loop.

  \<open>kernel_main\<close> is cut into the groups of calls its comments name.  The result is \<open>None\<close> when one of its loops does not end
  (a memory map that never reaches its end, a keyboard controller that always has a byte).  Interrupts are off until
  \<open>keyboard_init\<close> turns them on; what their handlers do to the state is the subject of \<^verbatim>\<open>Pit\<close> and \<^verbatim>\<open>Keyboard\<close>.
\<close>

section \<open>Multiboot information\<close>

record multiboot_info_t =
  mbi_flags :: u32
  mem_lower :: u32
  mem_upper :: u32
  boot_device :: u32
  mbi_cmdline :: u32
  mods_count :: u32
  mods_addr :: u32
  mbi_syms :: "u32 list"
  mmap_length :: u32
  mmap_addr :: u32

text \<open>The packed structure at an address.\<close>

definition mbi_at :: "(u32 \<Rightarrow> u8) \<Rightarrow> u32 \<Rightarrow> multiboot_info_t" where
  "mbi_at m a =
     \<lparr>mbi_flags = load32 m a, mem_lower = load32 m (a + 4), mem_upper = load32 m (a + 8), boot_device = load32 m (a + 12),
      mbi_cmdline = load32 m (a + 16), mods_count = load32 m (a + 20), mods_addr = load32 m (a + 24),
      mbi_syms = map (\<lambda>i. load32 m (a + 28 + 4 * of_nat i)) [0..<4],
      mmap_length = load32 m (a + 44), mmap_addr = load32 m (a + 48)\<rparr>"

abbreviation MULTIBOOT_MAGIC :: u32 where "MULTIBOOT_MAGIC \<equiv> 0x2BADB002"

section \<open>Operations\<close>

definition boot_tables :: "image \<Rightarrow> 'a desc_sys_scheme \<Rightarrow> 'a desc_sys_scheme" where
  "boot_tables img s =
     (let s = s\<lparr>vga := vga_init (vga s)\<rparr>;
          s = serial_init s;
          s = gdt_init img s
      in idt_init img s)"

text \<open>Both branches without a memory map end with the loop that reserves the first 2 MB.\<close>

definition boot_memory :: "u32 \<Rightarrow> u32 \<Rightarrow> 'a pmm_sys_scheme \<Rightarrow> 'a pmm_sys_scheme option" where
  "boot_memory magic mbi_addr s =
     (if magic \<noteq> MULTIBOOT_MAGIC
      then let s = con_puts (lit ''[ERROR] Not loaded by multiboot'' @ [ch_nl]) COLOR_LIGHT_RED s
           in Some (pmm_init (128 * 1024 * 1024) 0x100000 s)
      else
        (let mbi = mbi_at (ram s) mbi_addr
         in if mbi_flags mbi AND push_bit 6 1 \<noteq> 0 then pmm_init_multiboot (mmap_addr mbi) (mmap_length mbi) s
            else if mbi_flags mbi AND 0x01 \<noteq> 0
            then let mem_total = (mem_lower mbi + mem_upper mbi) * 1024
                 in Some (reserve_low_memory (pmm_init mem_total 0x100000 s))
            else Some (reserve_low_memory (pmm_init (128 * 1024 * 1024) 0x100000 s))))"

definition boot_subsystems :: "hardware \<Rightarrow> image \<Rightarrow> 'a vfs_sys_scheme \<Rightarrow> 'a vfs_sys_scheme option" where
  "boot_subsystems hw img s =
     (let s = pit_init 100 s;
          s = heap_init s;
          s = paging_init hw s;
          s = scheduler_init s
      in do {
        s \<leftarrow> keyboard_init hw img s;
        let s = ata_init hw s;
        Some (vfs_init hw s)
      })"

definition boot_rule :: bytes where
  "boot_rule = replicate 80 0x3D"

definition boot_banner :: "hardware \<Rightarrow> 'a pmm_sys_scheme \<Rightarrow> 'a pmm_sys_scheme" where
  "boot_banner hw s =
     (let s = con_puts boot_rule COLOR_LIGHT_CYAN s;
          s = con_puts (lit ''   HumanOS v0.0.1 (x86 Ring 3 Userland) - Multi-tasking Kernel                '') COLOR_LIGHT_CYAN s;
          s = con_puts boot_rule COLOR_LIGHT_CYAN s;
          s = cpu_print_info hw s;
          s = con_puts (lit ''  RAM Memory : '') COLOR_LIGHT_GREEN s;
          free_mb = (pmm_get_free_pages s * 4096) div (1024 * 1024);
          s = con_puts (dec_text0 (sint free_mb)) COLOR_WHITE s;
          s = con_puts (lit '' MB Free'' @ [ch_nl]) COLOR_WHITE s;
          s = con_puts (lit '' [OK] GDT/TSS, IDT, PMM, Paging, ATA HDD, VFS, Scheduler & Syscalls Active'' @ [ch_nl]) COLOR_LIGHT_GREEN s
      in con_puts (boot_rule @ [ch_nl, ch_nl]) COLOR_LIGHT_CYAN s)"

definition boot_processes :: "u32 \<Rightarrow> 'a sched_sys_scheme \<Rightarrow> 'a sched_sys_scheme option" where
  "boot_processes user_shell_process s = do {
     s \<leftarrow> scheduler_convert_current_process (lit ''KernelMain'') s;
     scheduler_add_user_process user_shell_process (lit ''UserShellRing3'') s
   }"

text \<open>One round of the endless loop at the end.\<close>

definition kernel_idle :: "'a machine_scheme \<Rightarrow> 'a machine_scheme" where
  "kernel_idle s = emit Hlt s"

text \<open>\<open>kernel_main\<close> up to the loop, and after \<open>n\<close> rounds of it.\<close>

definition kernel_start ::
    "hardware \<Rightarrow> image \<Rightarrow> u32 \<Rightarrow> u32 \<Rightarrow> u32 \<Rightarrow> 'a vfs_sys_scheme \<Rightarrow> 'a vfs_sys_scheme option" where
  "kernel_start hw img user_shell_process magic mbi_addr s = do {
     let s = boot_tables img s;
     s \<leftarrow> boot_memory magic mbi_addr s;
     s \<leftarrow> boot_subsystems hw img s;
     let s = boot_banner hw s;
     boot_processes user_shell_process s
   }"

definition kernel_main ::
    "hardware \<Rightarrow> image \<Rightarrow> u32 \<Rightarrow> nat \<Rightarrow> u32 \<Rightarrow> u32 \<Rightarrow> 'a vfs_sys_scheme \<Rightarrow> 'a vfs_sys_scheme option" where
  "kernel_main hw img user_shell_process n magic mbi_addr s =
     map_option (kernel_idle ^^ n) (kernel_start hw img user_shell_process magic mbi_addr s)"

end
