(* ===== verification/Boot_Props.thy ===== *)
theory Boot_Props
  imports Boot
begin

text \<open>
  The kernel comes up: with a Multiboot memory map that leaves six page frames above the first 2 MB, \<open>kernel_main\<close> reaches its
  idle loop with paging on, the interrupt gates installed, the scheduler's invariant established and the shell ready to run.
\<close>

section \<open>Drivers leave the kernel's own data alone\<close>

text \<open>The state up to the keyboard without the history of the ports, the byte memory and the screen.\<close>

definition kernel_core :: "'a kbd_sys_scheme \<Rightarrow> kbd_sys" where
  "kernel_core s = (kbd_sys.truncate s)
     \<lparr>io_trace := [], ram := (\<lambda>_. 0), vga := \<lparr>vga_buffer = (\<lambda>_. 0), cursor_x = 0, cursor_y = 0\<rparr>\<rparr>"

lemma kernel_core_upd [simp]:
  fixes s :: "'a vfs_sys_scheme"
  shows "kernel_core (s\<lparr>io_trace := h\<rparr>) = kernel_core s" "kernel_core (s\<lparr>vga := v\<rparr>) = kernel_core s"
    "kernel_core (s\<lparr>disk_present := x8\<rparr>) = kernel_core s" "kernel_core (s\<lparr>use_secondary := b\<rparr>) = kernel_core s"
    "kernel_core (s\<lparr>use_slave := d\<rparr>) = kernel_core s" "kernel_core (s\<lparr>disk_model := bs\<rparr>) = kernel_core s"
    "kernel_core (s\<lparr>disk_sector_count := n\<rparr>) = kernel_core s" "kernel_core (s\<lparr>file_table := ft\<rparr>) = kernel_core s"
    "kernel_core (s\<lparr>ram := mem\<rparr>) = kernel_core s"
  by (simp_all add: kernel_core_def kbd_sys.truncate_def)

lemma kernel_core_io [simp]:
  fixes s :: "'a vfs_sys_scheme"
  shows "kernel_core (emit e s) = kernel_core s" "kernel_core (outb p b s) = kernel_core s"
    "kernel_core (snd (inb hw p s)) = kernel_core s" "kernel_core (con_puts str col s) = kernel_core s"
    "kernel_core (con_putc c col s) = kernel_core s"
  by (simp_all add: emit_def outb_def inb_def con_puts_def con_putc_def)

lemma kernel_core_fields:
  assumes "kernel_core t = kernel_core s"
  shows "pmm t = pmm s" "heap_view t = heap_view s" "processes t = processes s" "process_count t = process_count s"
    "next_pid t = next_pid s" "current_process t = current_process s" "proc_mem t = proc_mem s" "stack_mem t = stack_mem s"
    "page_mem t = page_mem s" "kernel_page_directory t = kernel_page_directory s" "idt_entries t = idt_entries s"
    "gdt_entries t = gdt_entries s" "kbd_buffer t = kbd_buffer s" "kbd_head t = kbd_head s" "kbd_tail t = kbd_tail s"
    "is_e0_prefix t = is_e0_prefix s" "tick_counter t = tick_counter s" "schedule_needed t = schedule_needed s"
proof -
  have "f (kernel_core t) = f (kernel_core s)" for f :: "kbd_sys \<Rightarrow> 'c" by (simp only: assms)
  note eq = this [of pmm] this [of heap_view] this [of processes] this [of process_count] this [of next_pid]
    this [of current_process] this [of proc_mem] this [of stack_mem] this [of page_mem] this [of kernel_page_directory]
    this [of idt_entries] this [of gdt_entries] this [of kbd_buffer] this [of kbd_head] this [of kbd_tail] this [of is_e0_prefix]
    this [of tick_counter] this [of schedule_needed]
  then show "pmm t = pmm s" "heap_view t = heap_view s" "processes t = processes s" "process_count t = process_count s"
    "next_pid t = next_pid s" "current_process t = current_process s" "proc_mem t = proc_mem s" "stack_mem t = stack_mem s"
    "page_mem t = page_mem s" "kernel_page_directory t = kernel_page_directory s" "idt_entries t = idt_entries s"
    "gdt_entries t = gdt_entries s" "kbd_buffer t = kbd_buffer s" "kbd_head t = kbd_head s" "kbd_tail t = kbd_tail s"
    "is_e0_prefix t = is_e0_prefix s" "tick_counter t = tick_counter s" "schedule_needed t = schedule_needed s"
    by (simp_all add: kernel_core_def kbd_sys.truncate_def heap_view_def)
qed


lemma kernel_core_poll [simp]:
  fixes s :: "'a vfs_sys_scheme"
  shows "kernel_core (snd (ata_wait_bsy hw s)) = kernel_core s" "kernel_core (snd (ata_wait_drq hw s)) = kernel_core s"
proof -
  have "kernel_core (snd (ata_poll hw ready n s)) = kernel_core s" for ready n
    using ata_poll_bounded [of hw ready n s] by auto
  then show "kernel_core (snd (ata_wait_bsy hw s)) = kernel_core s" "kernel_core (snd (ata_wait_drq hw s)) = kernel_core s"
    by (simp_all add: ata_wait_bsy_def ata_wait_drq_def)
qed

lemma kernel_core_wait_ready [simp]: "kernel_core (snd (ata_wait_ready hw s)) = kernel_core (s :: 'a vfs_sys_scheme)"
  using kernel_core_poll(1) [of hw s] kernel_core_poll(2) [of hw "snd (ata_wait_bsy hw s)"]
  by (simp add: ata_wait_ready_def split_beta)

lemma kernel_core_command [simp]: "kernel_core (ata_command cmd lba s) = kernel_core (s :: 'a vfs_sys_scheme)"
  by (simp add: ata_command_trace)

lemma kernel_core_sectors [simp]:
  fixes s :: "'a vfs_sys_scheme"
  shows "kernel_core (snd (snd (ata_read_sector hw lba buf s))) = kernel_core s"
    "kernel_core (snd (ata_write_sector hw lba buf s)) = kernel_core s"
  by (simp_all add: ata_read_sector_def ata_write_sector_def split_beta Let_def read_words_trace write_words_trace split: option.split)

lemma kernel_core_probe_loop [simp]:
  "kernel_core (snd (probe_loop hw p st n s)) = kernel_core (s :: 'a vfs_sys_scheme)"
proof (induction hw p st n s rule: probe_loop.induct)
  case (1 hw p st n s)
  then show ?case using kernel_core_io(3) [of hw p s]
    by (subst probe_loop.simps) (auto simp add: split_beta Let_def inb_def)
qed

lemma kernel_core_probe [simp]:
  "kernel_core (snd (ata_probe_drive hw bus drive s)) = kernel_core (s :: 'a vfs_sys_scheme)"
proof -
  have select: "kernel_core (probe_select hw bus drive s) = kernel_core s" for s :: "'a vfs_sys_scheme"
    by (simp add: probe_select_def Let_def upt_rec)
  have identify: "kernel_core (probe_identify hw s) = kernel_core s" for s :: "'a vfs_sys_scheme"
    by (simp add: probe_identify_def Let_def read_words_trace del: upt_rec_numeral)
  have loop: "kernel_core u = kernel_core v" if "probe_loop hw p st n v = (r, u)" for p st n r and u v :: "'a vfs_sys_scheme"
    using kernel_core_probe_loop [of hw p st n v] that by simp
  have bsy: "kernel_core u = kernel_core v" if "ata_wait_bsy hw v = (r, u)" for r and u v :: "'a vfs_sys_scheme"
    using kernel_core_poll(1) [of hw v] that by simp
  show ?thesis
    by (auto simp add: ata_probe_drive_def Let_def select identify inb_def dest!: bsy loop split: prod.split option.split if_splits)
qed

lemma kernel_core_identify [simp]: "kernel_core (snd (identify_loop hw ds s)) = kernel_core (s :: 'a vfs_sys_scheme)"
proof (induction hw ds s rule: identify_loop.induct)
  case (2 hw bus drive ds s)
  obtain r u where ru: "ata_probe_drive hw bus drive s = (r, u)" by force
  then have "kernel_core u = kernel_core s" using kernel_core_probe [of hw bus drive s] by simp
  then show ?case using ru 2 by (cases r) simp_all
qed simp

lemma kernel_core_files [simp]:
  fixes s :: "'a vfs_sys_scheme"
  shows "kernel_core (upd_file i f s) = kernel_core s" "kernel_core (vfs_sync_from_disk hw s) = kernel_core s"
    "kernel_core (vfs_sync_to_disk hw s) = kernel_core s"
  using kernel_core_sectors(1) [of hw VFS_METADATA_LBA "Some (replicate 512 0)" s]
  by (simp_all add: upd_file_def vfs_sync_from_disk_def vfs_sync_to_disk_def split_beta Let_def del: upt_rec_numeral)

lemma kernel_core_disk [simp]:
  fixes s :: "'a vfs_sys_scheme"
  shows "kernel_core (ata_init hw s) = kernel_core s" "kernel_core (vfs_init hw s) = kernel_core s"
proof -
  obtain r u where ru: "ata_identify hw s = (r, u)" by force
  then have "kernel_core u = kernel_core s"
    using kernel_core_identify [of hw "[(0, 0), (0, 1), (1, 0), (1, 1)]" s] by (simp add: ata_identify_def)
  then show "kernel_core (ata_init hw s) = kernel_core s"
    using ru by (cases r) (simp_all add: ata_init_def Let_def)
  have upds: "kernel_core (fold (\<lambda>i. upd_file i (f i)) xs s) = kernel_core s" for f xs and s :: "'a vfs_sys_scheme"
    by (induction xs arbitrary: s) simp_all
  show "kernel_core (vfs_init hw s) = kernel_core s"
    by (simp add: vfs_init_def Let_def upds del: upt_rec_numeral)
qed

lemma kernel_core_banner [simp]: "kernel_core (boot_banner hw s) = kernel_core (s :: 'a vfs_sys_scheme)"
  by (simp add: boot_banner_def cpu_print_info_def Let_def)


section \<open>Tables and memory\<close>

lemma boot_tables_ram: "ram (boot_tables img s) = ram s"
proof -
  have gate: "ram (idt_set_gate k b sel fl s) = ram s" for k b sel fl and s :: "'b desc_sys_scheme"
    by (simp add: idt_set_gate_def)
  have gates: "ram (fold (\<lambda>i. idt_set_gate (f i) (h i) sel fl) xs s) = ram s" for f h sel fl xs and s :: "'b desc_sys_scheme"
    by (induction xs arbitrary: s) (simp_all add: gate)
  show ?thesis
    by (simp add: boot_tables_def serial_init_def gdt_init_def idt_init_def Let_def idt_load_def gdt_flush_def tss_flush_def
        write_tss_def gdt_set_gate_def emit_def outb_def gate gates del: upt_rec_numeral)
qed

text \<open>What the processor does on an interrupt: the handler and who may raise it.\<close>

definition idt_view :: "'a desc_sys_scheme \<Rightarrow> u8 \<Rightarrow> (u32 \<times> u8) option" where
  "idt_view s n = (let g = idt_entries s n in if gate_present g then Some (gate_offset g, gate_dpl g) else None)"

definition kernel_gates :: "image \<Rightarrow> u8 \<Rightarrow> (u32 \<times> u8) option" where
  "kernel_gates img n =
     (if n = 0x80 then Some (addr_syscall_stub img, 3) else if unat n < 32 then Some (addr_isr img (unat n), 0)
      else if n = 32 then Some (addr_irq0_stub img, 0) else if n = 33 then Some (addr_irq1_stub img, 0) else None)"

lemma kernel_gates_installed:
  assumes "idt_entries t = idt_entries (idt_set_gate 33 (addr_irq1_stub img) 0x08 0x8E
      (idt_set_gate 32 (addr_irq0_stub img) 0x08 0x8E u))" and "idt_entries u = idt_entries (idt_init img v)"
  shows "idt_view t = kernel_gates img"
proof
  fix n
  have bits: "bit (0x8E :: u8) 7" "bit (0xEE :: u8) 7" "drop_bit 5 0x8E AND 3 = (0 :: u8)" "drop_bit 5 0xEE AND 3 = (3 :: u8)"
    by code_simp+
  show "idt_view t n = kernel_gates img n"
    by (auto simp add: assms idt_view_def kernel_gates_def idt_set_gate_entry idt_init_entries Let_def gate_present_def
        gate_offset_def gate_dpl_def bits u32_bytes)
qed

lemma mark_only_pmm:
  "(pmm_mark_free a s)\<lparr>pmm := p\<rparr> = s\<lparr>pmm := p\<rparr>" "(pmm_mark_used a s)\<lparr>pmm := p\<rparr> = s\<lparr>pmm := p\<rparr>"
  by (simp_all add: pmm_mark_free_def pmm_mark_used_def Let_def)

lemma fold_only_pmm:
  assumes "\<And>k s. (f k s)\<lparr>pmm := p\<rparr> = s\<lparr>pmm := p\<rparr>"
  shows "(fold f ks s)\<lparr>pmm := p\<rparr> = s\<lparr>pmm := p\<rparr>"
  by (induction ks arbitrary: s) (simp_all add: assms)

lemma multiboot_frames:
  assumes list: "mmap_list (ram s) a (a + n) ens" and t: "pmm_init_multiboot a n s = Some t"
  shows "t\<lparr>pmm := p, vga := v\<rparr> = s\<lparr>pmm := p, vga := v\<rparr>"
proof -
  have con: "(con_puts x c u)\<lparr>vga := v\<rparr> = u\<lparr>vga := v\<rparr>" "(con_puts x c u)\<lparr>pmm := p\<rparr> = con_puts x c (u\<lparr>pmm := p\<rparr>)"
    for x c and u :: "'a pmm_sys_scheme" by (simp_all add: con_puts_def)
  have step: "(mmap_free_step en u)\<lparr>pmm := p\<rparr> = u\<lparr>pmm := p\<rparr>" for en and u :: "'a pmm_sys_scheme"
    by (simp add: mmap_free_step_def Let_def fold_only_pmm mark_only_pmm)
  have steps: "(fold mmap_free_step ens u)\<lparr>pmm := p\<rparr> = u\<lparr>pmm := p\<rparr>" for u :: "'a pmm_sys_scheme"
    by (rule fold_only_pmm) (rule step)
  have low: "(reserve_low_memory u)\<lparr>pmm := p\<rparr> = u\<lparr>pmm := p\<rparr>" for u :: "'a pmm_sys_scheme"
    by (simp add: reserve_low_memory_def fold_only_pmm mark_only_pmm del: upt_rec_numeral)
  have walk: "mmap_free_usable a (a + n) u = Some (fold mmap_free_step ens u)" if "ram u = ram s" for u :: "'a pmm_sys_scheme"
    using list that by (simp add: mmap_free_usable_list)
  show ?thesis
    using t list by (auto simp add: pmm_init_multiboot_def Let_def mmap_max_usable_list walk frame_simps con low steps split: if_splits)
qed

section \<open>Subsystems\<close>

text \<open>Everything \<open>paging_init\<close> may write.\<close>

definition paging_frame :: "'a paging_sys_scheme \<Rightarrow> 'a paging_sys_scheme" where
  "paging_frame s = s\<lparr>pmm := undefined, page_mem := (\<lambda>_ _. clear_entry), kernel_page_directory := 0,
     kernel_page_tables := (\<lambda>_. 0), vga := undefined, io_trace := []\<rparr>"

lemma paging_init_effect:
  fixes s :: "'a paging_sys_scheme"
  assumes inv: "pmm_inv (pmm s)" and z: "0 \<notin> free_frames (pmm s)" and m: "m \<in> free_frames (pmm s)" "m + 1 \<in> free_frames (pmm s)"
    and least: "\<And>k. k \<in> free_frames (pmm s) \<Longrightarrow> m \<le> k"
  shows "pmm_inv (pmm (paging_init hw s)) \<and> free_frames (pmm (paging_init hw s)) = free_frames (pmm s) - {m, m + 1} \<and>
    paging_frame (paging_init hw s) = paging_frame s"
proof -
  have entry: "pmm (upd_entry b i f u) = pmm u" "paging_frame (upd_entry b i f u) = paging_frame u" for b i f and u :: "'a paging_sys_scheme"
    by (simp_all add: upd_entry_def paging_frame_def)
  have folded: "pmm (fold (\<lambda>i. upd_entry b i (f i)) is u) = pmm u \<and> paging_frame (fold (\<lambda>i. upd_entry b i (f i)) is u) = paging_frame u"
    for b f "is" and u :: "'a paging_sys_scheme"
    by (induction "is" arbitrary: u) (simp_all add: entry)
  have others: "pmm (con_puts x c u) = pmm u" "paging_frame (con_puts x c u) = paging_frame u"
    "pmm (emit e u) = pmm u" "paging_frame (emit e u) = paging_frame u" "paging_frame (u\<lparr>pmm := q\<rparr>) = paging_frame u"
    "paging_frame (u\<lparr>kernel_page_directory := d\<rparr>) = paging_frame u" "paging_frame (u\<lparr>kernel_page_tables := ts\<rparr>) = paging_frame u"
    for x c e q d ts and u :: "'a paging_sys_scheme"
    by (simp_all add: con_puts_def emit_def paging_frame_def)
  let ?F = "free_frames (pmm s)" and ?p = "take_page m (pmm s)"
  have p: "pmm_inv ?p" "free_frames ?p = ?F - {m}" using take_page_inv [OF inv m(1)] by simp_all
  have m1: "m + 1 \<in> free_frames ?p" using p(2) m by simp
  then have ne: "free_frames ?p \<noteq> {}" by blast
  note q = take_page_inv [OF p(1) m1]
  have min1: "Min ?F = m" using m least by (intro Min_eqI) auto
  have "m + 1 \<le> k" if "k \<in> ?F - {m}" for k using least [of k] that by auto
  then have min2: "Min (free_frames ?p) = m + 1" using m p(2) by (intro Min_eqI) auto
  have al1: "pmm_alloc_page u = (page_addr m, u\<lparr>pmm := ?p\<rparr>)" if "pmm u = pmm s" for u :: "'a paging_sys_scheme"
    using pmm_alloc_page_least [of u] that inv m min1 by auto
  have al2: "pmm_alloc_page u = (page_addr (m + 1), u\<lparr>pmm := take_page (m + 1) ?p\<rparr>)" if "pmm u = ?p" for u :: "'a paging_sys_scheme"
    using pmm_alloc_page_least [of u] p(1) ne min2 unfolding that by simp
  have nz: "page_addr m \<noteq> 0" "page_addr (m + 1) \<noteq> 0"
    using page_addr_eq_0 free_frames_less [OF inv] m z by (metis, metis)
  have "pmm (paging_init hw s) = take_page (m + 1) ?p \<and> paging_frame (paging_init hw s) = paging_frame s"
    by (simp add: paging_init_def Let_def al1 al2 nz others entry folded clear_entries_def identity_entries_def del: upt_rec_numeral)
  moreover have "?F - {m} - {m + 1} = ?F - {m, m + 1}" by auto
  ultimately show ?thesis using q p(2) by simp
qed

lemma paging_frame_fields:
  fixes s t :: "'a desc_sys_scheme"
  assumes "paging_frame t = paging_frame s"
  shows "heap_head t = heap_head s" "heap_total t = heap_total s" "heap_used t = heap_used s" "heap_mem t = heap_mem s"
    "idt_entries t = idt_entries s"
proof -
  have eq: "f (paging_frame t) = f (paging_frame s)" for f :: "'a desc_sys_scheme \<Rightarrow> 'c" by (simp only: assms)
  show "heap_head t = heap_head s" using eq [of heap_head] by (simp add: paging_frame_def)
  show "heap_total t = heap_total s" using eq [of heap_total] by (simp add: paging_frame_def)
  show "heap_used t = heap_used s" using eq [of heap_used] by (simp add: paging_frame_def)
  show "heap_mem t = heap_mem s" using eq [of heap_mem] by (simp add: paging_frame_def)
  show "idt_entries t = idt_entries s" using eq [of idt_entries] by (simp add: paging_frame_def)
qed

lemma paging_view:
  assumes "page_mem t = page_mem s" and "kernel_page_directory t = kernel_page_directory s"
  shows "paging_wf t = paging_wf s" "vmap t = vmap s"
  unfolding paging_wf_def vmap_def [abs_def] assms by (rule refl)+

text \<open>The controller runs out of bytes, in whatever state the boot loader left it.\<close>

definition kbd_quiet :: "hardware \<Rightarrow> bool" where
  "kbd_quiet hw \<longleftrightarrow> (\<forall>h. \<exists>n. \<not> bit (hw_inb hw (drained n h) 0x64) 0)"

lemma keyboard_init_returns:
  assumes "kbd_quiet hw"
  shows "\<exists>h. keyboard_init hw img s = Some ((idt_set_gate 33 (addr_irq1_stub img) 0x08 0x8E
    (idt_set_gate 32 (addr_irq0_stub img) 0x08 0x8E s))\<lparr>io_trace := h\<rparr>)"
proof -
  let ?g = "\<lambda>u. idt_set_gate 33 (addr_irq1_stub img) 0x08 0x8E (idt_set_gate 32 (addr_irq0_stub img) 0x08 0x8E u)"
  obtain n where "\<not> bit (hw_inb hw (drained n (io_trace (?g (pic_remap s)))) 0x64) 0"
    using assms unfolding kbd_quiet_def by blast
  from kbd_drain_returns [OF this] obtain h where "kbd_drain hw (?g (pic_remap s)) = Some ((?g (pic_remap s))\<lparr>io_trace := h\<rparr>)" by blast
  moreover have "(?g (pic_remap s))\<lparr>io_trace := Sti # h\<rparr> = (?g s)\<lparr>io_trace := Sti # h\<rparr>"
    by (simp add: pic_remap_def Let_def outb_def emit_def idt_set_gate_def)
  ultimately show ?thesis by (auto simp add: keyboard_init_def Let_def emit_def)
qed

lemma boot_subsystems_spec:
  fixes s :: "'a vfs_sys_scheme"
  assumes inv: "pmm_inv (pmm s)" and z: "0 \<notin> free_frames (pmm s)" and m: "m \<in> free_frames (pmm s)" "m + 1 \<in> free_frames (pmm s)"
    and least: "\<And>k. k \<in> free_frames (pmm s) \<Longrightarrow> m \<le> k" and quiet: "kbd_quiet hw"
  shows "\<exists>t. boot_subsystems hw img s = Some t \<and> heap_owns t [] \<and> process_count t = 0 \<and> next_pid t = 1 \<and>
    free_frames (pmm t) = free_frames (pmm s) - {m, m + 1} \<and> paging_wf t \<and>
    (\<forall>v < 1048576. vmap t v = (if v < 1024 then Some (of_nat v) else None)) \<and>
    idt_entries t = idt_entries (idt_set_gate 33 (addr_irq1_stub img) 0x08 0x8E (idt_set_gate 32 (addr_irq0_stub img) 0x08 0x8E s))"
proof -
  define a where "a = heap_init (pit_init 100 s)"
  have a: "pmm a = pmm s" "heap_head a = 0" "heap_total a = 0" "heap_used a = 0" "idt_entries a = idt_entries s"
    by (simp_all add: a_def heap_init_def pit_init_def Let_def con_puts_def outb_def emit_def)
  define b where "b = paging_init hw a"
  have two: "2 \<le> card (free_frames (pmm a))"
    using card_mono [of "free_frames (pmm a)" "{m, m + 1}"] m a(1) by simp
  have page: "paging_wf b" "\<forall>v < 1048576. vmap b v = (if v < 1024 then Some (of_nat v) else None)"
    unfolding b_def using paging_init_spec [where s = a and hw = hw, unfolded a(1), OF inv z] two a(1) by simp_all
  have pmm: "pmm_inv (pmm b)" "free_frames (pmm b) = free_frames (pmm s) - {m, m + 1}" "paging_frame b = paging_frame a"
    unfolding b_def using paging_init_effect [of a m hw, unfolded a(1), OF inv z m least] by simp_all
  define c where "c = scheduler_init b"
  have c: "pmm c = pmm b" "heap_head c = 0" "heap_total c = 0" "heap_used c = 0" "idt_entries c = idt_entries s"
    "process_count c = 0" "next_pid c = 1" "page_mem c = page_mem b" "kernel_page_directory c = kernel_page_directory b"
    using a paging_frame_fields [OF pmm(3)] by (simp_all add: c_def scheduler_init_def Let_def con_puts_def del: upt_rec_numeral)
  obtain h where h: "keyboard_init hw img c = Some ((idt_set_gate 33 (addr_irq1_stub img) 0x08 0x8E
    (idt_set_gate 32 (addr_irq0_stub img) 0x08 0x8E c))\<lparr>io_trace := h\<rparr>)"
    using keyboard_init_returns [OF quiet] by blast
  define d where "d = (idt_set_gate 33 (addr_irq1_stub img) 0x08 0x8E (idt_set_gate 32 (addr_irq0_stub img) 0x08 0x8E c))\<lparr>io_trace := h\<rparr>"
  have d: "pmm d = pmm b" "heap_head d = 0" "heap_total d = 0" "heap_used d = 0" "process_count d = 0" "next_pid d = 1"
    "page_mem d = page_mem b" "kernel_page_directory d = kernel_page_directory b"
    "idt_entries d = idt_entries (idt_set_gate 33 (addr_irq1_stub img) 0x08 0x8E (idt_set_gate 32 (addr_irq0_stub img) 0x08 0x8E s))"
    using c by (simp_all add: d_def idt_set_gate_def)
  define t where "t = vfs_init hw (ata_init hw d)"
  have "kernel_core t = kernel_core d" by (simp add: t_def)
  note f = kernel_core_fields [OF this]
  have "heap_owns d []" using d pmm z by (simp add: heap_owns_def heap_wf_def heap_list_def heap_accounts_def)
  then have "heap_owns t []" using heap_owns_view [OF f(2)] by simp
  moreover have "boot_subsystems hw img s = Some t"
    using h by (simp add: boot_subsystems_def Let_def a_def [symmetric] b_def [symmetric] c_def [symmetric] d_def [symmetric] t_def)
  moreover have "paging_wf t" "vmap t = vmap b" using page(1) paging_view [of t b] f d by simp_all
  ultimately show ?thesis using page(2) pmm(2) f d by simp
qed

section \<open>The first processes\<close>

text \<open>A control block takes two pages.\<close>

lemma process_pages: "page_count (block_size SIZEOF_PROCESS) = 2"
  by code_simp

lemma kmalloc_first:
  fixes s :: "'a heap_sys_scheme"
  assumes owns: "heap_owns s []" and run: "run_available SIZEOF_PROCESS (pmm s)"
  shows "\<exists>p t. kmalloc SIZEOF_PROCESS s = Some (p, t) \<and>
    free_frames (pmm t) = free_frames (pmm s) - {Min (free_frames (pmm s))..<Min (free_frames (pmm s)) + 2}"
proof -
  have run': "run_available (align4 SIZEOF_PROCESS) (pmm s)" using run by (simp add: run_available_def)
  have z: "pmm_inv (pmm s)" "0 \<notin> free_frames (pmm s)" "heap_list (heap_mem s) (heap_head s) []"
    using owns by (simp_all add: heap_owns_def heap_wf_def)
  obtain t where t: "create_block (align4 SIZEOF_PROCESS) s = (page_addr (Min (free_frames (pmm s))), t)"
    "free_frames (pmm t) = free_frames (pmm s) - {Min (free_frames (pmm s))..<Min (free_frames (pmm s)) + 2}"
    "page_addr (Min (free_frames (pmm s))) \<noteq> 0"
    using create_block_run [OF z(1,2) run'] by (auto simp add: process_pages)
  then show ?thesis using kmalloc_miss [OF z(3) _ _ t(1)] by (auto simp add: link_last_def)
qed

lemma kmalloc_tables:
  fixes s t :: "'a desc_sys_scheme"
  assumes "kmalloc sz s = Some (p, t)"
  shows "page_mem t = page_mem s" "kernel_page_directory t = kernel_page_directory s" "idt_entries t = idt_entries s"
proof -
  have "heap_sys.more t = heap_sys.more s" by (rule kmalloc_more [OF assms])
  then show "page_mem t = page_mem s" "kernel_page_directory t = kernel_page_directory s" "idt_entries t = idt_entries s"
    by (cases s; cases t; simp)+
qed

lemma convert_frames:
  fixes s t u :: "'a sched_sys_scheme"
  assumes "scheduler_convert_current_process name s = Some t" and k: "kmalloc SIZEOF_PROCESS s = Some (p, u)"
    and "process_count s = 0" and "process_count t = 1"
  shows "heap_view t = heap_view u" "page_mem t = page_mem s" "kernel_page_directory t = kernel_page_directory s"
    "idt_entries t = idt_entries s" "current_process t = 0" "next_pid t = next_pid s + 1" "p_name (slot t 0) = take 31 name"
  using assms kmalloc_tables [OF k] kmalloc_sched_frames [OF k]
  by (auto simp add: scheduler_convert_current_process_def Let_def heap_view_def con_puts_def con_putc_def proc_context_def
      proc_setup_def upd_proc_def slot_def copy_name_def split: if_splits)

lemma add_common_frames:
  fixes s t u :: "'a sched_sys_scheme"
  assumes "add_common w msg col e name s = Some t" and k: "kmalloc SIZEOF_PROCESS s = Some (p, u)"
  shows "page_mem t = page_mem s" "kernel_page_directory t = kernel_page_directory s" "idt_entries t = idt_entries s"
    "current_process t = current_process s" "i < slots_used s \<Longrightarrow> processes t i = processes s i"
    "a \<noteq> p \<Longrightarrow> proc_mem t a = proc_mem s a" "process_count t \<noteq> process_count s \<Longrightarrow> processes t (slots_used s) = p"
  using assms kmalloc_tables [OF k] kmalloc_sched_frames [OF k]
  by (auto simp add: add_common_def Let_def con_puts_def con_putc_def proc_context_def
      proc_setup_def upd_proc_def slot_def copy_name_def split: if_splits prod.splits)


lemma boot_processes_spec:
  fixes s :: "'a sched_sys_scheme"
  assumes owns: "heap_owns s []" and zero: "process_count s = 0" "next_pid s = 1"
    and m: "{m..<m + 4} \<subseteq> free_frames (pmm s)" and least: "\<And>k. k \<in> free_frames (pmm s) \<Longrightarrow> m \<le> k"
  shows "\<exists>t. boot_processes shell s = Some t \<and> sched_inv t \<and> process_count t = 2 \<and> current_process t = 0 \<and>
    state_of t 0 = PROCESS_RUNNING \<and> pid (slot t 0) = 1 \<and> state_of t 1 = PROCESS_READY \<and> pid (slot t 1) = 2 \<and>
    p_name (slot t 1) = lit ''UserShellRing3'' \<and>
    (let r = restore_frame (stack_mem t) (ctx_esp (cpu_context (slot t 1))) regs
     in r_eip r = shell \<and> r_cs r = ucast USER_CS \<and> r_ss r = ucast USER_DS \<and> r_eflags r = 0x202 \<and>
        r_esp r = stack_addr (processes t 1) (KERNEL_STACK_SIZE - 256)) \<and>
    page_mem t = page_mem s \<and> kernel_page_directory t = kernel_page_directory s \<and> idt_entries t = idt_entries s"
proof -
  have "m \<in> free_frames (pmm s)" using m by auto
  then have min: "Min (free_frames (pmm s)) = m" using least by (intro Min_eqI) auto
  have run: "run_available SIZEOF_PROCESS (pmm s)" using m by (auto simp add: run_available_def process_pages min)
  from convert_effect [OF owns zero run] obtain u where
    u: "scheduler_convert_current_process (lit ''KernelMain'') s = Some u" "sched_inv u" "process_count u = 1"
      "state_of u 0 = PROCESS_RUNNING" "pid (slot u 0) = 1" by blast
  from kmalloc_first [OF owns run] obtain p v where
    v: "kmalloc SIZEOF_PROCESS s = Some (p, v)" "free_frames (pmm v) = free_frames (pmm s) - {m..<m + 2}" by (auto simp add: min)
  note uf = convert_frames [OF u(1) v(1) zero(1) u(3)]
  have F: "free_frames (pmm u) = free_frames (pmm s) - {m..<m + 2}" using uf(1) v(2) by (simp add: heap_view_def)
  have m2: "m + 2 \<in> free_frames (pmm u)" using m F by auto
  moreover have "m + 2 \<le> k" if "k \<in> free_frames (pmm u)" for k using least [of k] that F by auto
  ultimately have "Min (free_frames (pmm u)) = m + 2" by (intro Min_eqI) auto
  moreover have "{m + 2..<m + 2 + 2} \<subseteq> free_frames (pmm u)" using m F by auto
  moreover have "free_frames (pmm u) \<noteq> {}" using m2 by blast
  ultimately have run': "run_available SIZEOF_PROCESS (pmm u)" by (simp only: run_available_def process_pages simp_thms)
  then have ne: "free_frames (pmm u) \<noteq> {}" by (simp add: run_available_def)
  obtain q w where w: "kmalloc SIZEOF_PROCESS u = Some (q, w)"
    using u(2) kmalloc_process [of u _] run' unfolding sched_inv_def by blast
  obtain t where t: "scheduler_add_user_process shell (lit ''UserShellRing3'') u = Some t" "sched_inv t"
    and ef: "process_count t = 2" "pid (slot t 1) = next_pid u" "state_of t 1 = PROCESS_READY"
      "p_name (slot t 1) = take 31 (lit ''UserShellRing3'')" "processes t 1 \<noteq> processes u 0"
      "push_all (user_frame (processes t 1) shell) (stack_addr (processes t 1) KERNEL_STACK_SIZE, stack_mem u) =
        (ctx_esp (cpu_context (slot t 1)), stack_mem t)"
    unfolding scheduler_add_user_process_def
    using add_common_effect [OF u(2) _ impI [OF run'], of "\<lambda>proc. user_frame proc shell"
        "lit ''[SCHEDULER] Added User Process (Ring 3): ''" COLOR_LIGHT_GREEN shell "lit ''UserShellRing3''"] u(3) ne
    by (auto split: if_splits)
  note tf = add_common_frames [OF t(1) [unfolded scheduler_add_user_process_def] w]
  have "processes t 1 = q" using tf(7) u(3) ef(1) by simp
  then have "slot t 0 = slot u 0" using tf(5) [of 0] tf(6) [of "processes u 0"] u(3) ef(5) by (simp add: slot_def)
  moreover have "boot_processes shell s = Some t" using u(1) t(1) by (simp add: boot_processes_def)
  ultimately show ?thesis
    using t(2) ef tf(1-4) uf u(4,5) restore_user_frame [OF ef(6)] zero(2) by (simp add: state_of_def lit_def Let_def)
qed


section \<open>From the loader to the idle loop\<close>

lemma idle_rounds: "(kernel_idle ^^ n) s = s\<lparr>io_trace := replicate n Hlt @ io_trace s\<rparr>"
  by (induction n) (simp_all add: kernel_idle_def emit_def)

lemma boot_memory_spec:
  fixes s :: "'a desc_sys_scheme"
  assumes flags: "bit (mbi_flags mbi) 6" and mbi: "mbi = mbi_at (ram s) mbi_addr"
    and list: "mmap_list (ram s) (mmap_addr mbi) (mmap_addr mbi + mmap_length mbi) ens" and big: "0x200000 \<le> unat (mmap_memory ens)"
  shows "\<exists>t. boot_memory MULTIBOOT_MAGIC mbi_addr s = Some t \<and> pmm_inv (pmm t) \<and> idt_entries t = idt_entries s \<and>
    free_frames (pmm t) = {k. 512 \<le> k \<and> k < unat (mmap_memory ens) div 4096 \<and> (\<exists>en \<in> set ens. usable_page en k)}"
proof -
  obtain t where t: "pmm_init_multiboot (mmap_addr mbi) (mmap_length mbi) s = Some t" "pmm_inv (pmm t)"
      "free_frames (pmm t) = {k. 512 \<le> k \<and> k < unat (mmap_memory ens) div 4096 \<and> (\<exists>en \<in> set ens. usable_page en k)}"
    using pmm_init_multiboot_spec [OF list big] by blast
  have "mbi_flags mbi AND push_bit 6 1 \<noteq> 0" using flags and_single_bit_eq_0 [of "mbi_flags mbi" 6] by simp
  then have "boot_memory MULTIBOOT_MAGIC mbi_addr s = Some t" using t(1) by (simp add: boot_memory_def mbi)
  moreover have "idt_entries t = idt_entries s"
    using arg_cong [where f = idt_entries, OF multiboot_frames [OF list t(1), where p = "pmm s" and v = "vga s"]] by simp
  ultimately show ?thesis using t by blast
qed

text \<open>The whole of \<open>kernel_main\<close>.\<close>

lemma kernel_comes_up:
  fixes s :: "'a vfs_sys_scheme"
  assumes mbi: "mbi = mbi_at (ram s) mbi_addr" "bit (mbi_flags mbi) 6"
    and list: "mmap_list (ram s) (mmap_addr mbi) (mmap_addr mbi + mmap_length mbi) ens"
    and six: "\<forall>k \<in> {512..<518}. k < unat (mmap_memory ens) div 4096 \<and> (\<exists>en \<in> set ens. usable_page en k)"
    and quiet: "kbd_quiet hw"
  shows "\<exists>t. kernel_main hw img shell n MULTIBOOT_MAGIC mbi_addr s = Some t \<and>
    (\<forall>v < 1048576. vmap t v = (if v < 1024 then Some (of_nat v) else None)) \<and> idt_view t = kernel_gates img \<and>
    sched_inv t \<and> process_count t = 2 \<and> current_process t = 0 \<and> state_of t 0 = PROCESS_RUNNING \<and> pid (slot t 0) = 1 \<and>
    state_of t 1 = PROCESS_READY \<and> pid (slot t 1) = 2 \<and> p_name (slot t 1) = lit ''UserShellRing3'' \<and>
    (let r = restore_frame (stack_mem t) (ctx_esp (cpu_context (slot t 1))) regs
     in r_eip r = shell \<and> r_cs r = ucast USER_CS \<and> r_ss r = ucast USER_DS \<and> r_eflags r = 0x202 \<and>
        r_esp r = stack_addr (processes t 1) (KERNEL_STACK_SIZE - 256))"
proof -
  define a where "a = boot_tables img s"
  have a: "mbi = mbi_at (ram a) mbi_addr" "mmap_list (ram a) (mmap_addr mbi) (mmap_addr mbi + mmap_length mbi) ens"
    using mbi(1) list by (simp_all add: a_def boot_tables_ram)
  have "517 < unat (mmap_memory ens) div 4096" using six by simp
  then have "0x200000 \<le> unat (mmap_memory ens)" by linarith
  from boot_memory_spec [OF mbi(2) a this] obtain b where b: "boot_memory MULTIBOOT_MAGIC mbi_addr a = Some b" "pmm_inv (pmm b)" "idt_entries b = idt_entries a"
      "free_frames (pmm b) = {k. 512 \<le> k \<and> k < unat (mmap_memory ens) div 4096 \<and> (\<exists>en \<in> set ens. usable_page en k)}"
    by blast
  have F: "{512..<518} \<subseteq> free_frames (pmm b)" "\<And>k. k \<in> free_frames (pmm b) \<Longrightarrow> 512 \<le> k" using six b(4) by auto
  have m: "512 \<in> free_frames (pmm b)" "512 + 1 \<in> free_frames (pmm b)" "0 \<notin> free_frames (pmm b)"
    using F(1) F(2) [of 0] by auto
  from boot_subsystems_spec [OF b(2) m(3,1,2) F(2) quiet, of img] obtain c where
    c: "boot_subsystems hw img b = Some c" "heap_owns c []" "process_count c = 0" "next_pid c = 1"
      "free_frames (pmm c) = free_frames (pmm b) - {512, 513}"
      "\<forall>v < 1048576. vmap c v = (if v < 1024 then Some (of_nat v) else None)"
      "idt_entries c = idt_entries (idt_set_gate 33 (addr_irq1_stub img) 0x08 0x8E (idt_set_gate 32 (addr_irq0_stub img) 0x08 0x8E b))"
    by auto
  define d where "d = boot_banner hw c"
  have "kernel_core d = kernel_core c" by (simp add: d_def)
  note f = kernel_core_fields [OF this]
  have d: "heap_owns d []" "process_count d = 0" "next_pid d = 1" using c f heap_owns_view [OF f(2)] by simp_all
  have "514 \<le> k" if "k \<in> free_frames (pmm d)" for k using F(2) [of k] that c(5) f(1) by auto
  moreover have "{514..<514 + 4} \<subseteq> free_frames (pmm d)" using F(1) c(5) f(1) by auto
  ultimately obtain e where e: "boot_processes shell d = Some e" "sched_inv e" "process_count e = 2" "current_process e = 0"
      "state_of e 0 = PROCESS_RUNNING" "pid (slot e 0) = 1" "state_of e 1 = PROCESS_READY" "pid (slot e 1) = 2"
      "p_name (slot e 1) = lit ''UserShellRing3''"
      "let r = restore_frame (stack_mem e) (ctx_esp (cpu_context (slot e 1))) regs
       in r_eip r = shell \<and> r_cs r = ucast USER_CS \<and> r_ss r = ucast USER_DS \<and> r_eflags r = 0x202 \<and>
          r_esp r = stack_addr (processes e 1) (KERNEL_STACK_SIZE - 256)"
      "page_mem e = page_mem d" "kernel_page_directory e = kernel_page_directory d" "idt_entries e = idt_entries d"
    using boot_processes_spec [OF d, of 514 shell regs] by blast
  define t where "t = (kernel_idle ^^ n) e"
  have "kernel_main hw img shell n MULTIBOOT_MAGIC mbi_addr s = Some t"
    using b(1) c(1) e(1) by (simp add: kernel_main_def kernel_start_def a_def d_def t_def)
  moreover have "kernel_core t = kernel_core e" by (simp add: t_def idle_rounds)
  note g = kernel_core_fields [OF this]
  have "sched_wf t" using e(2) g by (simp add: sched_inv_def sched_wf_def sched_tab_def sched_states_def state_of_def slot_def)
  then have "sched_inv t" by (rule sched_inv_view [OF e(2) _ g(2-4)])
  moreover have "idt_view t = kernel_gates img"
    by (rule kernel_gates_installed) (simp add: e(13) f(11) c(7) g(11), simp add: b(3) a_def boot_tables_def Let_def)
  moreover have "vmap t = vmap c" by (rule paging_view(2)) (use e f g in simp_all)
  ultimately show ?thesis using e c(6) g by (simp add: state_of_def slot_def)
qed

text \<open>With the boot code running and only the shell READY, a yield enters the shell.\<close>

lemma first_switch:
  fixes t :: "'a sched_sys_scheme"
  assumes wf: "sched_wf t" and two: "process_count t = 2" "current_process t = 0"
    and st: "state_of t 0 = PROCESS_RUNNING" "state_of t 1 = PROCESS_READY"
  shows "\<exists>u. scheduler_yield_impl esp t = (ctx_esp (cpu_context (slot t 1)), u) \<and> current_process u = 1 \<and>
    state_of u 0 = PROCESS_READY \<and> state_of u 1 = PROCESS_RUNNING \<and>
    tss_esp0 (tss_entry u) = stack_addr (processes t 1) KERNEL_STACK_SIZE \<and> stack_mem u = stack_mem t"
proof -
  have frame_t: "stack_mem (snd (scheduler_yield_impl esp t)) = stack_mem t"
    by (simp add: scheduler_yield_impl_def switch_to_def Let_def upd_proc_def tss_set_kernel_stack_def split: option.split)
  have tab: "sched_tab t" and n: "1 < slots_used t" using wf two by (simp_all add: sched_wf_def)
  have one: "slot_after t d = 1" if "slot_after t d \<noteq> unat (current_process t)" for d
    using slot_after_less [of t d] that two by simp
  from yield_impl_cases [OF tab n, of esp] st(2) two obtain d u where
    d: "slot_after t d \<noteq> unat (current_process t)" "switched esp (slot_after t d) t u"
      "scheduler_yield_impl esp t = (ctx_esp (cpu_context (slot t (slot_after t d))), u)" by auto
  have "unat (current_process u) = 1" using d(2) one [OF d(1)] by (simp add: switched_def)
  then have "current_process u = 1" by (simp add: word_unat_eq_iff)
  then show ?thesis using d(2,3) one [OF d(1)] two st frame_t by (simp add: switched_def state_of_def Let_def)
qed

end
