(* ===== verification/Entry.thy ===== *)
theory Entry
  imports Syscall
begin

text \<open>
  The interrupt stubs of \<^verbatim>\<open>src/arch/i386/interrupts.s\<close>, from the interrupted instruction to the return.

  \<open>cpu_regs\<close> are the registers of the interrupted code.  The processor's part is what the architecture defines: on a change of
  privilege it switches to the stack of the task state segment and saves the old one there, it pushes flags, code segment and
  instruction pointer, and \<open>iretd\<close> takes them back, clearing data segment registers that the outer ring may not use.  What the C
  handler leaves in the registers is an argument (\<open>left\<close>).
\<close>

section \<open>The processor\<close>

definition ring3 :: "cpu_regs \<Rightarrow> bool" where
  "ring3 r \<longleftrightarrow> r_cs r AND 3 = 3"

definition entry_stack :: "'a desc_sys_scheme \<Rightarrow> cpu_regs \<Rightarrow> u32" where
  "entry_stack s r = (if ring3 r then tss_esp0 (tss_entry s) else r_esp r)"

definition entry_words :: "cpu_regs \<Rightarrow> u32 list" where
  "entry_words r = (if ring3 r then [r_ss r, r_esp r] else []) @ [r_eflags r, r_cs r, r_eip r]"

definition pusha :: "cpu_regs \<Rightarrow> u32 \<times> (u32 \<Rightarrow> u32) \<Rightarrow> u32 \<times> (u32 \<Rightarrow> u32)" where
  "pusha r st = push_all [r_eax r, r_ecx r, r_edx r, r_ebx r, fst st, r_ebp r, r_esi r, r_edi r] st"

text \<open>The stack segment inside the handler.\<close>

definition handler_ss :: "'a desc_sys_scheme \<Rightarrow> cpu_regs \<Rightarrow> u32" where
  "handler_ss s r = (if ring3 r then tss_ss0 (tss_entry s) else r_ss r)"

text \<open>A data segment register on the return to ring 3.\<close>

definition outer_segment :: "'a desc_sys_scheme \<Rightarrow> u32 \<Rightarrow> u32" where
  "outer_segment s sel = (if gdt_dpl (gdt_entries s (unat (drop_bit 3 sel))) < 3 then 0 else sel)"

section \<open>Hardware interrupts\<close>

definition irq_save :: "'a sched_sys_scheme \<Rightarrow> cpu_regs \<Rightarrow> u32 \<times> (u32 \<Rightarrow> u32)" where
  "irq_save s r =
     push_all [r_ds r, r_es r, r_fs r, r_gs r] (pusha r (push_all (entry_words r) (entry_stack s r, stack_mem s)))"

definition irq1_stub :: "hardware \<Rightarrow> cpu_regs \<Rightarrow> cpu_regs \<Rightarrow> 'a kbd_sys_scheme \<Rightarrow> cpu_regs \<times> 'a kbd_sys_scheme" where
  "irq1_stub hw left r s =
     (let (esp, m) = irq_save s r;
          ss = handler_ss s r;
          s = keyboard_handler hw (s\<lparr>stack_mem := m\<rparr>)
      in (restore_frame (stack_mem s) esp (left\<lparr>r_ss := ss\<rparr>), s))"

text \<open>The timer interrupt; its middle part is \<open>irq0_stub\<close>.\<close>

definition irq0_interrupt :: "cpu_regs \<Rightarrow> cpu_regs \<Rightarrow> 'a pit_sys_scheme \<Rightarrow> cpu_regs \<times> 'a pit_sys_scheme" where
  "irq0_interrupt left r s =
     (let (esp, m) = irq_save s r;
          ss = handler_ss s r;
          (esp, s) = irq0_stub esp (s\<lparr>stack_mem := m\<rparr>)
      in (restore_frame (stack_mem s) esp (left\<lparr>r_ss := ss\<rparr>), s))"

section \<open>Exceptions and system calls\<close>

text \<open>The structure at the address the handler gets.\<close>

definition regs_at :: "(u32 \<Rightarrow> u32) \<Rightarrow> u32 \<Rightarrow> registers_t" where
  "regs_at m esp =
     (let w = (\<lambda>i. m (esp + of_nat (4 * i)))
      in \<lparr>rg_ds = w 0, rg_edi = w 1, rg_esi = w 2, rg_ebp = w 3, rg_esp_dummy = w 4, rg_ebx = w 5, rg_edx = w 6,
          rg_ecx = w 7, rg_eax = w 8, rg_int_no = w 9, rg_err_code = w 10, rg_eip = w 11, rg_cs = w 12, rg_eflags = w 13\<rparr>)"

definition regs_words :: "registers_t \<Rightarrow> u32 list" where
  "regs_words q = [rg_eflags q, rg_cs q, rg_eip q, rg_err_code q, rg_int_no q, rg_eax q, rg_ecx q, rg_edx q, rg_ebx q,
     rg_esp_dummy q, rg_ebp q, rg_esi q, rg_edi q, rg_ds q]"

text \<open>The handler works on the structure in place; writing all its words back is the same.\<close>

definition store_regs :: "u32 \<Rightarrow> registers_t \<Rightarrow> (u32 \<Rightarrow> u32) \<Rightarrow> (u32 \<Rightarrow> u32)" where
  "store_regs esp q m = snd (push_all (regs_words q) (esp + 56, m))"

definition trap_save :: "u32 list \<Rightarrow> 'a sched_sys_scheme \<Rightarrow> cpu_regs \<Rightarrow> u32 \<times> (u32 \<Rightarrow> u32)" where
  "trap_save ws s r = push_all [r_ds r] (pusha r (push_all (entry_words r @ ws) (entry_stack s r, stack_mem s)))"

text \<open>\<open>pop ds; popa; add esp, 8; iretd\<close>, after which the other segment registers still hold the kernel's data segment.\<close>

definition trap_restore :: "'a sched_sys_scheme \<Rightarrow> u32 \<Rightarrow> cpu_regs \<Rightarrow> cpu_regs" where
  "trap_restore s esp r =
     (let w = (\<lambda>i. stack_mem s (esp + of_nat (4 * i)));
          r = r\<lparr>r_gs := 0x10, r_fs := 0x10, r_es := 0x10, r_ds := w 0,
                r_edi := w 1, r_esi := w 2, r_ebp := w 3, r_ebx := w 5, r_edx := w 6, r_ecx := w 7, r_eax := w 8,
                r_eip := w 11, r_cs := w 12, r_eflags := w 13\<rparr>
      in if ring3 r
         then r\<lparr>r_esp := w 14, r_ss := w 15, r_ds := outer_segment s (r_ds r), r_es := outer_segment s (r_es r),
                r_fs := outer_segment s (r_fs r), r_gs := outer_segment s (r_gs r)\<rparr>
         else r\<lparr>r_esp := esp + 56\<rparr>)"

text \<open>The vectors declared with \<open>ISR_ERRCODE\<close>; the others push a zero in place of the error code.\<close>

definition isr_errcode :: "nat list" where
  "isr_errcode = [8, 10, 11, 12, 13, 14, 17]"

text \<open>An exception; \<open>err\<close> is the error code if the processor pushes one.  The handler does not return.\<close>

definition isr_stub :: "hardware \<Rightarrow> nat \<Rightarrow> u32 option \<Rightarrow> cpu_regs \<Rightarrow> 'a sched_sys_scheme \<Rightarrow> 'a sched_sys_scheme" where
  "isr_stub hw n err r s =
     (let pushed = (case err of None \<Rightarrow> [] | Some e \<Rightarrow> [e]);
          stub = (if n \<in> set isr_errcode then [] else [0]) @ [of_nat n];
          (esp, m) = trap_save (pushed @ stub) s r
      in isr_handler hw (regs_at m esp) (s\<lparr>stack_mem := m\<rparr>))"

text \<open>\<open>resume\<close> is the stack pointer with which a call that gives up the processor is resumed, in the frame of the C handler.\<close>

definition syscall_stub ::
    "hardware \<Rightarrow> u32 \<Rightarrow> u32 \<Rightarrow> cpu_regs \<Rightarrow> cpu_regs \<Rightarrow> 'a vfs_sys_scheme \<Rightarrow>
      (cpu_regs \<times> 'a vfs_sys_scheme) option" where
  "syscall_stub hw null_idt resume left r s =
     (let (esp, m) = trap_save [0, 0x80] s r;
          ss = handler_ss s r
      in do {
        (q, s) \<leftarrow> syscall_handler hw null_idt resume (regs_at m esp) (s\<lparr>stack_mem := m\<rparr>);
        let s = s\<lparr>stack_mem := store_regs esp q (stack_mem s)\<rparr>;
        Some (trap_restore s esp (left\<lparr>r_ss := ss\<rparr>), s)
      })"

section \<open>Frames\<close>

lemma push_all_append: "push_all ys (push_all xs st) = push_all (xs @ ys) st"
  by (simp add: push_all_def)

text \<open>The \<open>n\<close> words under a stack pointer.\<close>

definition below_sp :: "u32 \<Rightarrow> nat \<Rightarrow> u32 set" where
  "below_sp tp n = (\<lambda>i. tp - of_nat (4 * Suc i)) ` {..<n}"

lemma below_sp_Suc: "below_sp tp (Suc n) = insert (tp - of_nat (4 * Suc n)) (below_sp tp n)"
  by (simp only: below_sp_def lessThan_Suc image_insert)

lemma below_sp_mono: "n \<le> k \<Longrightarrow> below_sp tp n \<subseteq> below_sp tp k"
  unfolding below_sp_def by (intro image_mono) auto

lemma push_all_other: "a \<notin> below_sp tp (length vs) \<Longrightarrow> snd (push_all vs (tp, m)) a = m a"
proof (induction vs rule: rev_induct)
  case (snoc v vs)
  have "fst (push_all vs (tp, m)) - 4 = tp - of_nat (4 * Suc (length vs))"
    unfolding push_all_top by (simp add: diff_diff_eq ac_simps)
  moreover have "a \<noteq> tp - of_nat (4 * Suc (length vs))" "a \<notin> below_sp tp (length vs)"
    using snoc.prems by (simp_all only: length_append_singleton below_sp_Suc insert_iff simp_thms de_Morgan_disj)
  ultimately have "a \<noteq> fst (push_all vs (tp, m)) - 4" "snd (push_all vs (tp, m)) a = m a" using snoc.IH by (simp_all only: simp_thms)
  then show ?case by (simp add: push_all_snoc push32_def split_beta)
qed (simp add: push_all_def)

text \<open>Everything an interrupt pushes, as one list.\<close>

definition irq_words :: "u32 \<Rightarrow> cpu_regs \<Rightarrow> u32 list" where
  "irq_words sp r = entry_words r @ [r_eax r, r_ecx r, r_edx r, r_ebx r, sp, r_ebp r, r_esi r, r_edi r, r_ds r, r_es r, r_fs r, r_gs r]"

lemma irq_save_words: "\<exists>sp. irq_save s r = push_all (irq_words sp r) (entry_stack s r, stack_mem s)"
  by (simp add: irq_save_def pusha_def push_all_append irq_words_def) (rule exI, rule refl)

lemma irq_words_length: "length (irq_words sp r) = (if ring3 r then 17 else 15)"
  by (simp add: irq_words_def entry_words_def)

lemma irq_save_outside: "{a. snd (irq_save s r) a \<noteq> stack_mem s a} \<subseteq> below_sp (entry_stack s r) 17"
proof -
  obtain sp where sp: "irq_save s r = push_all (irq_words sp r) (entry_stack s r, stack_mem s)" using irq_save_words by blast
  have "below_sp (entry_stack s r) (length (irq_words sp r)) \<subseteq> below_sp (entry_stack s r) 17"
    by (rule below_sp_mono) (simp add: irq_words_length)
  then show ?thesis using push_all_other [of _ "entry_stack s r" "irq_words sp r" "stack_mem s"] unfolding sp by blast
qed

text \<open>The interrupted registers come back from the frame.\<close>

lemma restore_irq_frame:
  assumes "irq_save s r = (esp, m)"
  shows "restore_frame m esp q = (if ring3 r then r else r\<lparr>r_ss := r_ss q\<rparr>)"
proof -
  obtain sp where sp: "irq_save s r = push_all (irq_words sp r) (entry_stack s r, stack_mem s)" using irq_save_words by blast
  note rd = frame_read(1) [OF _ sp [unfolded assms, symmetric], unfolded irq_words_length]
  note rds = rd [of 0] rd [of 1] rd [of 2] rd [of 3] rd [of 4] rd [of 5] rd [of 6] rd [of 8] rd [of 9] rd [of 10]
    rd [of 11] rd [of 12] rd [of 13] rd [of 14]
  have esp: "esp = entry_stack s r - of_nat (4 * (if ring3 r then 17 else 15))"
    using frame_read(2) [OF _ sp [unfolded assms, symmetric]] by (simp add: irq_words_length)
  show ?thesis
  proof (cases "ring3 r")
    case True
    then show ?thesis using rds rd [of 15] rd [of 16]
      by (cases r) (simp add: restore_frame_def Let_def irq_words_def entry_words_def ring3_def)
  next
    case False
    then show ?thesis using rds esp
      by (cases r; cases q) (simp add: restore_frame_def Let_def irq_words_def entry_words_def ring3_def entry_stack_def)
  qed
qed

section \<open>Handlers and the stack\<close>

lemma keyboard_handler_stack: "stack_mem (keyboard_handler hw s) = stack_mem s"
  by (simp add: keyboard_handler_def inb_def outb_def emit_def key_press_def kbd_push_def Let_def split_beta)

text \<open>What the return from a trap reads.\<close>

definition trap_view :: "'a sched_sys_scheme \<Rightarrow> (u32 \<Rightarrow> u32) \<times> (nat \<Rightarrow> gdt_entry_t)" where
  "trap_view s = (stack_mem s, gdt_entries s)"

lemma yield_impl_view: "trap_view (snd (scheduler_yield_impl esp s)) = trap_view s"
  by (simp add: scheduler_yield_impl_def switch_to_def Let_def upd_proc_def tss_set_kernel_stack_def trap_view_def split: option.split)

lemma irq0_stub_stack: "stack_mem (snd (irq0_stub esp s)) = stack_mem s"
proof -
  have "stack_mem (pit_handler s) = stack_mem s"
    by (simp add: pit_handler_def scheduler_tick_def Let_def outb_def emit_def)
  then show ?thesis using yield_impl_view [of esp "(pit_handler s)\<lparr>schedule_needed := 0\<rparr>"]
    by (simp add: irq0_stub_def Let_def split_beta trap_view_def)
qed

lemma more_view: "heap_sys.more t = heap_sys.more s \<Longrightarrow> trap_view t = trap_view (s :: 'a sched_sys_scheme)"
  by (cases s; cases t; simp add: trap_view_def)

lemma kfree_more: "heap_sys.more (kfree a s) = heap_sys.more (s :: 'a heap_sys_scheme)"
proof -
  have "heap_sys.more (merge_next b t) = heap_sys.more t" "heap_sys.more (merge_prev b t) = heap_sys.more t" for b and t :: "'a heap_sys_scheme"
    by (simp_all add: merge_next_def merge_prev_def Let_def free_run_more)
  then show ?thesis by (simp add: kfree_def Let_def con_more)
qed

lemma sys_read_view: "trap_view (snd (sys_read_loop buf count n s)) = trap_view s"
proof (induction buf count n s rule: sys_read_loop.induct)
  case (1 buf count n s)
  have "trap_view (snd (keyboard_getchar s)) = trap_view s" by (simp add: keyboard_getchar_def trap_view_def)
  moreover have "trap_view (t\<lparr>ram := m\<rparr>) = trap_view t" for m and t :: "'a kbd_sys_scheme" by (simp add: trap_view_def)
  ultimately show ?case using 1 by (subst sys_read_loop.simps) (auto simp add: split_beta Let_def)
qed

text \<open>The calls that come back to their caller.\<close>

definition returning :: "u32 \<Rightarrow> bool" where
  "returning n \<longleftrightarrow> n \<noteq> SYS_EXIT \<and> n \<noteq> SYS_SHUTDOWN \<and> n \<noteq> SYS_REBOOT"

lemma syscall_handler_view:
  fixes s t :: "'a vfs_sys_scheme"
  assumes "syscall_handler hw null_idt esp q s = Some (q', t)" and "returning (rg_eax q)"
  shows "trap_view t = trap_view s"
proof -
  have yield: "trap_view (scheduler_yield esp s) = trap_view s" by (simp add: scheduler_yield_def yield_impl_view)
  have con: "trap_view (con_puts x c u) = trap_view u" "trap_view (con_putc y c u) = trap_view u" for x y c and u :: "'a vfs_sys_scheme"
    by (simp_all add: con_puts_def con_putc_def trap_view_def)
  have wr: "trap_view u = trap_view s" if "sys_write_call fd str n s = Some (v, u)" for fd str n v u
    using that by (auto simp add: sys_write_call_def con Let_def bind_eq_Some_conv split: if_splits)
  have rd: "trap_view u = trap_view s" if "map_prod f id (sys_read_call fd buf n s) = (v, u)" for f :: "u32 \<Rightarrow> registers_t" and fd buf n v u
  proof -
    have "u = snd (sys_read_call fd buf n s)" using that by (cases "sys_read_call fd buf n s") simp
    then show ?thesis by (simp add: sys_read_call_def sys_read_view)
  qed
  have al: "trap_view u = trap_view s" if "kmalloc n s = Some (v, u)" for n v u
    by (rule more_view [OF kmalloc_more [OF that]])
  have fr: "trap_view (kfree a s) = trap_view s" for a by (rule more_view [OF kfree_more])
  show ?thesis using assms by (auto simp add: syscall_handler_def returning_def Let_def yield con fr dest: wr al rd split: if_splits)
qed

section \<open>Trap frames\<close>

text \<open>What a handler is given for the registers \<open>r\<close>, and the words on the stack.\<close>

definition trap_regs :: "u32 \<Rightarrow> u32 \<Rightarrow> u32 \<Rightarrow> cpu_regs \<Rightarrow> registers_t" where
  "trap_regs sp num err r =
     \<lparr>rg_ds = r_ds r, rg_edi = r_edi r, rg_esi = r_esi r, rg_ebp = r_ebp r, rg_esp_dummy = sp, rg_ebx = r_ebx r,
      rg_edx = r_edx r, rg_ecx = r_ecx r, rg_eax = r_eax r, rg_int_no = num, rg_err_code = err, rg_eip = r_eip r,
      rg_cs = r_cs r, rg_eflags = r_eflags r\<rparr>"

lemma trap_save_words:
  "\<exists>sp. trap_save [err, num] s r =
     push_all ((if ring3 r then [r_ss r, r_esp r] else []) @ regs_words (trap_regs sp num err r)) (entry_stack s r, stack_mem s)"
  by (cases "ring3 r") (simp add: trap_save_def pusha_def push_all_append entry_words_def regs_words_def trap_regs_def, rule exI, rule refl)+

lemma regs_at_words:
  assumes "\<And>j. j < 14 \<Longrightarrow> m (esp + of_nat (4 * j)) = rev (regs_words q) ! j"
  shows "regs_at m esp = q"
proof -
  note rd = assms [of 0] assms [of 1] assms [of 2] assms [of 3] assms [of 4] assms [of 5] assms [of 6] assms [of 7] assms [of 8]
    assms [of 9] assms [of 10] assms [of 11] assms [of 12] assms [of 13]
  then show ?thesis by (cases q) (simp add: regs_at_def regs_words_def Let_def)
qed

lemma regs_words_length [simp]: "length (regs_words q) = 14"
  by (simp add: regs_words_def)

lemma trap_frame:
  assumes "trap_save [err, num] s r = (esp, m)"
  shows "\<exists>sp. regs_at m esp = trap_regs sp num err r"
    and "ring3 r \<Longrightarrow> m (esp + 56) = r_esp r \<and> m (esp + 60) = r_ss r"
    and "\<not> ring3 r \<Longrightarrow> esp + 56 = r_esp r"
proof -
  obtain sp where sp: "push_all ((if ring3 r then [r_ss r, r_esp r] else []) @ regs_words (trap_regs sp num err r))
      (entry_stack s r, stack_mem s) = (esp, m)" using trap_save_words [of err num s r] assms by auto
  note rd = frame_read(1) [OF _ sp]
  have "m (esp + of_nat (4 * j)) = rev (regs_words (trap_regs sp num err r)) ! j" if "j < 14" for j
    using rd [of j] that by (simp add: nth_append)
  then show "\<exists>sp. regs_at m esp = trap_regs sp num err r" using regs_at_words by blast
  show "m (esp + 56) = r_esp r \<and> m (esp + 60) = r_ss r" if "ring3 r"
    using rd [of 14] rd [of 15] that by (simp add: nth_append)
  show "esp + 56 = r_esp r" if "\<not> ring3 r"
    using frame_read(2) [OF _ sp] that by (simp add: entry_stack_def)
qed

lemma store_regs_words:
  shows "j < 14 \<Longrightarrow> store_regs esp q m (esp + of_nat (4 * j)) = rev (regs_words q) ! j"
    and "store_regs esp q m (esp + 56) = m (esp + 56)" and "store_regs esp q m (esp + 60) = m (esp + 60)"
proof -
  have push: "push_all (regs_words q) (esp + 56, m) = (esp, store_regs esp q m)"
    using push_all_top [of "regs_words q" "esp + 56" m] by (simp add: store_regs_def prod_eq_iff)
  show "store_regs esp q m (esp + of_nat (4 * j)) = rev (regs_words q) ! j" if "j < 14"
    using frame_read(1) [OF _ push] that by simp
  have "esp + 56 + d \<notin> below_sp (esp + 56) 14" if "d = 0 \<or> d = 4" for d
  proof
    assume "esp + 56 + d \<in> below_sp (esp + 56) 14"
    then obtain i where i: "i < 14" "esp + 56 + d = esp + 56 - of_nat (4 * Suc i)" unfolding below_sp_def by blast
    have "esp + 56 - (esp + 56 - of_nat (4 * Suc i)) = - d" unfolding i(2) [symmetric] by simp
    then have "of_nat (4 * Suc i) = - d" by simp
    then have "unat (of_nat (4 * Suc i) :: u32) = unat (- d)" by (rule arg_cong)
    moreover have "unat (of_nat (4 * Suc i) :: u32) = 4 * Suc i" unfolding unat_of_nat using i(1) by simp
    ultimately show False using that i(1) by auto
  qed
  from this [of 0] this [of 4] push_all_other [of _ "esp + 56" "regs_words q" m]
  show "store_regs esp q m (esp + 56) = m (esp + 56)" "store_regs esp q m (esp + 60) = m (esp + 60)"
    by (simp_all add: store_regs_def ac_simps)
qed

lemma trap_restore_stored:
  assumes q: "q = (trap_regs sp num err r)\<lparr>rg_eax := v\<rparr>" and stk: "stack_mem t = store_regs esp q m"
    and frame: "m (esp + 56) = r_esp r" "m (esp + 60) = r_ss r" and user: "ring3 r"
    and gdt: "gdt_dpl (gdt_entries t 2) = 0" "gdt_dpl (gdt_entries t 4) = 3" and ds: "r_ds r = ucast USER_DS"
  shows "trap_restore t esp l = r\<lparr>r_eax := v, r_es := 0, r_fs := 0, r_gs := 0\<rparr>"
proof -
  note w = store_regs_words(1) [of _ esp q m]
  note ws = w [of 0] w [of 1] w [of 2] w [of 3] w [of 5] w [of 6] w [of 7] w [of 8] w [of 11] w [of 12] w [of 13]
  have seg: "outer_segment t 0x10 = 0" "outer_segment t 0x23 = 0x23"
    using gdt by (simp_all add: outer_segment_def drop_bit_eq_div)
  show ?thesis
    using ws store_regs_words(2,3) [of esp q m] frame user ds seg
    by (cases r) (simp add: trap_restore_def Let_def stk q regs_words_def trap_regs_def ring3_def)
qed

section \<open>Properties\<close>

text \<open>The keyboard interrupt is transparent: whatever code it interrupts and whatever the C handler leaves in the registers,
  every register comes back, and of the stacks only the seventeen words under the kernel stack pointer change.\<close>

theorem keyboard_interrupt_transparent:
  "\<exists>m. irq1_stub hw left r s = (r, keyboard_handler hw (s\<lparr>stack_mem := m\<rparr>)) \<and>
     {a. m a \<noteq> stack_mem s a} \<subseteq> below_sp (entry_stack s r) 17"
proof -
  obtain esp m where m: "irq_save s r = (esp, m)" by force
  have "stack_mem (keyboard_handler hw (s\<lparr>stack_mem := m\<rparr>)) = m" by (simp add: keyboard_handler_stack)
  then have "irq1_stub hw left r s = (r, keyboard_handler hw (s\<lparr>stack_mem := m\<rparr>))"
    using restore_irq_frame [OF m, of "left\<lparr>r_ss := handler_ss s r\<rparr>"] by (simp add: irq1_stub_def m handler_ss_def)
  then show ?thesis using irq_save_outside [of s r] m by auto
qed


definition demo_user_regs :: cpu_regs where
  "demo_user_regs = \<lparr>r_gs = 0x23, r_fs = 0x23, r_es = 0x23, r_ds = 0x23, r_edi = 1, r_esi = 2, r_ebp = 3, r_ebx = 4, r_edx = 5,
     r_ecx = 6, r_eax = 4, r_eip = 0x104000, r_cs = 0x1B, r_eflags = 0x202, r_esp = 0x206000, r_ss = 0x23\<rparr>"

lemma demo_user_ring3: "ring3 demo_user_regs"
  by code_simp


text \<open>C25. A system call from ring 3 gives its caller every register back except \<open>eax\<close>, the result, and the segment registers ES, FS and
  GS: the stub loads them with the kernel's data segment and never restores them, and the return to ring 3 clears them because of
  the privilege of that segment.\<close>

theorem syscall_returns_registers:
  fixes s :: "'a vfs_sys_scheme"
  assumes user: "ring3 r" and ds: "r_ds r = ucast USER_DS" and ret: "returning (r_eax r)"
    and gdt: "gdt_entries s = gdt_entries (gdt_init img (s0 :: 'b desc_sys_scheme))"
  shows "\<exists>sp m. map_option fst (syscall_stub hw null_idt resume left r s) =
    map_option (\<lambda>(q, u). r\<lparr>r_eax := rg_eax q, r_es := 0, r_fs := 0, r_gs := 0\<rparr>)
      (syscall_handler hw null_idt resume (trap_regs sp 0x80 0 r) (s\<lparr>stack_mem := m\<rparr>))"
proof -
  obtain esp m where m: "trap_save [0, 0x80] s r = (esp, m)" by force
  obtain sp where sp: "regs_at m esp = trap_regs sp 0x80 0 r" using trap_frame(1) [OF m] by blast
  note words = trap_frame(2) [OF m user]
  have dpl: "gdt_dpl (gdt_entries s 2) = 0" "gdt_dpl (gdt_entries s 4) = 3"
    using gdt_init_segments [of img s0] by (simp_all add: gdt Let_def drop_bit_eq_div)
  let ?h = "syscall_handler hw null_idt resume (trap_regs sp 0x80 0 r) (s\<lparr>stack_mem := m\<rparr>)"
  have "map_option fst (syscall_stub hw null_idt resume left r s) =
      map_option (\<lambda>(q, u). r\<lparr>r_eax := rg_eax q, r_es := 0, r_fs := 0, r_gs := 0\<rparr>) ?h"
  proof (cases ?h)
    case None
    then show ?thesis by (simp add: syscall_stub_def m sp)
  next
    case (Some qu)
    obtain q u where qu: "?h = Some (q, u)" using Some by (cases qu) simp
    have "q\<lparr>rg_eax := r_eax r\<rparr> = trap_regs sp 0x80 0 r"
      using syscall_handler_regs [of "trap_regs sp 0x80 0 r" hw null_idt resume "s\<lparr>stack_mem := m\<rparr>"] qu by (simp add: trap_regs_def)
    then have q: "q = (trap_regs sp 0x80 0 r)\<lparr>rg_eax := rg_eax q\<rparr>" by (cases q) (simp add: trap_regs_def)
    have "trap_view u = trap_view (s\<lparr>stack_mem := m\<rparr>)"
      using syscall_handler_view [OF qu] ret by (simp add: trap_regs_def)
    then have view: "stack_mem u = m" "gdt_entries u = gdt_entries s" by (simp_all add: trap_view_def)
    have "trap_restore (u\<lparr>stack_mem := store_regs esp q (stack_mem u)\<rparr>) esp (left\<lparr>r_ss := handler_ss s r\<rparr>) =
        r\<lparr>r_eax := rg_eax q, r_es := 0, r_fs := 0, r_gs := 0\<rparr>"
      by (rule trap_restore_stored [OF q, of _ esp m]) (use view words user ds dpl in simp_all)
    then show ?thesis using qu by (simp add: syscall_stub_def m sp)
  qed
  then show ?thesis by blast
qed

theorem syscall_returns_registers_witness:
  "map_option fst (syscall_stub (demo_hw demo_disk) 0 0 demo_user_regs demo_user_regs (gdt_init demo_image demo_vfs)) =
     Some (demo_user_regs\<lparr>r_eax := scheduler_get_current_pid demo_vfs, r_es := 0, r_fs := 0, r_gs := 0\<rparr>)"
proof -
  have "r_ds demo_user_regs = ucast USER_DS" "returning (r_eax demo_user_regs)" by code_simp+
  then obtain sp m where
    "map_option fst (syscall_stub (demo_hw demo_disk) 0 0 demo_user_regs demo_user_regs (gdt_init demo_image demo_vfs)) =
      map_option (\<lambda>(q, u). demo_user_regs\<lparr>r_eax := rg_eax q, r_es := 0, r_fs := 0, r_gs := 0\<rparr>)
       (syscall_handler (demo_hw demo_disk) 0 0 (trap_regs sp 0x80 0 demo_user_regs) ((gdt_init demo_image demo_vfs)\<lparr>stack_mem := m\<rparr>))"
    using syscall_returns_registers [OF demo_user_ring3 _ _ refl] by blast
  moreover have "scheduler_get_current_pid ((gdt_init demo_image demo_vfs)\<lparr>stack_mem := m\<rparr>) = scheduler_get_current_pid demo_vfs"
    by (simp add: scheduler_get_current_pid_def slot_def gdt_init_def Let_def gdt_flush_def tss_flush_def write_tss_def gdt_set_gate_def emit_def)
  ultimately show ?thesis by (simp add: syscall_handler_def trap_regs_def demo_user_regs_def)
qed

text \<open>An exception whose error code the processor pushes exactly when its stub expects one reaches the handler with the number of
  the exception, the code (0 without one) and the registers of the code that caused it.\<close>

theorem exception_frame:
  assumes "err = None \<longleftrightarrow> n \<notin> set isr_errcode"
  shows "\<exists>sp m. isr_stub hw n err r s =
    isr_handler hw (trap_regs sp (of_nat n) (case err of None \<Rightarrow> 0 | Some e \<Rightarrow> e) r) (s\<lparr>stack_mem := m\<rparr>)"
proof -
  let ?e = "case err of None \<Rightarrow> 0 | Some e \<Rightarrow> e"
  obtain esp m where m: "trap_save [?e, of_nat n] s r = (esp, m)" by force
  have "isr_stub hw n err r s = isr_handler hw (regs_at m esp) (s\<lparr>stack_mem := m\<rparr>)"
    using assms m by (cases err) (simp_all add: isr_stub_def)
  then show ?thesis using trap_frame(1) [OF m] by metis
qed

theorem exception_frame_witness:
  "\<exists>sp m. isr_stub blank_hw 14 (Some 6) demo_user_regs demo_vfs =
    isr_handler blank_hw (trap_regs sp 14 6 demo_user_regs) (demo_vfs\<lparr>stack_mem := m\<rparr>)"
  using exception_frame [of "Some 6" 14 blank_hw demo_user_regs demo_vfs] by (simp add: isr_errcode_def)

end
