(* ===== verification/Kernel_Run.thy ===== *)
theory Kernel_Run
  imports Boot_Props Entry
begin

text \<open>
  The kernel after the start, as one transition system over all its entries: the timer and the keyboard interrupt with their
  stubs, \<open>int 0x80\<close> with the stub around the dispatcher, the scheduler and file system functions that the shell calls
  without a system call, and whatever a process does to its own memory in between.

  One invariant ties the components together: the process table, the heap under it and the page allocator (\<open>sched_live\<close>), the
  keyboard ring, the cursor of the screen, the interrupt gates, the segments and the page tables.
\<close>

section \<open>What the invariant depends on\<close>

definition sched_view ::
    "'a sched_sys_scheme \<Rightarrow> (pmm_t \<times> u32 \<times> u32 \<times> u32 \<times> (u32 \<Rightarrow> heap_block_t)) \<times> (nat \<Rightarrow> u32) \<times> (u32 \<Rightarrow> process_t) \<times> u32 \<times> u32 \<times> u32" where
  "sched_view s = (heap_view s, processes s, proc_mem s, current_process s, process_count s, next_pid s)"

lemma live_view:
  assumes "sched_view t = sched_view s"
  shows "sched_live t = sched_live s"
proof -
  have h: "heap_view t = heap_view s" and f: "processes t = processes s" "proc_mem t = proc_mem s" "current_process t = current_process s"
      "process_count t = process_count s" "next_pid t = next_pid s"
    using assms by (simp_all add: sched_view_def)
  have slot: "slot t = slot s" "state_of t = state_of s" by (simp_all add: fun_eq_iff slot_def state_of_def f)
  show ?thesis
    unfolding sched_live_def sched_inv_def sched_wf_def sched_tab_def sched_states_def heap_owns_view [OF h] live_blocks_view [OF h] slot f
    by (rule refl)
qed

lemma sched_view_upd [simp]:
  fixes s :: "'a vfs_sys_scheme"
  shows "sched_view (s\<lparr>io_trace := h\<rparr>) = sched_view s" "sched_view (s\<lparr>ram := m\<rparr>) = sched_view s"
    "sched_view (s\<lparr>vga := v\<rparr>) = sched_view s" "sched_view (s\<lparr>stack_mem := k\<rparr>) = sched_view s"
    "sched_view (s\<lparr>kbd_tail := i\<rparr>) = sched_view s" "sched_view (s\<lparr>kbd_head := i\<rparr>) = sched_view s"
    "sched_view (s\<lparr>kbd_buffer := b\<rparr>) = sched_view s" "sched_view (s\<lparr>is_e0_prefix := e\<rparr>) = sched_view s"
    "sched_view (s\<lparr>pit_ticks := n\<rparr>) = sched_view s" "sched_view (s\<lparr>schedule_needed := e\<rparr>) = sched_view s"
  by (simp_all add: sched_view_def heap_view_def)

text \<open>The descriptor tables, the page tables and the keyboard ring.\<close>

definition device_view ::
    "'a kbd_sys_scheme \<Rightarrow> (u32 \<Rightarrow> nat \<Rightarrow> page_entry_t) \<times> u32 \<times> (u8 \<Rightarrow> idt_entry_t) \<times> (nat \<Rightarrow> gdt_entry_t) \<times> u32 \<times> u32" where
  "device_view s = (page_mem s, kernel_page_directory s, idt_entries s, gdt_entries s, kbd_head s, kbd_tail s)"

lemma device_view_upd [simp]:
  fixes s :: "'a vfs_sys_scheme"
  shows "device_view (s\<lparr>io_trace := h\<rparr>) = device_view s" "device_view (s\<lparr>ram := m\<rparr>) = device_view s"
    "device_view (s\<lparr>vga := v\<rparr>) = device_view s" "device_view (s\<lparr>stack_mem := k\<rparr>) = device_view s"
    "device_view (s\<lparr>is_e0_prefix := e\<rparr>) = device_view s" "device_view (s\<lparr>pit_ticks := n\<rparr>) = device_view s"
    "device_view (s\<lparr>schedule_needed := e\<rparr>) = device_view s" "device_view (s\<lparr>tick_counter := c\<rparr>) = device_view s"
    "device_view (s\<lparr>current_process := c\<rparr>) = device_view s" "device_view (s\<lparr>processes := a\<rparr>) = device_view s"
    "device_view (s\<lparr>process_count := c\<rparr>) = device_view s" "device_view (s\<lparr>next_pid := c\<rparr>) = device_view s"
    "device_view (upd_proc p f s) = device_view s" "device_view (tss_set_kernel_stack c s) = device_view s"
    "device_view (con_puts str col s) = device_view s" "device_view (con_putc ch col s) = device_view s"
  by (simp_all add: device_view_def upd_proc_def tss_set_kernel_stack_def con_puts_def con_putc_def)

text \<open>The segments of ring 0 and ring 3 as \<open>gdt_init\<close> sets them up.\<close>

definition kernel_segments :: "'a desc_sys_scheme \<Rightarrow> bool" where
  "kernel_segments s \<longleftrightarrow>
     map (\<lambda>i. access (gdt_entries s i)) [1, 2, 3, 4] = [0x9A, 0x92, 0xFA, 0xF2] \<and>
     map (\<lambda>i. gdt_dpl (gdt_entries s i)) [1, 2, 3, 4] = [0, 0, 3, 3]"

definition system_inv :: "image \<Rightarrow> 'a kbd_sys_scheme \<Rightarrow> bool" where
  "system_inv img s \<longleftrightarrow> sched_live s \<and> kbd_inv s \<and> vga_inv (vga s) \<and> idt_view s = kernel_gates img \<and> kernel_segments s \<and>
     (\<forall>v < 1048576. vmap s v = (if v < 1024 then Some (of_nat v) else None))"

lemma system_inv_keep:
  assumes "system_inv img s" and "sched_live t" and "device_view t = device_view s" and "vga_inv (vga t)"
  shows "system_inv img t"
proof -
  have f: "page_mem t = page_mem s" "kernel_page_directory t = kernel_page_directory s" "idt_entries t = idt_entries s"
      "gdt_entries t = gdt_entries s" "kbd_head t = kbd_head s" "kbd_tail t = kbd_tail s"
    using assms(3) by (simp_all add: device_view_def)
  have "idt_view t = idt_view s" by (simp add: fun_eq_iff idt_view_def f)
  then show ?thesis using assms(1,2,4) paging_view(2) [OF f(1,2)] by (simp add: system_inv_def kbd_inv_def kernel_segments_def f)
qed

lemma system_inv_parts: "system_inv img s \<Longrightarrow> sched_live s" "system_inv img s \<Longrightarrow> kbd_inv s" "system_inv img s \<Longrightarrow> vga_inv (vga s)"
  by (simp_all add: system_inv_def)

lemma system_inv_view:
  assumes "system_inv img s" and "sched_view t = sched_view s" and "device_view t = device_view s" and "vga_inv (vga t)"
  shows "system_inv img t"
  using system_inv_keep [OF assms(1) _ assms(3,4)] assms(1) live_view [OF assms(2)] by (simp add: system_inv_def)

lemma kernel_core_views:
  assumes "kernel_core t = kernel_core s"
  shows "sched_view t = sched_view s" "device_view t = device_view s"
  using kernel_core_fields [OF assms] by (simp_all add: sched_view_def device_view_def)

section \<open>The screen\<close>

text \<open>Operations that print keep the cursor on the screen.\<close>

named_theorems screen_simps

lemma print_screen [screen_simps]:
  "vga_inv (vga s) \<Longrightarrow> vga_inv (vga (con_puts str col s))" "vga_inv (vga s) \<Longrightarrow> vga_inv (vga (con_putc c col s))"
  by (simp_all add: con_puts_def con_putc_def vga_puts_inv vga_putc_inv)

lemma quiet_screen [screen_simps]:
  "vga (upd_proc p f s) = vga s" "vga (tss_set_kernel_stack c s) = vga s" "vga (emit e s) = vga s" "vga (outb q b s) = vga s"
  "vga (snd (inb hw q s)) = vga s" "vga (wake_one w i s) = vga s"
  by (simp_all add: upd_proc_def tss_set_kernel_stack_def emit_def outb_def inb_def wake_one_def)

lemma yield_screen [screen_simps]: "vga (snd (scheduler_yield_impl esp s)) = vga s" "vga (scheduler_yield esp s) = vga s"
  by (simp_all add: scheduler_yield_def scheduler_yield_impl_def switch_to_def Let_def screen_simps split: option.split)

lemma wake_screen [screen_simps]: "vga (wake_waiters p s) = vga s"
proof -
  have "vga (fold (wake_one p) is s) = vga s" for "is" by (induction "is" arbitrary: s) (simp_all add: screen_simps)
  then show ?thesis by (simp add: wake_waiters_def)
qed

lemma pmm_screen [screen_simps]:
  "vga_inv (vga s) \<Longrightarrow> vga_inv (vga (snd (pmm_alloc_page s)))" "vga_inv (vga s) \<Longrightarrow> vga_inv (vga (pmm_free_page a s))"
  by (simp_all add: pmm_alloc_page_def pmm_free_page_def Let_def screen_simps split: option.split)

lemma free_run_screen [screen_simps]: "vga_inv (vga s) \<Longrightarrow> vga_inv (vga (free_page_run a n s))"
  by (induction n) (simp_all add: free_page_run_def screen_simps)

lemma alloc_more_screen: "vga_inv (vga s) \<Longrightarrow> vga_inv (vga (snd (alloc_more_pages page i n s)))"
proof (induction page i n s rule: alloc_more_pages.induct)
  case (1 page i n s)
  obtain q t where qt: "pmm_alloc_page s = (q, t)" by force
  then have "vga_inv (vga t)" using pmm_screen(1) [of s] 1 by simp
  then show ?case using 1 qt by (subst alloc_more_pages.simps) (simp add: screen_simps split: if_splits)
qed

lemma kmalloc_screen: "kmalloc sz s = Some (p, t) \<Longrightarrow> vga_inv (vga s) \<Longrightarrow> vga_inv (vga t)"
proof -
  assume k: "kmalloc sz s = Some (p, t)" and v: "vga_inv (vga s)"
  have "vga_inv (vga (snd (create_block n s)))" for n
  proof -
    obtain page s1 where a: "pmm_alloc_page s = (page, s1)" by force
    obtain ok s2 where m: "alloc_more_pages page 1 (page_count (block_size n)) s1 = (ok, s2)" by force
    have "vga_inv (vga s1)" using pmm_screen(1) [OF v] a by simp
    then have "vga_inv (vga s2)" "vga_inv (vga s1)" using alloc_more_screen [of s1 page 1 "page_count (block_size n)"] m by simp_all
    then show ?thesis unfolding create_block_unfold Let_def a m prod.case using v by simp
  qed
  moreover obtain b u where "create_block (align4 sz) s = (b, u)" by force
  ultimately have "create_block (align4 sz) s = (b, u) \<and> vga_inv (vga u)" by (metis snd_conv)
  then show ?thesis using k v by (auto simp add: kmalloc_def Let_def split: if_splits option.splits)
qed

lemma kfree_screen [screen_simps]: "vga_inv (vga s) \<Longrightarrow> vga_inv (vga (kfree a (s :: 'a heap_sys_scheme)))"
proof -
  assume v: "vga_inv (vga s)"
  have "vga_inv (vga t) \<Longrightarrow> vga_inv (vga (merge_next b t))" "vga_inv (vga t) \<Longrightarrow> vga_inv (vga (merge_prev b t))" for b and t :: "'a heap_sys_scheme"
    by (simp_all add: merge_next_def merge_prev_def Let_def screen_simps)
  then show ?thesis using v by (simp add: kfree_def Let_def screen_simps)
qed

lemma exit_screen [screen_simps]: "vga_inv (vga s) \<Longrightarrow> vga_inv (vga (process_exit code esp s))"
  by (simp add: process_exit_def Let_def screen_simps)

lemma kill_screen [screen_simps]: "vga_inv (vga s) \<Longrightarrow> vga_inv (vga (snd (process_kill p esp s)))"
proof -
  assume v: "vga_inv (vga s)"
  have "vga_inv (vga (snd (kill_scan p esp is s)))" for "is"
    using v by (induction "is") (simp_all add: Let_def screen_simps)
  then show ?thesis by (simp add: process_kill_def case_prod_beta)
qed

lemma add_screen: "add_common w msg col e name s = Some t \<Longrightarrow> vga_inv (vga s) \<Longrightarrow> vga_inv (vga t)"
  by (auto simp add: add_common_def Let_def screen_simps proc_setup_def proc_context_def dest: kmalloc_screen split: if_splits option.splits prod.splits)


section \<open>The scheduler and the rest of the state\<close>

lemma yield_devices [simp]:
  fixes s :: "'a vfs_sys_scheme"
  shows "device_view (snd (scheduler_yield_impl esp s)) = device_view s" "device_view (scheduler_yield esp s) = device_view s"
  by (simp_all add: scheduler_yield_def scheduler_yield_impl_def switch_to_def Let_def split: option.split)

lemma wake_devices [simp]: "device_view (wake_waiters p s) = device_view (s :: 'a vfs_sys_scheme)"
proof -
  have "device_view (fold (wake_one p) is s) = device_view s" for "is"
    by (induction "is" arbitrary: s) (simp_all add: wake_one_def)
  then show ?thesis by (simp add: wake_waiters_def)
qed

lemma tick_devices [simp]: "device_view (scheduler_tick s) = device_view (s :: 'a vfs_sys_scheme)" "vga (scheduler_tick s) = vga s"
  by (simp_all add: scheduler_tick_def Let_def)

lemma exit_devices: "device_view (process_exit code esp s) = device_view (s :: 'a vfs_sys_scheme)"
  by (simp add: process_exit_def Let_def)

lemma kill_devices: "device_view (snd (process_kill p esp s)) = device_view (s :: 'a vfs_sys_scheme)"
proof -
  have "device_view (snd (kill_scan p esp is s)) = device_view s" for "is" by (induction "is") (simp_all add: Let_def)
  then show ?thesis by (simp add: process_kill_def case_prod_beta)
qed

lemma more_devices:
  fixes s t :: "'a vfs_sys_scheme"
  shows "heap_sys.more t = heap_sys.more s \<Longrightarrow> device_view t = device_view s"
  by (cases s; cases t; simp add: device_view_def)

lemma add_devices: "add_common w msg col e name s = Some t \<Longrightarrow> device_view t = device_view (s :: 'a vfs_sys_scheme)"
  by (auto simp add: add_common_def Let_def proc_setup_def proc_context_def dest: kmalloc_more [THEN more_devices]
      split: if_splits option.splits prod.splits)

lemma sched_step_devices:
  assumes "sched_step img s t"
  shows "device_view t = device_view (s :: 'a vfs_sys_scheme)" and "vga_inv (vga s) \<Longrightarrow> vga_inv (vga t)"
proof -
  have "device_view t = device_view s \<and> (vga_inv (vga s) \<longrightarrow> vga_inv (vga t))"
    using assms
    by cases (auto simp add: scheduler_check_def process_wait_def process_wait_loop_def Let_def exit_devices kill_devices screen_simps
        scheduler_add_process_def scheduler_add_user_process_def dest: add_devices add_screen)
  then show "device_view t = device_view s" "vga_inv (vga s) \<Longrightarrow> vga_inv (vga t)" by simp_all
qed

lemma sched_step_system:
  assumes "sched_step img' s t" and "system_inv img s"
  shows "system_inv img (t :: 'a vfs_sys_scheme)"
  using system_inv_keep [OF assms(2)] sched_step_live [OF assms(1)] sched_step_devices [OF assms(1)] system_inv_parts [OF assms(2)]
  by blast

section \<open>Files\<close>

lemma kernel_core_vfs:
  fixes s :: "'a vfs_sys_scheme"
  shows "kernel_core (snd (vfs_create_file hw name s)) = kernel_core s"
    "kernel_core (snd (vfs_write_file hw name content len s)) = kernel_core s"
    "kernel_core (snd (snd (vfs_read_file hw junk name buf n s))) = kernel_core s"
    "kernel_core (vfs_list_files hw s) = kernel_core s"
    "kernel_core (snd (vfs_delete_file hw name s)) = kernel_core s"
proof -
  show create: "kernel_core (snd (vfs_create_file hw name s)) = kernel_core s" for name and s :: "'a vfs_sys_scheme"
    by (simp add: vfs_create_file_def Let_def split: option.split)
  show "kernel_core (snd (vfs_write_file hw name content len s)) = kernel_core s"
    using create [of name s] by (simp add: vfs_write_file_def Let_def split_beta)
  have read: "kernel_core u = kernel_core v" if "ata_read_sector hw lba b v = (r, b', u)" for lba b b' r and u v :: "'a vfs_sys_scheme"
    using kernel_core_sectors(1) [of hw lba b v] that by simp
  show "kernel_core (snd (snd (vfs_read_file hw junk name buf n s))) = kernel_core s"
    by (auto simp add: vfs_read_file_def Let_def dest!: read split: option.split prod.split)
  have entry: "kernel_core (list_entry i u) = kernel_core u" for i and u :: "'a vfs_sys_scheme" by (simp add: list_entry_def Let_def)
  have "kernel_core (fold list_entry is u) = kernel_core u" for "is" and u :: "'a vfs_sys_scheme"
    by (induction "is" arbitrary: u) (simp_all add: entry)
  then show "kernel_core (vfs_list_files hw s) = kernel_core s" by (simp add: vfs_list_files_def Let_def del: upt_rec_numeral)
  show "kernel_core (snd (vfs_delete_file hw name s)) = kernel_core s"
    by (simp add: vfs_delete_file_def Let_def split: option.split)
qed

lemma poll_screen [screen_simps]:
  "vga (snd (ata_wait_bsy hw s)) = vga s" "vga (snd (ata_wait_drq hw s)) = vga s" "vga (snd (ata_wait_ready hw s)) = vga s"
proof -
  have poll: "vga (snd (ata_poll hw ready n s)) = vga s" for ready n s
    using ata_poll_bounded [of hw ready n s] by auto
  then show "vga (snd (ata_wait_bsy hw s)) = vga s" "vga (snd (ata_wait_drq hw s)) = vga s"
    by (simp_all add: ata_wait_bsy_def ata_wait_drq_def)
  show "vga (snd (ata_wait_ready hw s)) = vga s"
    by (simp add: ata_wait_ready_def ata_wait_bsy_def ata_wait_drq_def split_beta poll)
qed

lemma sectors_screen [screen_simps]:
  "vga (snd (snd (ata_read_sector hw lba buf s))) = vga s" "vga (snd (ata_write_sector hw lba buf s)) = vga s"
  by (simp_all add: ata_read_sector_def ata_write_sector_def split_beta Let_def read_words_trace write_words_trace ata_command_trace
      screen_simps split: option.split)

lemma sync_screen [screen_simps]:
  "vga (upd_file i f s) = vga s" "vga_inv (vga s) \<Longrightarrow> vga_inv (vga (vfs_sync_from_disk hw s))"
  "vga_inv (vga s) \<Longrightarrow> vga_inv (vga (vfs_sync_to_disk hw s))"
  by (simp_all add: upd_file_def vfs_sync_from_disk_def vfs_sync_to_disk_def split_beta Let_def screen_simps del: upt_rec_numeral)

lemma vfs_screen [screen_simps]:
  fixes s :: "'a vfs_sys_scheme"
  assumes "vga_inv (vga s)"
  shows "vga_inv (vga (snd (vfs_create_file hw name s)))" "vga_inv (vga (snd (vfs_write_file hw name content len s)))"
    "vga_inv (vga (snd (snd (vfs_read_file hw junk name buf n s))))" "vga_inv (vga (vfs_list_files hw s))"
    "vga_inv (vga (snd (vfs_delete_file hw name s)))"
proof -
  show create: "vga_inv (vga (snd (vfs_create_file hw name s)))"
    using assms by (simp add: vfs_create_file_def Let_def screen_simps split: option.split)
  then show "vga_inv (vga (snd (vfs_write_file hw name content len s)))"
    by (simp add: vfs_write_file_def Let_def split_beta screen_simps)
  have read: "vga u = vga v" if "ata_read_sector hw lba b v = (r, b', u)" for lba b b' r and u v :: "'a vfs_sys_scheme"
    using sectors_screen(1) [of hw lba b v] that by simp
  show "vga_inv (vga (snd (snd (vfs_read_file hw junk name buf n s))))"
    using assms by (auto simp add: vfs_read_file_def Let_def screen_simps dest!: read split: option.split prod.split)
  have "vga_inv (vga u) \<Longrightarrow> vga_inv (vga (fold list_entry is u))" for "is" and u :: "'a vfs_sys_scheme"
    by (induction "is" arbitrary: u) (simp_all add: list_entry_def Let_def screen_simps)
  then show "vga_inv (vga (vfs_list_files hw s))" using assms by (simp add: vfs_list_files_def Let_def screen_simps del: upt_rec_numeral)
  show "vga_inv (vga (snd (vfs_delete_file hw name s)))"
    using assms by (simp add: vfs_delete_file_def Let_def screen_simps split: option.split)
qed

section \<open>Interrupts\<close>

lemma timer_system:
  fixes s :: "'a vfs_sys_scheme"
  assumes "system_inv img s"
  shows "system_inv img (snd (irq0_interrupt left r s))"
proof -
  obtain esp m where m: "irq_save s r = (esp, m)" by force
  define a where "a = scheduler_tick (s\<lparr>stack_mem := m, pit_ticks := pit_ticks s + 1\<rparr>)"
  define b where "b = outb 0x20 0x20 a"
  have "system_inv img (s\<lparr>stack_mem := m, pit_ticks := pit_ticks s + 1\<rparr>)"
    by (rule system_inv_view [OF assms]) (use system_inv_parts(3) [OF assms] in simp_all)
  then have a: "system_inv img a" unfolding a_def by (rule sched_step_system [OF step_tick])
  have b: "system_inv img b" by (rule system_inv_view [OF a]) (use system_inv_parts(3) [OF a] in \<open>simp_all add: b_def outb_def emit_def\<close>)
  have "system_inv img (b\<lparr>schedule_needed := 0\<rparr>)" by (rule system_inv_view [OF b]) (use system_inv_parts(3) [OF b] in simp_all)
  then have "system_inv img (scheduler_yield esp (b\<lparr>schedule_needed := 0\<rparr>))" for esp by (rule sched_step_system [OF step_yield])
  moreover have "snd (scheduler_yield_impl esp u) = scheduler_yield esp u" for esp and u :: "'a vfs_sys_scheme"
    by (simp add: scheduler_yield_def scheduler_yield_impl_def)
  moreover have "pit_handler (s\<lparr>stack_mem := m\<rparr>) = b" by (simp add: pit_handler_def a_def b_def Let_def)
  ultimately show ?thesis using b by (simp add: irq0_interrupt_def m irq0_stub_def Let_def split_beta)
qed

lemma keyboard_system:
  fixes s :: "'a vfs_sys_scheme"
  assumes "system_inv img s"
  shows "system_inv img (snd (irq1_stub hw left r s))"
proof -
  obtain esp m where m: "irq_save s r = (esp, m)" by force
  define u where "u = s\<lparr>stack_mem := m\<rparr>"
  have u: "system_inv img u" by (rule system_inv_view [OF assms]) (use system_inv_parts(3) [OF assms] in \<open>simp_all add: u_def\<close>)
  let ?t = "keyboard_handler hw u"
  have sched: "sched_view ?t = sched_view u" and rest: "vga ?t = vga u" "idt_entries ?t = idt_entries u" "gdt_entries ?t = gdt_entries u"
      "page_mem ?t = page_mem u" "kernel_page_directory ?t = kernel_page_directory u"
    by (simp_all add: keyboard_handler_def inb_def outb_def emit_def key_press_def kbd_push_def Let_def)
  have "system_inv img ?t"
    using u keyboard_handler_refines(1) [OF system_inv_parts(2) [OF u]] live_view [OF sched] paging_view(2) [OF rest(4,5)]
    by (simp add: system_inv_def rest kernel_segments_def idt_view_def [abs_def])
  then show ?thesis by (simp add: irq1_stub_def m u_def Let_def)
qed

section \<open>System calls\<close>

text \<open>
  When the heap serves a request.  Allocation takes the next run of page frames without looking whether it is one
  (\<^verbatim>\<open>kmalloc_not_contiguous\<close>) and computes the size of a block modulo \<open>2 ^ 32\<close> (\<^verbatim>\<open>kmalloc_size_wraps\<close>); coalescing returns
  page frames that the enlarged block still covers (\<^verbatim>\<open>kfree_merge_overlap\<close>); and any address is taken for a block.  Outside
  these conditions the heap is not to be relied on, and neither is anything above it.
\<close>

definition malloc_served :: "u32 \<Rightarrow> 'a heap_sys_scheme \<Rightarrow> bool" where
  "malloc_served sz s \<longleftrightarrow>
     sz = 0 \<or> unat sz \<le> 0xFFFFEFE0 \<and> (free_frames (pmm s) \<noteq> {} \<longrightarrow> run_available sz (pmm s))"

definition lone_block :: "u32 \<Rightarrow> 'a heap_sys_scheme \<Rightarrow> bool" where
  "lone_block x s \<longleftrightarrow>
     (let h = heap_mem s x
      in (hb_next h = 0 \<or> hb_used (heap_mem s (hb_next h)) \<noteq> 0) \<and> (hb_prev h = 0 \<or> hb_used (heap_mem s (hb_prev h)) \<noteq> 0))"

definition free_served :: "u32 \<Rightarrow> 'a sched_sys_scheme \<Rightarrow> bool" where
  "free_served ptr s \<longleftrightarrow>
     ptr = 0 \<or> hb_used (heap_mem s (ptr - HEADER_SIZE)) = 0 \<or>
     (\<exists>xs. heap_list (heap_mem s) (heap_head s) xs \<and> ptr - HEADER_SIZE \<in> set xs) \<and> lone_block (ptr - HEADER_SIZE) s \<and>
       ptr \<notin> processes s ` {..<slots_used s}"

lemma heap_seg_unique: "heap_seg m p a xs q 0 \<Longrightarrow> heap_seg m p a ys r 0 \<Longrightarrow> xs = ys"
proof (induction xs arbitrary: p a ys)
  case Nil
  then show ?case by (cases ys) simp_all
next
  case (Cons x xs)
  then show ?case by (cases ys) auto
qed

lemma heap_list_unique: "heap_list m h xs \<Longrightarrow> heap_list m h ys \<Longrightarrow> xs = ys"
  by (auto simp add: heap_list_def dest: heap_seg_unique)

lemma heap_owns_list: "heap_owns s xs \<Longrightarrow> heap_list (heap_mem s) (heap_head s) xs"
  by (simp add: heap_owns_def heap_wf_def)

lemma heap_owns_unique: "heap_owns s xs \<Longrightarrow> heap_owns s ys \<Longrightarrow> xs = ys"
  by (rule heap_list_unique [OF heap_owns_list heap_owns_list])

lemma heap_list_neighbours:
  assumes "heap_list m h xs" and "x \<in> set xs"
  shows "hb_next (m x) \<noteq> x" and "hb_prev (m x) \<noteq> x"
proof -
  obtain q where seg: "heap_seg m 0 h xs q 0" and d: "distinct xs" using assms(1) by (auto simp add: heap_list_def)
  obtain ys zs where xs: "xs = ys @ x # zs" using assms(2) by (auto simp add: in_set_conv_decomp)
  have nz: "x \<noteq> 0" by (rule heap_seg_nonzero [OF seg assms(2)])
  obtain p where p: "heap_seg m 0 h ys p x" "hb_prev (m x) = p" "heap_seg m x (hb_next (m x)) zs q 0"
    using seg unfolding xs heap_seg_append by auto
  show "hb_next (m x) \<noteq> x" using p(3) d nz by (cases zs) (auto simp add: xs)
  have "p = last ys" if "ys \<noteq> []" using heap_seg_last [OF p(1) that] by simp
  then show "hb_prev (m x) \<noteq> x" using p(1,2) d nz by (cases "ys = []") (auto simp add: xs dest: last_in_set)
qed

text \<open>Control blocks are not touched by an allocation nor by the release of another block.\<close>

lemma sched_live_heap:
  fixes s t :: "'a sched_sys_scheme"
  assumes live: "sched_live s" and more: "heap_sys.more t = heap_sys.more s" and owns: "heap_owns s xs" "heap_owns t ys"
    and keep: "\<And>i n. i < slots_used s \<Longrightarrow> (processes s i - HEADER_SIZE, n) \<in> live_blocks s xs \<Longrightarrow>
      (processes s i - HEADER_SIZE, n) \<in> live_blocks t ys"
  shows "sched_live t"
proof -
  have f: "processes t = processes s" "proc_mem t = proc_mem s" "current_process t = current_process s"
      "process_count t = process_count s" "next_pid t = next_pid s"
    using more by (cases s; cases t; simp)+
  have slot: "slot t = slot s" "state_of t = state_of s" by (simp_all add: fun_eq_iff slot_def state_of_def f)
  obtain zs where z: "heap_owns s zs" "\<forall>i < slots_used s. \<exists>n. (processes s i - HEADER_SIZE, n) \<in> live_blocks s zs"
    using live by (auto simp add: sched_live_def sched_inv_def)
  have "zs = xs" by (rule heap_owns_unique [OF z(1) owns(1)])
  then have "\<forall>i < slots_used t. \<exists>n. (processes t i - HEADER_SIZE, n) \<in> live_blocks t ys" using z(2) keep unfolding f by blast
  moreover have "sched_wf t" using live by (simp add: sched_live_def sched_inv_def sched_wf_def sched_tab_def sched_states_def slot f)
  moreover have "0 < slots_used t" using live by (simp add: sched_live_def f)
  ultimately show ?thesis using owns(2) unfolding sched_live_def sched_inv_def by blast
qed

lemma kmalloc_live:
  fixes s :: "'a sched_sys_scheme"
  assumes live: "sched_live s" and ok: "malloc_served sz s" and k: "kmalloc sz s = Some (p, t)"
  shows "sched_live t"
proof (cases "sz = 0")
  case True
  then show ?thesis using live k by (simp add: kmalloc_def)
next
  case False
  obtain xs where xs: "heap_owns s xs" using live by (auto simp add: sched_live_def sched_inv_def)
  have run: "unat sz \<le> 0xFFFFEFE0" "free_frames (pmm s) \<noteq> {} \<longrightarrow> run_available sz (pmm s)" using ok False by (simp_all add: malloc_served_def)
  obtain ys where ys: "heap_owns t ys" "live_blocks s xs \<subseteq> live_blocks t ys"
    using kmalloc_outcome [OF xs False run] k by auto
  show ?thesis by (rule sched_live_heap [OF live kmalloc_more [OF k] xs ys(1)]) (use ys(2) in blast)
qed

lemma kfree_live:
  fixes s :: "'a sched_sys_scheme"
  assumes live: "sched_live s" and ok: "free_served ptr s"
  shows "sched_live (kfree ptr s)"
proof -
  define x where "x = ptr - HEADER_SIZE"
  have ptr: "ptr = x + HEADER_SIZE" by (simp add: x_def)
  obtain xs where xs: "heap_owns s xs" using live by (auto simp add: sched_live_def sched_inv_def)
  note list = heap_owns_list [OF xs]
  consider "ptr = 0" | "ptr \<noteq> 0" "hb_used (heap_mem s x) = 0"
    | "ptr \<noteq> 0" "hb_used (heap_mem s x) \<noteq> 0" "x \<in> set xs" "lone_block x s" "ptr \<notin> processes s ` {..<slots_used s}"
    using ok heap_list_unique [OF list] unfolding free_served_def x_def by blast
  then show ?thesis
  proof cases
    case 1
    then show ?thesis using live by (simp add: kfree_not_live)
  next
    case 2
    then have "kfree ptr s = con_puts (lit ''[HEAP] Double free detected'' @ [ch_nl]) 0x1C s" by (simp add: kfree_not_live x_def)
    then show ?thesis using live live_view [of "con_puts (lit ''[HEAP] Double free detected'' @ [ch_nl]) 0x1C s" s]
      by (simp add: sched_view_def con_view)
  next
    case 3
    note nb = heap_list_neighbours [OF list 3(3)]
    have n: "x + HEADER_SIZE \<noteq> 0" "hb_used (heap_mem s x) \<noteq> 0"
      "hb_next (heap_mem s x) = 0 \<or> (hb_next (heap_mem s x) \<noteq> x \<and> hb_used (heap_mem s (hb_next (heap_mem s x))) \<noteq> 0)"
      "hb_prev (heap_mem s x) = 0 \<or> (hb_prev (heap_mem s x) \<noteq> x \<and> hb_used (heap_mem s (hb_prev (heap_mem s x))) \<noteq> 0)"
      using 3 nb by (simp_all add: ptr lone_block_def Let_def)
    have lb: "live_blocks (kfree ptr s) xs = live_blocks s xs - {(x, hb_size (heap_mem s x))}"
      unfolding ptr kfree_no_merge [OF n] by (auto simp add: live_blocks_def upd_block_def)
    have other: "processes s i - HEADER_SIZE \<noteq> x" if "i < slots_used s" for i
    proof
      assume "processes s i - HEADER_SIZE = x"
      then have "processes s i = ptr" by (simp add: ptr diff_eq_eq)
      then show False using 3(5) that by blast
    qed
    show ?thesis
      by (rule sched_live_heap [OF live kfree_more xs kfree_no_merge_owns [OF xs 3(3) n, folded ptr]]) (use lb other in blast)
  qed
qed

definition syscall_served :: "registers_t \<Rightarrow> 'a sched_sys_scheme \<Rightarrow> bool" where
  "syscall_served regs s \<longleftrightarrow> rg_eax regs \<noteq> SYS_SHUTDOWN \<and> rg_eax regs \<noteq> SYS_REBOOT \<and>
     (rg_eax regs = SYS_MALLOC \<longrightarrow> malloc_served (rg_ebx regs) s) \<and> (rg_eax regs = SYS_FREE \<longrightarrow> free_served (rg_ebx regs) s)"

lemma system_inv_print:
  fixes s :: "'a vfs_sys_scheme"
  assumes "system_inv img s"
  shows "system_inv img (con_puts str col s)" "system_inv img (con_putc c col s)"
  by (rule system_inv_view [OF assms]; use system_inv_parts(3) [OF assms] in \<open>simp add: screen_simps sched_view_def con_view\<close>)+

lemma sys_read_system: "system_inv img s \<Longrightarrow> system_inv img (snd (sys_read_loop buf count n (s :: 'a vfs_sys_scheme)))"
proof (induction buf count n s rule: sys_read_loop.induct)
  case (1 buf count n s)
  define u where "u = snd (keyboard_getchar s)"
  have frame: "u = s\<lparr>kbd_tail := kbd_tail u\<rparr>" unfolding u_def by (rule keyboard_getchar_frame)
  have "sched_view u = sched_view s" "vga u = vga s" "idt_entries u = idt_entries s" "gdt_entries u = gdt_entries s"
      "page_mem u = page_mem s" "kernel_page_directory u = kernel_page_directory s" by (subst frame; simp)+
  moreover have "kbd_inv u" unfolding u_def by (rule kbd_ring.pop_inv [OF system_inv_parts(2) [OF 1(2)]])
  ultimately have u: "system_inv img u"
    using 1(2) live_view [of u s] paging_view(2) [of u s] by (simp add: system_inv_def kernel_segments_def idt_view_def [abs_def])
  then have "system_inv img (u\<lparr>ram := m\<rparr>)" for m by (rule system_inv_view) (use system_inv_parts(3) [OF u] in simp_all)
  then show ?case using 1 u by (subst sys_read_loop.simps) (auto simp add: split_beta Let_def u_def)
qed

lemma syscall_system:
  fixes s t :: "'a vfs_sys_scheme"
  assumes inv: "system_inv img s" and ok: "syscall_served regs s" and h: "syscall_handler hw null_idt esp regs s = Some (q, t)"
  shows "system_inv img t"
proof -
  note parts = system_inv_parts [OF inv]
  have wr: "system_inv img u" if "sys_write_call fd str n s = Some (v, u)" for fd str n v u
    using that inv by (auto simp add: sys_write_call_def system_inv_print Let_def bind_eq_Some_conv split: if_splits)
  have rd: "system_inv img u" if "map_prod f id (sys_read_call fd buf n s) = (v, u)" for f :: "u32 \<Rightarrow> registers_t" and fd buf n v u
  proof -
    have "u = snd (sys_read_call fd buf n s)" using that by (cases "sys_read_call fd buf n s") simp
    then show ?thesis using inv by (simp add: sys_read_call_def sys_read_system)
  qed
  have al: "system_inv img u" if "malloc_served n s" "kmalloc n s = Some (v, u)" for n v u
    by (rule system_inv_keep [OF inv kmalloc_live [OF parts(1) that] more_devices [OF kmalloc_more [OF that(2)]] kmalloc_screen [OF that(2) parts(3)]])
  have fr: "system_inv img (kfree a s)" if "free_served a s" for a
    by (rule system_inv_keep [OF inv kfree_live [OF parts(1) that] more_devices [OF kfree_more] kfree_screen [OF parts(3)]])
  have yield: "system_inv img (scheduler_yield esp s)" "system_inv img (process_exit code esp s)" for code
    using sched_step_system [OF step_yield inv] sched_step_system [OF step_exit inv] by simp_all
  show ?thesis
    using h ok inv yield by (auto simp add: syscall_handler_def syscall_served_def Let_def system_inv_print dest: wr al rd fr split: if_splits)
qed

section \<open>The transition system\<close>

text \<open>
  One step of the running machine: an interrupt, with any registers \<open>r\<close> of the interrupted code; a system call up to the point where
  its handler returns or gives up the processor; a call of the scheduler or of the file system from code inside the kernel image,
  which the shell makes directly; output; and a change of the byte memory and the stacks by running code.  A system call for
  shutdown or reboot ends the run.
\<close>

inductive kernel_step :: "hardware \<Rightarrow> image \<Rightarrow> 'a vfs_sys_scheme \<Rightarrow> 'a vfs_sys_scheme \<Rightarrow> bool" for hw img where
  step_timer: "kernel_step hw img s (snd (irq0_interrupt left r s))"
| step_key: "kernel_step hw img s (snd (irq1_stub hw left r s))"
| step_syscall: "trap_save [0, 0x80] s r = (esp, m) \<Longrightarrow> syscall_served (regs_at m esp) s \<Longrightarrow>
    syscall_handler hw null_idt resume (regs_at m esp) (s\<lparr>stack_mem := m\<rparr>) = Some (q, t) \<Longrightarrow> kernel_step hw img s t"
| step_sched: "sched_step img s t \<Longrightarrow> kernel_step hw img s t"
| step_create: "kernel_step hw img s (snd (vfs_create_file hw name s))"
| step_write: "kernel_step hw img s (snd (vfs_write_file hw name content len s))"
| step_read: "kernel_step hw img s (snd (snd (vfs_read_file hw junk name buf len s)))"
| step_list: "kernel_step hw img s (vfs_list_files hw s)"
| step_delete: "kernel_step hw img s (snd (vfs_delete_file hw name s))"
| step_puts: "kernel_step hw img s (con_puts str col s)"
| step_putc: "kernel_step hw img s (con_putc c col s)"
| step_clear: "kernel_step hw img s (s\<lparr>vga := vga_clear (vga s)\<rparr>)"
| step_run: "kernel_step hw img s (s\<lparr>ram := m, stack_mem := k\<rparr>)"
| step_idle: "kernel_step hw img s (kernel_idle s)"

inductive kernel_run :: "hardware \<Rightarrow> image \<Rightarrow> 'a vfs_sys_scheme \<Rightarrow> 'a vfs_sys_scheme \<Rightarrow> bool" for hw img where
  krun_refl: "kernel_run hw img s s"
| krun_step: "kernel_run hw img s t \<Longrightarrow> kernel_step hw img t u \<Longrightarrow> kernel_run hw img s u"

inductive_cases kernel_stepE: "kernel_step hw img s t"

lemma system_inv_core:
  fixes s t :: "'a vfs_sys_scheme"
  assumes "system_inv img s" and "kernel_core t = kernel_core s" and "vga_inv (vga t)"
  shows "system_inv img t"
  by (rule system_inv_view [OF assms(1) kernel_core_views [OF assms(2)] assms(3)])

lemma kernel_step_system:
  assumes "kernel_step hw img s t" and inv: "system_inv img s"
  shows "system_inv img t"
  using assms(1)
proof cases
  case (step_timer left r)
  then show ?thesis using timer_system [OF inv] by simp
next
  case (step_key left r)
  then show ?thesis using keyboard_system [OF inv] by simp
next
  case (step_syscall r esp m null_idt resume q)
  have "system_inv img (s\<lparr>stack_mem := m\<rparr>)" by (rule system_inv_view [OF inv]) (use system_inv_parts(3) [OF inv] in simp_all)
  moreover have "syscall_served (regs_at m esp) (s\<lparr>stack_mem := m\<rparr>)"
    using step_syscall(2) by (simp add: syscall_served_def malloc_served_def free_served_def lone_block_def)
  ultimately show ?thesis using syscall_system step_syscall(3) by blast
next
  case step_sched
  then show ?thesis using sched_step_system inv by blast
next
  case step_clear
  then show ?thesis using system_inv_core [OF inv, of t] by (simp add: vga_clear_def vga_init_inv)
next
  case (step_run m k)
  then show ?thesis using system_inv_view [OF inv, of t] system_inv_parts(3) [OF inv] by simp
next
  case step_idle
  then show ?thesis using system_inv_core [OF inv, of t] system_inv_parts(3) [OF inv] by (simp add: kernel_idle_def screen_simps)
qed (use system_inv_core [OF inv, of t] system_inv_parts(3) [OF inv] in \<open>simp_all add: screen_simps kernel_core_vfs\<close>)

lemma kernel_run_system: "kernel_run hw img s t \<Longrightarrow> system_inv img s \<Longrightarrow> system_inv img t"
  by (induction rule: kernel_run.induct) (simp_all add: kernel_step_system)

end
