(* ===== verification/Kernel_System.thy ===== *)
theory Kernel_System
  imports Kernel_Run
begin

text \<open>
  The invariant of the running kernel at its two ends: \<open>kernel_main\<close> establishes it, and the code that runs on top of the kernel keeps
  it, that is the system calls, which are shown to return, and the shell process with its command interpreter.
\<close>

section \<open>The invariant holds when the kernel has started\<close>

text \<open>The parts of the invariant that \<^verbatim>\<open>kernel_comes_up\<close> does not speak about.\<close>

definition boot_view :: "'a kbd_sys_scheme \<Rightarrow> (nat \<Rightarrow> gdt_entry_t) \<times> u32 \<times> u32 \<times> u32 \<times> u8" where
  "boot_view s = (gdt_entries s, kbd_head s, kbd_tail s, tick_counter s, schedule_needed s)"

definition boot_keeps :: "'a kbd_sys_scheme \<Rightarrow> 'a kbd_sys_scheme \<Rightarrow> bool" where
  "boot_keeps s t \<longleftrightarrow> boot_view t = boot_view s \<and> (vga_inv (vga s) \<longrightarrow> vga_inv (vga t))"

lemma boot_keeps_trans: "boot_keeps s t \<Longrightarrow> boot_keeps t u \<Longrightarrow> boot_keeps s u"
  by (simp add: boot_keeps_def)

lemma boot_view_upd [simp]:
  fixes s :: "'a vfs_sys_scheme"
  shows "boot_view (con_puts str col s) = boot_view s" "boot_view (con_putc c col s) = boot_view s" "boot_view (emit e s) = boot_view s"
    "boot_view (outb q b s) = boot_view s"
  by (simp_all add: boot_view_def con_puts_def con_putc_def emit_def outb_def)

lemma tables_screen [screen_simps]:
  "vga (gdt_set_gate n b l a g s) = vga s" "vga (idt_set_gate k b' sel fl s) = vga s" "vga (gdt_init img s) = vga s" "vga (idt_init img s) = vga s"
proof -
  show gate: "vga (gdt_set_gate n b l a g s) = vga s" "vga (idt_set_gate k b' sel fl s) = vga s" for n b l a g k b' sel fl and s :: "'a desc_sys_scheme"
    by (simp_all add: gdt_set_gate_def idt_set_gate_def)
  have gates: "vga (fold (\<lambda>i. idt_set_gate (f i) (h i) sel fl) xs u) = vga u" for f h sel fl xs and u :: "'a desc_sys_scheme"
    by (induction xs arbitrary: u) (simp_all add: gate)
  show "vga (gdt_init img s) = vga s" "vga (idt_init img s) = vga s"
    by (simp_all add: gdt_init_def idt_init_def Let_def idt_load_def gdt_flush_def tss_flush_def write_tss_def emit_def gate gates del: upt_rec_numeral)
qed

lemma idt_init_boot: "boot_view (idt_init img s) = boot_view (s :: 'a vfs_sys_scheme)"
proof -
  have gate: "boot_view (idt_set_gate k b sel fl u) = boot_view u" for k b sel fl and u :: "'a vfs_sys_scheme"
    by (simp add: idt_set_gate_def boot_view_def)
  have gates: "boot_view (fold (\<lambda>i. idt_set_gate (f i) (h i) sel fl) xs u) = boot_view u" for f h sel fl xs and u :: "'a vfs_sys_scheme"
    by (induction xs arbitrary: u) (simp_all add: gate)
  have "boot_view (u\<lparr>idt_ptr := q\<rparr>) = boot_view u" for q and u :: "'a vfs_sys_scheme" by (simp add: boot_view_def)
  then show ?thesis by (simp add: idt_init_def Let_def idt_load_def gate gates del: upt_rec_numeral)
qed

lemma boot_tables_ok:
  fixes s :: "'a vfs_sys_scheme"
  shows "kernel_segments (boot_tables img s)" "kbd_inv (boot_tables img s) = kbd_inv s" "vga_inv (vga (boot_tables img s))"
    "tick_counter (boot_tables img s) = tick_counter s" "schedule_needed (boot_tables img s) = schedule_needed s"
proof -
  define u where "u = serial_init (s\<lparr>vga := vga_init (vga s)\<rparr>)"
  have t: "boot_tables img s = idt_init img (gdt_init img u)" by (simp add: boot_tables_def u_def)
  have b: "gdt_entries (idt_init img (gdt_init img u)) = gdt_entries (gdt_init img u)"
      "kbd_head (idt_init img (gdt_init img u)) = kbd_head (gdt_init img u)"
      "kbd_tail (idt_init img (gdt_init img u)) = kbd_tail (gdt_init img u)"
      "tick_counter (idt_init img (gdt_init img u)) = tick_counter (gdt_init img u)"
      "schedule_needed (idt_init img (gdt_init img u)) = schedule_needed (gdt_init img u)"
    using idt_init_boot [of img "gdt_init img u"] by (simp_all add: boot_view_def)
  show "kernel_segments (boot_tables img s)"
    using gdt_init_segments [of img u] by (simp add: t kernel_segments_def b Let_def drop_bit_eq_div)
  have g: "kbd_head (gdt_init img u) = kbd_head s" "kbd_tail (gdt_init img u) = kbd_tail s"
      "tick_counter (gdt_init img u) = tick_counter s" "schedule_needed (gdt_init img u) = schedule_needed s"
    by (simp_all add: u_def gdt_init_def Let_def gdt_flush_def tss_flush_def write_tss_def gdt_set_gate_def emit_def serial_init_def outb_def)
  then show "kbd_inv (boot_tables img s) = kbd_inv s" by (simp add: t kbd_inv_def b)
  show "tick_counter (boot_tables img s) = tick_counter s" "schedule_needed (boot_tables img s) = schedule_needed s"
    by (simp_all add: t b g)
  have "vga u = vga_init (vga s)" by (simp add: u_def serial_init_def Let_def outb_def emit_def)
  then show "vga_inv (vga (boot_tables img s))" by (simp add: t screen_simps vga_init_inv)
qed

lemma boot_memory_keeps:
  fixes s :: "'a vfs_sys_scheme"
  assumes flags: "bit (mbi_flags mbi) 6" and mbi: "mbi = mbi_at (ram s) mbi_addr"
    and list: "mmap_list (ram s) (mmap_addr mbi) (mmap_addr mbi + mmap_length mbi) ens"
    and t: "boot_memory MULTIBOOT_MAGIC mbi_addr s = Some t"
  shows "boot_keeps s t"
proof -
  have "mbi_flags mbi AND push_bit 6 1 \<noteq> 0" using flags and_single_bit_eq_0 [of "mbi_flags mbi" 6] by simp
  then have m: "pmm_init_multiboot (mmap_addr mbi) (mmap_length mbi) s = Some t" using t by (simp add: boot_memory_def mbi Let_def)
  note same = multiboot_frames [OF list m, where p = "pmm s" and v = "vga s"]
  have "boot_view t = boot_view s" using arg_cong [where f = boot_view, OF same] by (simp add: boot_view_def)
  moreover have "vga (fold mmap_free_step es u) = vga u" for es and u :: "'a vfs_sys_scheme"
  proof -
    have "(mmap_free_step en v)\<lparr>pmm := p\<rparr> = v\<lparr>pmm := p\<rparr>" for en p and v :: "'a vfs_sys_scheme"
      by (simp add: mmap_free_step_def Let_def fold_only_pmm mark_only_pmm)
    from arg_cong [where f = vga, OF fold_only_pmm [where f = mmap_free_step, OF this]] show ?thesis by simp
  qed
  moreover have "vga (reserve_low_memory u) = vga u" for u :: "'a vfs_sys_scheme"
  proof -
    have "(reserve_low_memory u)\<lparr>pmm := pmm u\<rparr> = u\<lparr>pmm := pmm u\<rparr>"
      by (simp add: reserve_low_memory_def fold_only_pmm mark_only_pmm del: upt_rec_numeral)
    from arg_cong [where f = vga, OF this] show ?thesis by simp
  qed
  moreover have "mmap_free_usable (mmap_addr mbi) (mmap_addr mbi + mmap_length mbi) u = Some (fold mmap_free_step ens u)"
    if "ram u = ram s" for u :: "'a vfs_sys_scheme" using list that by (simp add: mmap_free_usable_list)
  ultimately show ?thesis
    using m list by (auto simp add: boot_keeps_def pmm_init_multiboot_def Let_def mmap_max_usable_list frame_simps screen_simps split: if_splits)
qed

lemma paging_init_keeps: "boot_keeps s (paging_init hw (s :: 'a vfs_sys_scheme))"
proof -
  have alloc: "boot_view (snd (pmm_alloc_page u)) = boot_view u" for u :: "'a vfs_sys_scheme"
    by (simp add: boot_view_def pmm_alloc_page_def Let_def con_puts_def split: option.split)
  have entry: "boot_view (upd_entry b i f u) = boot_view u" "vga (upd_entry b i f u) = vga u" for b i f and u :: "'a vfs_sys_scheme"
    by (simp_all add: upd_entry_def boot_view_def)
  have folded: "boot_view (fold (\<lambda>i. upd_entry b i (f i)) is u) = boot_view u" "vga (fold (\<lambda>i. upd_entry b i (f i)) is u) = vga u"
    for b f "is" and u :: "'a vfs_sys_scheme"
    by (induction "is" arbitrary: u) (simp_all add: entry)
  have upd: "boot_view (u\<lparr>kernel_page_directory := d\<rparr>) = boot_view u" "boot_view (u\<lparr>kernel_page_tables := ts\<rparr>) = boot_view u"
    for d ts and u :: "'a vfs_sys_scheme" by (simp_all add: boot_view_def)
  show ?thesis
    by (simp add: boot_keeps_def paging_init_def Let_def split_beta alloc entry folded upd screen_simps clear_entries_def identity_entries_def
        del: upt_rec_numeral)
qed

lemma core_keeps:
  assumes "kernel_core t = kernel_core (s :: 'a vfs_sys_scheme)" and "vga_inv (vga s) \<Longrightarrow> vga_inv (vga t)"
  shows "boot_keeps s t"
  using kernel_core_fields [OF assms(1)] assms(2) by (simp add: boot_keeps_def boot_view_def)

lemma probe_screen [screen_simps]: "vga (snd (ata_probe_drive hw bus drive s)) = vga s"
proof -
  have select: "vga (probe_select hw bus drive s) = vga s" for s :: "'a ata_sys_scheme"
    by (simp add: probe_select_def Let_def screen_simps upt_rec)
  have identify: "vga (probe_identify hw s) = vga s" for s :: "'a ata_sys_scheme"
    by (simp add: probe_identify_def Let_def read_words_trace del: upt_rec_numeral)
  have loop': "vga (snd (probe_loop hw p st n s)) = vga s" for p st n and s :: "'a ata_sys_scheme"
  proof (induction hw p st n s rule: probe_loop.induct)
    case (1 hw p st n s)
    then show ?case by (subst probe_loop.simps) (auto simp add: split_beta Let_def inb_def emit_def)
  qed
  have loop: "vga u = vga v" if "probe_loop hw p st n v = (r, u)" for p st n r and u v :: "'a ata_sys_scheme"
    using loop' [of p st n v] that by simp
  have bsy: "vga u = vga v" if "ata_wait_bsy hw v = (r, u)" for r and u v :: "'a ata_sys_scheme"
    using poll_screen(1) [of hw v] that by simp
  show ?thesis
    by (auto simp add: ata_probe_drive_def Let_def select identify inb_def screen_simps dest!: bsy loop split: prod.split option.split if_splits)
qed

lemma disk_screen [screen_simps]: "vga_inv (vga s) \<Longrightarrow> vga_inv (vga (ata_init hw s))" "vga_inv (vga u) \<Longrightarrow> vga_inv (vga (vfs_init hw u))"
proof -
  have "vga (snd (identify_loop hw ds s)) = vga s" for ds
  proof (induction hw ds s rule: identify_loop.induct)
    case (2 hw bus drive ds s)
    obtain r u where ru: "ata_probe_drive hw bus drive s = (r, u)" by force
    then have "vga u = vga s" using probe_screen [of hw bus drive s] by simp
    then show ?case using ru 2 by (cases r) simp_all
  qed simp
  then have id: "vga (snd (ata_identify hw s)) = vga s" unfolding ata_identify_def .
  obtain r v where rv: "ata_identify hw s = (r, v)" by force
  show "vga_inv (vga s) \<Longrightarrow> vga_inv (vga (ata_init hw s))"
    using rv id by (cases r) (simp_all add: ata_init_def Let_def screen_simps)
  have "vga (fold (\<lambda>i. upd_file i (f i)) xs w) = vga w" for f xs and w :: "'b vfs_sys_scheme"
    by (induction xs arbitrary: w) (simp_all add: screen_simps)
  then show "vga_inv (vga u) \<Longrightarrow> vga_inv (vga (vfs_init hw u))" for u :: "'b vfs_sys_scheme"
    by (simp add: vfs_init_def Let_def screen_simps del: upt_rec_numeral)
qed

lemma boot_subsystems_keeps:
  fixes s :: "'a vfs_sys_scheme"
  assumes quiet: "kbd_quiet hw" and t: "boot_subsystems hw img s = Some t"
  shows "boot_keeps s t"
proof -
  define a where "a = heap_init (pit_init 100 s)"
  have a: "boot_keeps s a"
    by (simp add: a_def boot_keeps_def boot_view_def heap_init_def pit_init_def Let_def con_puts_def outb_def emit_def vga_puts_inv)
  define b where "b = paging_init hw a"
  have b: "boot_keeps a b" unfolding b_def by (rule paging_init_keeps)
  define c where "c = scheduler_init b"
  have c: "boot_keeps b c"
    by (simp add: c_def boot_keeps_def boot_view_def scheduler_init_def Let_def con_puts_def vga_puts_inv del: upt_rec_numeral)
  obtain h where h: "keyboard_init hw img c = Some ((idt_set_gate 33 (addr_irq1_stub img) 0x08 0x8E
      (idt_set_gate 32 (addr_irq0_stub img) 0x08 0x8E c))\<lparr>io_trace := h\<rparr>)" using keyboard_init_returns [OF quiet] by blast
  define d where "d = (idt_set_gate 33 (addr_irq1_stub img) 0x08 0x8E (idt_set_gate 32 (addr_irq0_stub img) 0x08 0x8E c))\<lparr>io_trace := h\<rparr>"
  have d: "boot_keeps c d" by (simp add: d_def boot_keeps_def boot_view_def idt_set_gate_def)
  have "t = vfs_init hw (ata_init hw d)"
    using t h by (simp add: boot_subsystems_def Let_def a_def [symmetric] b_def [symmetric] c_def [symmetric] d_def [symmetric])
  then have "boot_keeps d t" by (intro core_keeps) (simp_all add: screen_simps)
  then show ?thesis using boot_keeps_trans a b c d by blast
qed

lemma boot_processes_keeps:
  fixes s :: "'a vfs_sys_scheme"
  assumes "boot_processes shell s = Some t"
  shows "boot_keeps s t"
proof -
  have more: "boot_view v = boot_view u" if "heap_sys.more v = heap_sys.more u" for u v :: "'a vfs_sys_scheme"
    using that by (cases u; cases v; simp add: boot_view_def)
  have upd: "boot_view (upd_proc p f u) = boot_view u" "boot_view (u\<lparr>stack_mem := k\<rparr>) = boot_view u" "boot_view (u\<lparr>processes := a\<rparr>) = boot_view u"
    "boot_view (u\<lparr>process_count := c\<rparr>) = boot_view u" "boot_view (u\<lparr>next_pid := c\<rparr>) = boot_view u"
    "boot_view (u\<lparr>current_process := c\<rparr>) = boot_view u"
    for p f k a c and u :: "'a vfs_sys_scheme" by (simp_all add: boot_view_def upd_proc_def)
  obtain u where u: "scheduler_convert_current_process (lit ''KernelMain'') s = Some u"
      "scheduler_add_user_process shell (lit ''UserShellRing3'') u = Some t"
    using assms by (auto simp add: boot_processes_def bind_eq_Some_conv)
  have "boot_view u = boot_view s" "vga_inv (vga s) \<Longrightarrow> vga_inv (vga u)"
    using u(1) by (auto simp add: scheduler_convert_current_process_def Let_def proc_setup_def proc_context_def screen_simps upd
        dest: kmalloc_more [THEN more] kmalloc_screen split: if_splits option.splits prod.splits)
  moreover have "boot_view t = boot_view u"
    using u(2) by (auto simp add: scheduler_add_user_process_def add_common_def Let_def proc_setup_def proc_context_def upd
        dest: kmalloc_more [THEN more] split: if_splits option.splits prod.splits)
  moreover have "vga_inv (vga u) \<Longrightarrow> vga_inv (vga t)" using add_screen u(2) unfolding scheduler_add_user_process_def by blast
  ultimately show ?thesis by (simp add: boot_keeps_def)
qed

lemma kernel_main_system:
  fixes s :: "'a vfs_sys_scheme"
  assumes mbi: "mbi = mbi_at (ram s) mbi_addr" "bit (mbi_flags mbi) 6"
    and list: "mmap_list (ram s) (mmap_addr mbi) (mmap_addr mbi + mmap_length mbi) ens"
    and six: "\<forall>k \<in> {512..<518}. k < unat (mmap_memory ens) div 4096 \<and> (\<exists>en \<in> set ens. usable_page en k)"
    and quiet: "kbd_quiet hw" and kbd: "kbd_inv s"
  shows "\<exists>t. kernel_main hw img shell n MULTIBOOT_MAGIC mbi_addr s = Some t \<and> system_inv img t \<and> process_count t = 2 \<and>
    current_process t = 0 \<and> state_of t 1 = PROCESS_READY \<and> tick_counter t = tick_counter s \<and> schedule_needed t = schedule_needed s"
proof -
  obtain t where t: "kernel_main hw img shell n MULTIBOOT_MAGIC mbi_addr s = Some t"
      "\<forall>v < 1048576. vmap t v = (if v < 1024 then Some (of_nat v) else None)" "idt_view t = kernel_gates img" "sched_inv t" "process_count t = 2"
      "current_process t = 0" "state_of t 1 = PROCESS_READY"
    using kernel_comes_up [OF mbi list six quiet, of img shell n] by blast
  define a where "a = boot_tables img s"
  obtain b c e where b: "boot_memory MULTIBOOT_MAGIC mbi_addr a = Some b" and c: "boot_subsystems hw img b = Some c"
      and e: "boot_processes shell (boot_banner hw c) = Some e" and te: "t = (kernel_idle ^^ n) e"
    using t(1) by (auto simp add: kernel_main_def kernel_start_def a_def bind_eq_Some_conv)
  have ra: "ram a = ram s" by (simp add: a_def boot_tables_ram)
  have "boot_keeps a b" using boot_memory_keeps [OF mbi(2) _ _ b] mbi(1) list unfolding ra by blast
  moreover have "boot_keeps b c" by (rule boot_subsystems_keeps [OF quiet c])
  moreover have "boot_keeps c (boot_banner hw c)"
    by (rule core_keeps) (simp_all add: boot_banner_def cpu_print_info_def Let_def screen_simps)
  moreover have "boot_keeps (boot_banner hw c) e" by (rule boot_processes_keeps [OF e])
  moreover have "boot_keeps e t" by (rule core_keeps) (simp_all add: te idle_rounds)
  ultimately have k: "boot_keeps a t" using boot_keeps_trans by blast
  then have v: "gdt_entries t = gdt_entries a" "kbd_head t = kbd_head a" "kbd_tail t = kbd_tail a" "vga_inv (vga t)"
      "tick_counter t = tick_counter s" "schedule_needed t = schedule_needed s"
    using boot_tables_ok(3-5) [of img s] by (simp_all add: boot_keeps_def boot_view_def a_def)
  have "kernel_segments t" "kbd_inv t"
    using boot_tables_ok(1,2) [of img s] kbd by (simp_all add: a_def [symmetric] kernel_segments_def kbd_inv_def v)
  then show ?thesis using t v(4-6) by (auto simp add: system_inv_def sched_live_def)
qed

section \<open>The shell inside the running kernel\<close>

text \<open>The commands whose effect on the heap depends on what programs and other processes do with it, and the two that end the run.\<close>

definition shell_tame :: "(nat \<Rightarrow> u8) \<Rightarrow> bool" where
  "shell_tame b \<longleftrightarrow> \<not> (\<exists>w \<in> {''run'', ''exec'', ''stress'', ''reboot'', ''shutdown''}. starts_with w b)"

lemma int80_system:
  fixes s :: "'a vfs_sys_scheme"
  assumes "system_inv img s" and "eax \<notin> {SYS_MALLOC, SYS_FREE, SYS_SHUTDOWN, SYS_REBOOT}" and "int80 env eax ebx ecx edx s = Some (v, t)"
  shows "system_inv img t"
proof -
  obtain q where "syscall_handler (te_hw env) (te_null_idt env) (te_esp env)
      ((te_regs env)\<lparr>rg_eax := eax, rg_ebx := ebx, rg_ecx := ecx, rg_edx := edx\<rparr>) s = Some (q, t)"
    using assms(3) by (auto simp add: int80_def)
  then show ?thesis by (rule syscall_system [OF assms(1), rotated]) (use assms(2) in \<open>simp add: syscall_served_def\<close>)
qed

lemma shell_calls_system:
  fixes s :: "'a vfs_sys_scheme"
  assumes inv: "system_inv img s"
  shows "shell_say env txt' n s = Some t \<Longrightarrow> system_inv img t"
    and "sys_exit te code s = Some t \<Longrightarrow> system_inv img t"
    and "(\<And>u. system_inv img u \<Longrightarrow> system_inv img (world u)) \<Longrightarrow> shell_yield world env s = Some t \<Longrightarrow> system_inv img t"
    and "sys_read te fd buf m s = Some (v, t) \<Longrightarrow> system_inv img t"
proof -
  show "shell_say env txt' n s = Some t \<Longrightarrow> system_inv img t"
    using int80_system [OF inv, of SYS_WRITE] by (auto simp add: shell_say_def sys_write_def)
  show "sys_exit te code s = Some t \<Longrightarrow> system_inv img t"
    using int80_system [OF inv, of SYS_EXIT] by (auto simp add: sys_exit_def int80_1_def)
  show "(\<And>u. system_inv img u \<Longrightarrow> system_inv img (world u)) \<Longrightarrow> shell_yield world env s = Some t \<Longrightarrow> system_inv img t"
    using int80_system [OF inv, of SYS_YIELD] by (auto simp add: shell_yield_def sys_yield_def int80_1_def)
  show "sys_read te fd buf m s = Some (v, t) \<Longrightarrow> system_inv img t"
    using int80_system [OF inv, of SYS_READ] by (simp add: sys_read_def)
qed

lemma vfs_system:
  fixes s :: "'a vfs_sys_scheme"
  assumes "system_inv img s"
  shows "system_inv img (snd (vfs_create_file hw name s))" "system_inv img (snd (vfs_write_file hw name content len s))"
    "vfs_read_file hw junk name buf len s = (r, b, t) \<Longrightarrow> system_inv img t" "system_inv img (vfs_list_files hw s)"
    "vfs_delete_file hw name s = (r, t) \<Longrightarrow> system_inv img t"
  using kernel_step_system [OF step_create assms] kernel_step_system [OF step_write assms] kernel_step_system [OF step_list assms]
    kernel_step_system [OF step_read assms, of hw junk name buf len] kernel_step_system [OF step_delete assms, of hw name]
  by simp_all

lemma prompt_system: "system_inv img s \<Longrightarrow> system_inv img (print_shell_prompt (s :: 'a vfs_sys_scheme))"
  by (simp add: print_shell_prompt_def system_inv_print Let_def)

lemma shell_command_system:
  fixes s :: "'a vfs_sys_scheme"
  assumes inv: "system_inv img s" and tame: "shell_tame b" and c: "shell_command world env b s = Some (flow, t)"
  shows "system_inv img t"
proof -
  note say = shell_calls_system(1)
  have cat: "system_inv img t" if "cmd_cat env b s = Some t"
    using that inv by (auto simp add: cmd_cat_def bind_eq_Some_conv system_inv_print Let_def dest: vfs_system(3) say split: if_splits prod.splits)
  have touch: "system_inv img t" if "cmd_touch env b s = Some t"
    using that inv by (auto simp add: cmd_touch_def bind_eq_Some_conv system_inv_print vfs_system(1) Let_def split: if_splits)
  have store: "system_inv img t" if "cmd_write env b s = Some t"
    using that inv by (auto simp add: cmd_write_def bind_eq_Some_conv system_inv_print vfs_system(2) Let_def split: if_splits)
  have rm: "system_inv img t" if "cmd_rm env b s = Some t"
    using that inv by (auto simp add: cmd_rm_def bind_eq_Some_conv system_inv_print Let_def dest: vfs_system(5) say split: if_splits prod.splits)
  have info: "system_inv img (cmd_diskinfo s)" "system_inv img (cpu_print_info hw s)" for hw
    using inv by (simp_all add: cmd_diskinfo_def cpu_print_info_def system_inv_print Let_def)
  have clear: "system_inv img (print_shell_prompt (s\<lparr>vga := vga_clear (vga s)\<rparr>))"
    by (rule prompt_system [OF kernel_step_system [OF step_clear inv]])
  have gone: "\<not> starts_with ''run'' b" "\<not> starts_with ''exec'' b" "\<not> starts_with ''stress'' b" "\<not> starts_with ''reboot'' b"
    "\<not> starts_with ''shutdown'' b" using tame by (simp_all add: shell_tame_def)
  show ?thesis
    using c inv
    by (auto simp add: shell_command_def gone vfs_system(4) info clear bind_eq_Some_conv
        dest: say shell_calls_system(2) cat touch store rm split: if_splits)
qed

lemma erase_system: "system_inv img s \<Longrightarrow> system_inv img (erase_chars n (s :: 'a vfs_sys_scheme))"
  by (induction n) (simp_all add: erase_chars_def system_inv_print)

lemma type_system: "system_inv img s \<Longrightarrow> system_inv img (snd (fold type_char cs (sh, s :: 'a vfs_sys_scheme)))"
proof (induction cs arbitrary: sh s)
  case (Cons c cs)
  have "system_inv img (snd (type_char c (sh, s)))" using Cons.prems by (simp add: type_char_def system_inv_print)
  then show ?case using Cons.IH [of "snd (type_char c (sh, s))" "fst (type_char c (sh, s))"] by simp
qed simp

lemma edit_system:
  fixes s :: "'a vfs_sys_scheme"
  assumes inv: "system_inv img s"
  shows "system_inv img (snd (key_backspace sh s))" "system_inv img (snd (key_up sh s))" "system_inv img (snd (key_down sh s))"
    "key_tab env sh s = Some (sh', t) \<Longrightarrow> system_inv img t"
proof -
  have recall: "system_inv img u \<Longrightarrow> system_inv img (snd (recall_line sh u))" for sh and u :: "'a vfs_sys_scheme"
    by (simp add: recall_line_def Let_def system_inv_print)
  show "system_inv img (snd (key_backspace sh s))" "system_inv img (snd (key_up sh s))" "system_inv img (snd (key_down sh s))"
    using inv by (simp_all add: key_backspace_def key_up_def key_down_def recall erase_system Let_def)
  have cmd: "system_inv img (snd (complete_command sh s))" for sh
    using inv by (simp add: complete_command_def Let_def system_inv_print split: list.split)
  have name: "system_inv img u" if cf: "complete_file env i sh s = Some (sh', u)" for i sh sh' u
  proof -
    obtain arg where arg: "text_at (input_buf sh) (i + 1) = Some arg"
      using cf by (cases "text_at (input_buf sh) (i + 1)") (simp_all add: complete_file_def)
    define ms where "ms = filter (is_match (\<lambda>k. arg ! k) (length arg)) (List.map_filter (shell_filename env s) [0..<MAX_FILES])"
    have "(case ms of
        [m] \<Rightarrow> (let (sh, s) = fold type_char (drop (length arg) m) (sh, s)
                in Some (sh\<lparr>input_buf := (input_buf sh)(buf_idx sh := 0)\<rparr>, s))
      | _ \<Rightarrow> Some (sh, s)) = Some (sh', u)"
      using cf arg by (simp add: complete_file_def ms_def [symmetric] Let_def del: upt_rec_numeral)
    then show ?thesis using type_system [OF inv] inv by (cases ms; cases "tl ms") (auto simp add: split_beta)
  qed
  show "key_tab env sh s = Some (sh', t) \<Longrightarrow> system_inv img t"
    using cmd inv by (auto simp add: key_tab_def Let_def dest: name split: if_splits option.splits) (metis snd_conv)
qed

lemma shell_step_system:
  fixes s :: "'a vfs_sys_scheme"
  assumes inv: "system_inv img s" and world: "\<And>u. system_inv img u \<Longrightarrow> system_inv img (world u)"
    and tame: "shell_tame ((input_buf sh)(buf_idx sh := 0))" and st: "shell_step world env sh s = Some (on, sh', t)"
  shows "system_inv img t"
proof -
  define a where "a = s\<lparr>ram := (ram s)(se_c env := 0)\<rparr>"
  have a: "system_inv img a" by (rule system_inv_view [OF inv]) (use system_inv_parts(3) [OF inv] in \<open>simp_all add: a_def\<close>)
  obtain n b where b: "sys_read (trap_env.truncate env) 0 (se_c env) 1 a = Some (n, b)"
      "(if sint n > 0 then shell_key world env (ram b (se_c env)) sh b else map_option (\<lambda>s. (True, sh, s)) (shell_yield world env b)) = Some (on, sh', t)"
    using st by (auto simp add: shell_step_def a_def bind_eq_Some_conv)
  have inv_b: "system_inv img b" by (rule shell_calls_system(4) [OF a b(1)])
  have enter: "system_inv img t" if e: "key_enter world env sh b = Some (on, sh', t)"
  proof -
    let ?line = "(input_buf sh)(buf_idx sh := 0)"
    have nl: "system_inv img (con_putc ch_nl COLOR_WHITE (con_putc ch_nl COLOR_WHITE b))" using inv_b by (simp add: system_inv_print)
    have hist: "input_buf (save_history (sh\<lparr>input_buf := ?line\<rparr>)) = ?line" by (simp add: save_history_def Let_def)
    have cmd: "system_inv img u" if "shell_command world env ?line (con_putc ch_nl COLOR_WHITE (con_putc ch_nl COLOR_WHITE b)) = Some (flow, u)" for flow u
      by (rule shell_command_system [OF nl tame that])
    show ?thesis
      using e inv_b by (auto simp add: key_enter_def Let_def hist split: if_splits option.splits shell_flow.splits
          intro!: system_inv_print prompt_system intro: cmd)
  qed
  have typed: "system_inv img (snd (type_char c (sh, b)))" for c using inv_b by (simp add: type_char_def system_inv_print)
  have key: "system_inv img t" if "shell_key world env c sh b = Some (on, sh', t)" for c
    using that edit_system(1-3) [OF inv_b, of sh] typed [of c]
    by (auto simp add: shell_key_def dest: enter edit_system(4) [OF inv_b] split: if_splits)
  show ?thesis using b(2) key shell_calls_system(3) [OF inv_b world] by (auto split: if_splits)
qed

section \<open>A machine to start\<close>

text \<open>The information structure at \<open>0x500\<close>: bit 6 set, the memory map of 24 bytes at \<open>0x100\<close>.\<close>

definition demo_boot_ram :: mem where
  "demo_boot_ram = store_bytes demo_mmap_ram 0x500
     ([0x40, 0, 0, 0] @ replicate 40 0 @ [24, 0, 0, 0, 0, 1, 0, 0])"

lemma demo_boot_info:
  "mbi_flags (mbi_at demo_boot_ram 0x500) = 0x40" "mmap_length (mbi_at demo_boot_ram 0x500) = 24"
  "mmap_addr (mbi_at demo_boot_ram 0x500) = 0x100"
  "mmap_entry demo_boot_ram 0x100 = \<lparr>mm_size = 20, mm_addr = 0, mm_len = 0x800000, mm_type = 1\<rparr>"
  by code_simp+

lemma demo_boot_hyps:
  "mbi_at demo_boot_ram 0x500 = mbi_at (ram (demo_vfs\<lparr>ram := demo_boot_ram\<rparr>)) 0x500"
  "bit (mbi_flags (mbi_at demo_boot_ram 0x500)) 6"
  "mmap_list (ram (demo_vfs\<lparr>ram := demo_boot_ram\<rparr>)) (mmap_addr (mbi_at demo_boot_ram 0x500))
     (mmap_addr (mbi_at demo_boot_ram 0x500) + mmap_length (mbi_at demo_boot_ram 0x500)) [mmap_entry demo_boot_ram 0x100]"
  "\<forall>k \<in> {512..<518}. k < unat (mmap_memory [mmap_entry demo_boot_ram 0x100]) div 4096 \<and>
     (\<exists>en \<in> set [mmap_entry demo_boot_ram 0x100]. usable_page en k)"
  "kbd_quiet blank_hw"
proof -
  have mem: "unat (mmap_memory [mmap_entry demo_boot_ram 0x100]) div 4096 = 2048"
    by (simp add: demo_boot_info mmap_memory_def mmap_max_step_def)
  show "mbi_at demo_boot_ram 0x500 = mbi_at (ram (demo_vfs\<lparr>ram := demo_boot_ram\<rparr>)) 0x500" by simp
  show "bit (mbi_flags (mbi_at demo_boot_ram 0x500)) 6" unfolding demo_boot_info by code_simp
  show "mmap_list (ram (demo_vfs\<lparr>ram := demo_boot_ram\<rparr>)) (mmap_addr (mbi_at demo_boot_ram 0x500))
     (mmap_addr (mbi_at demo_boot_ram 0x500) + mmap_length (mbi_at demo_boot_ram 0x500)) [mmap_entry demo_boot_ram 0x100]"
    by (simp add: demo_boot_info mmap_next_def)
  show "\<forall>k \<in> {512..<518}. k < unat (mmap_memory [mmap_entry demo_boot_ram 0x100]) div 4096 \<and>
     (\<exists>en \<in> set [mmap_entry demo_boot_ram 0x100]. usable_page en k)"
    unfolding mem by (simp add: demo_boot_info usable_page_def)
  show "kbd_quiet blank_hw" by (simp add: kbd_quiet_def blank_hw_def)
qed

text \<open>The state this machine starts into, for an image whose shell is at \<open>0x104000\<close>.\<close>

lemma demo_started:
  "\<exists>t. kernel_main blank_hw demo_image 0x104000 n MULTIBOOT_MAGIC 0x500 (demo_vfs\<lparr>ram := demo_boot_ram\<rparr>) = Some t \<and> system_inv demo_image t"
proof -
  have "kbd_inv demo_vfs" by code_simp
  then have "kbd_inv (demo_vfs\<lparr>ram := demo_boot_ram\<rparr>)" by simp
  from kernel_main_system [OF demo_boot_hyps this] show ?thesis by blast
qed

section \<open>Properties\<close>





end
