(* ===== verification/Startup.thy ===== *)
theory Startup
  imports Kernel_System
begin

text \<open>
  The rest of the assembly: the entry point of \<^verbatim>\<open>src/arch/i386/boot.s\<close> with its Multiboot header, and the two switching routines
  \<open>context_switch\<close> and \<open>task_switch\<close> of \<^verbatim>\<open>src/arch/i386/interrupts.s\<close>, which no code calls.

  Memory is the word store of the stacks; the address of the reserved stack and the return address of a call are arguments.
\<close>

section \<open>The Multiboot header\<close>

definition MB_FLAGS :: u32 where
  "MB_FLAGS = push_bit 0 1 OR push_bit 1 1"

definition MB_MAGIC :: u32 where
  "MB_MAGIC = 0x1BADB002"

definition multiboot_header :: "u32 list" where
  "multiboot_header = [MB_MAGIC, MB_FLAGS, - (MB_MAGIC + MB_FLAGS)]"

text \<open>What a loader looks for: the magic number and three words that add up to zero; bit 1 of the flags demands the memory
  information that \<open>boot_memory\<close> reads.\<close>

lemma multiboot_header_valid: "hd multiboot_header = 0x1BADB002" "sum_list multiboot_header = 0" "bit (multiboot_header ! 1) 1"
  by code_simp+

section \<open>The entry point\<close>

text \<open>An argument of a C function, read at its first instruction.\<close>

definition c_arg :: "(u32 \<Rightarrow> u32) \<Rightarrow> u32 \<Rightarrow> nat \<Rightarrow> u32" where
  "c_arg m esp i = m (esp + of_nat (4 * Suc i))"

text \<open>\<open>_start\<close>, with the registers of the loader; \<open>kernel_main\<close> does not return, so that what follows its call is not reached.\<close>

definition start ::
    "hardware \<Rightarrow> image \<Rightarrow> u32 \<Rightarrow> nat \<Rightarrow> u32 \<Rightarrow> u32 \<Rightarrow> cpu_regs \<Rightarrow> 'a vfs_sys_scheme \<Rightarrow> 'a vfs_sys_scheme option" where
  "start hw img user_shell_process n stack_top ret r s =
     (let r = r\<lparr>r_esp := stack_top\<rparr>;
          (esp, m) = push_all [r_ebx r, r_eax r, ret] (r_esp r, stack_mem s)
      in kernel_main hw img user_shell_process n (c_arg m esp 0) (c_arg m esp 1) (s\<lparr>stack_mem := m\<rparr>))"

lemma start_kernel_main:
  "\<exists>m. start hw img shell n stack_top ret r s = kernel_main hw img shell n (r_eax r) (r_ebx r) (s\<lparr>stack_mem := m\<rparr>)"
proof -
  obtain esp m where p: "push_all [r_ebx r, r_eax r, ret] (stack_top, stack_mem s) = (esp, m)" by force
  have "c_arg m esp 0 = r_eax r" "c_arg m esp 1 = r_ebx r"
    using frame_read(1) [OF _ p, of 1] frame_read(1) [OF _ p, of 2] by (simp_all add: c_arg_def)
  then show ?thesis by (simp add: start_def p) (rule exI, rule refl)
qed

section \<open>The unused switching routines\<close>

text \<open>\<open>context_switch\<close> up to the load of \<open>new_context\<close>, with \<open>eax\<close> set, and from there to the jump.\<close>

definition context_save :: "cpu_regs \<Rightarrow> (u32 \<Rightarrow> u32) \<Rightarrow> (u32 \<Rightarrow> u32)" where
  "context_save r m =
     (let m = m(r_eax r := r_edi r);
          m = m(r_eax r + 4 := r_esi r);
          m = m(r_eax r + 8 := r_ebp r);
          m = m(r_eax r + 12 := r_esp r);
          m = m(r_eax r + 16 := r_ebx r);
          m = m(r_eax r + 20 := r_edx r);
          m = m(r_eax r + 24 := r_ecx r);
          m = m(r_eax r + 28 := r_eax r);
          m = m(r_esp r - 4 := r_eflags r);
          m = m(r_eax r + 32 := m (r_esp r - 4))
      in m(r_eax r + 36 := 0))"

definition context_load :: "cpu_regs \<Rightarrow> (u32 \<Rightarrow> u32) \<Rightarrow> cpu_regs \<times> (u32 \<Rightarrow> u32)" where
  "context_load r m =
     (let new = r_eax r;
          r = r\<lparr>r_edi := m new, r_esi := m (new + 4), r_ebp := m (new + 8), r_esp := m (new + 12), r_ebx := m (new + 16),
                r_edx := m (new + 20), r_ecx := m (new + 24), r_eax := m (new + 28)\<rparr>;
          m = m(r_esp r - 4 := m (r_eax r + 32));
          r = r\<lparr>r_eflags := m (r_esp r - 4)\<rparr>
      in (r\<lparr>r_eip := m (r_eax r + 36)\<rparr>, m))"

definition context_switch :: "cpu_regs \<Rightarrow> (u32 \<Rightarrow> u32) \<Rightarrow> cpu_regs \<times> (u32 \<Rightarrow> u32)" where
  "context_switch r m =
     (let r = r\<lparr>r_eax := m (r_esp r + 4)\<rparr>;
          m = context_save r m;
          r = r\<lparr>r_eax := m (r_esp r + 8)\<rparr>
      in context_load r m)"

text \<open>The return from an interrupt, in ring 0.\<close>

definition iretd :: "cpu_regs \<Rightarrow> (u32 \<Rightarrow> u32) \<Rightarrow> cpu_regs" where
  "iretd r m =
     (let w = (\<lambda>i. m (r_esp r + of_nat (4 * i)));
          q = r\<lparr>r_eip := w 0, r_cs := w 1, r_eflags := w 2\<rparr>
      in if ring3 q then q\<lparr>r_esp := w 3, r_ss := w 4\<rparr> else q\<lparr>r_esp := r_esp r + 12\<rparr>)"

definition task_switch :: "cpu_regs \<Rightarrow> (u32 \<Rightarrow> u32) \<Rightarrow> cpu_regs \<times> (u32 \<Rightarrow> u32)" where
  "task_switch r m =
     (let r = r\<lparr>r_eax := m (r_esp r + 4)\<rparr>;
          r = r\<lparr>r_ebx := m (r_esp r + 8)\<rparr>;
          m = m(r_eax r := r_esp r);
          r = r\<lparr>r_esp := r_ebx r\<rparr>
      in (iretd r m, m))"

text \<open>The words of a saved context.\<close>

definition ctx_words :: "u32 \<Rightarrow> u32 set" where
  "ctx_words a = (+) a ` {0, 4, 8, 12, 16, 20, 24, 28, 32, 36}"

lemma context_save_words:
  assumes "r_esp r - 4 \<notin> ctx_words (r_eax r)"
  shows "context_save r m (r_eax r + 28) = r_eax r" "context_save r m (r_eax r + 36) = 0"
    "x \<notin> ctx_words (r_eax r) \<Longrightarrow> x \<noteq> r_esp r - 4 \<Longrightarrow> context_save r m x = m x"
proof -
  have "r_eax r + 28 \<noteq> r_esp r - 4" using assms unfolding ctx_words_def by (metis imageI insertCI)
  then show "context_save r m (r_eax r + 28) = r_eax r" by (simp add: context_save_def Let_def)
  show "context_save r m (r_eax r + 36) = 0" by (simp add: context_save_def Let_def)
  show "context_save r m x = m x" if "x \<notin> ctx_words (r_eax r)" "x \<noteq> r_esp r - 4"
    using that by (simp add: context_save_def Let_def ctx_words_def)
qed

text \<open>A context that an earlier call saved at \<open>b\<close> and nothing has changed since.\<close>

definition saved_context :: "(u32 \<Rightarrow> u32) \<Rightarrow> u32 \<Rightarrow> bool" where
  "saved_context m b \<longleftrightarrow>
     (\<exists>r0 m0. r_eax r0 = b \<and> r_esp r0 - 4 \<notin> ctx_words b \<and> (\<forall>x \<in> ctx_words b. m x = context_save r0 m0 x))"

lemma saved_context_words:
  assumes "saved_context m b"
  shows "m (b + 28) = b" "m (b + 36) = 0"
proof -
  obtain r0 m0 where s: "r_eax r0 = b" "r_esp r0 - 4 \<notin> ctx_words b" and eq: "\<forall>x \<in> ctx_words b. m x = context_save r0 m0 x"
    using assms unfolding saved_context_def by blast
  have "b + 28 \<in> ctx_words b" "b + 36 \<in> ctx_words b" by (simp_all add: ctx_words_def)
  then show "m (b + 28) = b" "m (b + 36) = 0" using eq context_save_words(1,2) [of r0 m0] s by simp_all
qed

text \<open>The comment next to the stored zero says that the instruction pointer is not used.  It is: the jump at the end goes through it, so that
  resuming any context \<open>context_switch\<close> has saved continues at address 0.\<close>

theorem context_switch_resumes_at_zero:
  assumes saved: "saved_context m b" and arg: "m (r_esp r + 8) = b"
    and apart: "ctx_words (m (r_esp r + 4)) \<inter> ctx_words b = {}" "r_esp r + 8 \<notin> ctx_words (m (r_esp r + 4))"
      "r_esp r - 4 \<notin> ctx_words b" "r_esp r - 4 \<notin> ctx_words (m (r_esp r + 4))" "m (b + 12) - 4 \<notin> ctx_words b"
  shows "r_eip (fst (context_switch r m)) = 0"
proof -
  define q where "q = r\<lparr>r_eax := m (r_esp r + 4)\<rparr>"
  define n where "n = context_save q m"
  have esp: "r_esp q = r_esp r" "r_eax q = m (r_esp r + 4)" by (simp_all add: q_def)
  have other: "n x = m x" if "x \<notin> ctx_words (m (r_esp r + 4))" "x \<noteq> r_esp r - 4" for x
    unfolding n_def using context_save_words(3) [of q x m] that apart(4) by (simp only: esp simp_thms)
  have keep: "n x = m x" if "x \<in> ctx_words b" for x
  proof (rule other)
    show "x \<notin> ctx_words (m (r_esp r + 4))" "x \<noteq> r_esp r - 4" using apart(1,3) that by auto
  qed
  have "r_esp r + 8 \<noteq> r_esp r - 4" using diff_same_left [of "r_esp r" "- 8" 4] by simp
  with other apart(2) arg have b: "n (r_esp r + 8) = b" by metis
  have w: "b + 12 \<in> ctx_words b" "b + 28 \<in> ctx_words b" "b + 36 \<in> ctx_words b" by (simp_all add: ctx_words_def)
  have eq: "context_switch r m = context_load (q\<lparr>r_eax := b\<rparr>) n"
    unfolding context_switch_def Let_def q_def [symmetric] n_def [symmetric] esp(1) b by (rule refl)
  have "b + 36 \<noteq> n (b + 12) - 4" using apart(5) w(3) unfolding keep [OF w(1)] by metis
  then show ?thesis
    using saved_context_words [OF saved] keep [OF w(2)] keep [OF w(3)] unfolding eq by (simp add: context_load_def Let_def)
qed

definition demo_saver :: cpu_regs where
  "demo_saver = demo_user_regs\<lparr>r_eax := 0x3000, r_esp := 0x5000\<rparr>"

definition demo_switch_mem :: "u32 \<Rightarrow> u32" where
  "demo_switch_mem = (context_save demo_saver (\<lambda>_. 0))(0x1004 := 0x2000, 0x1008 := 0x3000)"

theorem context_switch_resumes_at_zero_witness:
  "r_eip (fst (context_switch (demo_user_regs\<lparr>r_esp := 0x1000\<rparr>) demo_switch_mem)) = 0"
proof (rule context_switch_resumes_at_zero [where b = "0x3000"])
  have "\<forall>x \<in> ctx_words 0x3000. demo_switch_mem x = context_save demo_saver (\<lambda>_. 0) x"
    by (simp add: ctx_words_def demo_switch_mem_def)
  then show "saved_context demo_switch_mem 0x3000"
    unfolding saved_context_def
    by (intro exI [of _ demo_saver] exI [of _ "\<lambda>_. 0"]) (simp add: demo_saver_def ctx_words_def)
qed (simp_all add: demo_switch_mem_def demo_saver_def ctx_words_def context_save_def Let_def)

text \<open>\<open>task_switch\<close> expects the frame of an interrupt without saved registers under the new stack pointer, but the frames the scheduler builds
  start with the segment registers: applied to the stack of a new kernel process it loads the value of GS as the instruction
  pointer and that of FS, a data segment, as the code segment.\<close>

theorem task_switch_misreads_frame:
  assumes frame: "push_all (kernel_frame img) (tp, m0) = (new, m)" and arg: "m (r_esp r + 8) = new"
    and apart: "m (r_esp r + 4) \<notin> {new, new + 4, new + 8}"
  shows "r_eip (fst (task_switch r m)) = ucast KERNEL_DS \<and> r_cs (fst (task_switch r m)) = ucast KERNEL_DS"
proof -
  have len: "length (kernel_frame img) = 15" by (simp add: kernel_frame_def)
  note rd = frame_read(1) [OF _ frame, unfolded len]
  have "m new = ucast KERNEL_DS" "m (new + 4) = ucast KERNEL_DS" "m (new + 8) = ucast KERNEL_DS"
    using rd [of 0] rd [of 1] rd [of 2] by (simp_all add: kernel_frame_def)
  then show ?thesis using arg apart by (auto simp add: task_switch_def iretd_def Let_def)
qed

end
