(* ===== verification/Timer_Fair.thy ===== *)
theory Timer_Fair
  imports Entry
begin

text \<open>
  Time slices: how long a READY process waits when the timer interrupt is all that happens.  The interrupt stub, the tick counter of
  \<^verbatim>\<open>src/kernel/scheduler.c\<close> and the round robin together bound the wait by ten ticks for every slot of the process table.
\<close>

section \<open>One timer interrupt\<close>

text \<open>The registers of the interrupted code and those the C handler leaves, for a sequence of interrupts.\<close>

definition timer_ticks :: "(cpu_regs \<times> cpu_regs) list \<Rightarrow> 'a pit_sys_scheme \<Rightarrow> 'a pit_sys_scheme" where
  "timer_ticks rs s = fold (\<lambda>(left, r) s. snd (irq0_interrupt left r s)) rs s"

text \<open>A state inside a time slice.\<close>

definition in_slice :: "'a sched_sys_scheme \<Rightarrow> bool" where
  "in_slice s \<longleftrightarrow> sched_wf s \<and> unat (tick_counter s) < 10 \<and> schedule_needed s = 0"

lemma stack_frames [simp]:
  "slot (s\<lparr>stack_mem := m\<rparr>) = slot s" "state_of (s\<lparr>stack_mem := m\<rparr>) = state_of s" "sched_wf (s\<lparr>stack_mem := m\<rparr>) = sched_wf s"
  by (simp_all add: slot_def state_of_def fun_eq_iff sched_wf_def sched_tab_def sched_states_def)

text \<open>Before the tenth tick nothing changes but the counters.\<close>

lemma slice_goes_on:
  assumes "in_slice s" and "1 < slots_used s" and "tick_counter s \<noteq> 9"
  shows "let t = snd (irq0_interrupt left r s)
    in in_slice t \<and> unat (tick_counter t) = Suc (unat (tick_counter s)) \<and> current_process t = current_process s \<and>
       process_count t = process_count s \<and> state_of t = state_of s"
proof -
  obtain esp m where m: "irq_save s r = (esp, m)" by force
  let ?u = "after_tick 0 (tick_counter s + 1) (s\<lparr>stack_mem := m\<rparr>)"
  have lt: "unat (tick_counter s) < 9" using assms(1,3) by (auto simp add: in_slice_def word_unat_eq_iff)
  then have c: "unat (tick_counter s + 1) = Suc (unat (tick_counter s))" by (subst unat_plus_one_no_wrap) simp_all
  have "pit_handler (s\<lparr>stack_mem := m\<rparr>) = ?u"
    using pit_handler_eq [of "s\<lparr>stack_mem := m\<rparr>"] assms by (simp add: in_slice_def)
  then have "snd (irq0_interrupt left r s) = ?u" by (simp add: irq0_interrupt_def m irq0_stub_def)
  then show ?thesis using assms(1) lt c by (simp add: in_slice_def after_tick_wf)
qed

text \<open>The tenth tick switches and begins a new slice.\<close>

lemma slice_ends:
  assumes "in_slice s" and n: "1 < slots_used s" and "tick_counter s = 9"
    and k: "k < slots_used s" "k \<noteq> unat (current_process s)" "state_of s k = PROCESS_READY"
  obtains d t esp where "snd (irq0_interrupt left r s) = t" and "in_slice t" and "tick_counter t = 0"
    and "d < slots_used s" and "slot_after s d \<noteq> unat (current_process s)" and "\<forall>e < d. state_of s (slot_after s e) \<noteq> PROCESS_READY"
    and "unat (current_process t) = slot_after s d" and "process_count t = process_count s"
    and "\<And>j. j < slots_used s \<Longrightarrow> state_of t j = (if j = slot_after s d then PROCESS_RUNNING
      else if j = unat (current_process s) \<and> state_of s j = PROCESS_RUNNING then PROCESS_READY else state_of s j)"
proof -
  obtain esp m where m: "irq_save s r = (esp, m)" by force
  let ?u = "after_tick 0 0 (s\<lparr>stack_mem := m\<rparr>)"
  have wfu: "sched_wf ?u" using assms(1) by (simp add: in_slice_def after_tick_wf)
  then have tab: "sched_tab ?u" by (simp add: sched_wf_def)
  have af: "slot_after ?u = slot_after s" by (simp add: fun_eq_iff slot_after_def)
  obtain d t where d: "d < slots_used s" "slot_after s d \<noteq> unat (current_process s)" "slot_after s d < slots_used s"
      "\<forall>e < d. state_of s (slot_after s e) \<noteq> PROCESS_READY" "state_of s (slot_after s d) = PROCESS_READY"
      "switched esp (slot_after s d) ?u t" "scheduler_yield_impl esp ?u = (ctx_esp (cpu_context (slot s (slot_after s d))), t)"
    using yield_impl_cases [OF tab, of esp] n k af slot_after_less [of s] by auto
  have "pit_handler (s\<lparr>stack_mem := m\<rparr>) = after_tick 1 0 (s\<lparr>stack_mem := m\<rparr>)"
    using pit_handler_eq [of "s\<lparr>stack_mem := m\<rparr>"] n assms(3) by simp
  then have t: "snd (irq0_interrupt left r s) = t" using d(7) by (simp add: irq0_interrupt_def m irq0_stub_def Let_def split_beta)
  have c: "unat (current_process ?u) < slots_used ?u" using current_slot [OF tab] n by simp
  have sw: "tick_counter t = 0" "schedule_needed t = 0" "unat (current_process t) = slot_after s d" "process_count t = process_count s"
    using d(6) by (simp_all add: switched_def same_table_def)
  have "sched_wf t" by (rule switched_wf [OF wfu d(6)]) (use d(2,3) in simp_all)
  then have "in_slice t" using sw by (simp add: in_slice_def)
  moreover have "state_of t j = (if j = slot_after s d then PROCESS_RUNNING
      else if j = unat (current_process s) \<and> state_of s j = PROCESS_RUNNING then PROCESS_READY else state_of s j)" if "j < slots_used s" for j
    using switched_slots(1) [OF d(6) _ c, of j] d(2,3) that by auto
  ultimately show ?thesis using that [OF t] sw d(1,2,4) by blast
qed

section \<open>Waiting for a slice\<close>

lemma slice_comes:
  "in_slice s \<Longrightarrow> d < slots_used s \<Longrightarrow> slot_after s d = k \<Longrightarrow> k \<noteq> unat (current_process s) \<Longrightarrow> state_of s k = PROCESS_READY \<Longrightarrow>
   10 * d + (10 - unat (tick_counter s)) \<le> length rs \<Longrightarrow>
   \<exists>m \<le> 10 * d + (10 - unat (tick_counter s)).
     unat (current_process (timer_ticks (take m rs) s)) = k \<and> state_of (timer_ticks (take m rs) s) k = PROCESS_RUNNING"
proof (induction "10 * d + (10 - unat (tick_counter s))" arbitrary: d s rs rule: less_induct)
  case less
  have wf: "sched_wf s" and tick: "unat (tick_counter s) < 10" using less.prems(1) by (simp_all add: in_slice_def)
  have kn: "k < slots_used s" using less.prems(2,3) slot_after_less [of s d] by auto
  have c: "unat (current_process s) < slots_used s" using wf kn by (auto simp add: sched_wf_def sched_tab_def)
  then have n: "1 < slots_used s" using kn less.prems(4) by linarith
  obtain left r rs' where rs: "rs = (left, r) # rs'" using less.prems(6) tick by (cases rs) auto
  define t where "t = snd (irq0_interrupt left r s)"
  have step: "timer_ticks (take (Suc m) rs) s = timer_ticks (take m rs') t" for m
    by (simp add: timer_ticks_def rs t_def)
  have done_: ?case if "m' \<le> b" "Suc b \<le> 10 * d + (10 - unat (tick_counter s))" "unat (current_process (timer_ticks (take m' rs') t)) = k"
      "state_of (timer_ticks (take m' rs') t) k = PROCESS_RUNNING" for m' b
    using that step [of m'] by (intro exI [of _ "Suc m'"]) auto
  show ?case
  proof (cases "tick_counter s = 9")
    case False
    from slice_goes_on [OF less.prems(1) n False, of left r] have
      t: "in_slice t" "unat (tick_counter t) = Suc (unat (tick_counter s))" "current_process t = current_process s"
        "process_count t = process_count s" "state_of t = state_of s" by (simp_all add: t_def Let_def)
    have "slot_after t d = k" using less.prems(3) t(3,4) by (simp add: slot_after_def)
    then have "\<exists>m \<le> 10 * d + (10 - unat (tick_counter t)).
        unat (current_process (timer_ticks (take m rs') t)) = k \<and> state_of (timer_ticks (take m rs') t) k = PROCESS_RUNNING"
      using less.prems tick t rs by (intro less.hyps) auto
    then show ?thesis using done_ [of _ "10 * d + (10 - unat (tick_counter t))"] t(2) tick by auto
  next
    case True
    obtain g where g: "in_slice t" "tick_counter t = 0" "g < slots_used s" "slot_after s g \<noteq> unat (current_process s)"
        "\<forall>e < g. state_of s (slot_after s e) \<noteq> PROCESS_READY" "unat (current_process t) = slot_after s g" "process_count t = process_count s"
        "\<And>j. j < slots_used s \<Longrightarrow> state_of t j = (if j = slot_after s g then PROCESS_RUNNING
          else if j = unat (current_process s) \<and> state_of s j = PROCESS_RUNNING then PROCESS_READY else state_of s j)"
      using slice_ends [OF less.prems(1) n True kn less.prems(4,5), of left r] t_def by metis
    have gd: "g \<le> d" using g(5) less.prems(3,5) by (metis not_le)
    show ?thesis
    proof (cases "slot_after s g = k")
      case True
      then show ?thesis using done_ [of 0 0] g(6) g(8) [OF kn] tick by (simp add: timer_ticks_def)
    next
      case False
      then have lt: "g < d" using gd less.prems(3) le_neq_implies_less by blast
      have "slot_after t (d - g - 1) = k" using slot_after_shift [OF g(6) _ lt] g(7) less.prems(3) by simp
      moreover have "state_of t k = PROCESS_READY" using g(8) [OF kn] less.prems(5) False by auto
      ultimately have "\<exists>m \<le> 10 * (d - g - 1) + (10 - unat (tick_counter t)).
          unat (current_process (timer_ticks (take m rs') t)) = k \<and> state_of (timer_ticks (take m rs') t) k = PROCESS_RUNNING"
        using less.prems tick g lt False rs by (intro less.hyps) auto
      then show ?thesis using done_ [of _ "10 * (d - g - 1) + (10 - unat (tick_counter t))"] g(2) lt tick by auto
    qed
  qed
qed

section \<open>Properties\<close>

text \<open>C6. Every READY process gets the processor in bounded time: when nothing but timer interrupts happens, whatever code they interrupt,
  the process in slot \<open>k\<close> is RUNNING after at most ten ticks for each slot of the table.\<close>

theorem ready_runs_within_ticks:
  assumes "sched_wf s" and "unat (tick_counter s) < 10" and "schedule_needed s = 0"
    and "k < slots_used s" and "k \<noteq> unat (current_process s)" and "state_of s k = PROCESS_READY" and "length rs = 10 * slots_used s"
  shows "\<exists>m \<le> 10 * slots_used s. unat (current_process (timer_ticks (take m rs) s)) = k \<and>
    state_of (timer_ticks (take m rs) s) k = PROCESS_RUNNING"
proof -
  have c: "unat (current_process s) < slots_used s" using assms(1,4) by (auto simp add: sched_wf_def sched_tab_def)
  obtain d where d: "d < slots_used s" "slot_after s d = k" using slot_after_surj [OF c assms(4)] by blast
  then have b: "10 * d + (10 - unat (tick_counter s)) \<le> 10 * slots_used s" by simp
  have "in_slice s" using assms(1-3) by (simp add: in_slice_def)
  from slice_comes [OF this d assms(5,6), of rs] b assms(7) obtain m where "m \<le> 10 * d + (10 - unat (tick_counter s))"
      "unat (current_process (timer_ticks (take m rs) s)) = k" "state_of (timer_ticks (take m rs) s) k = PROCESS_RUNNING" by auto
  then show ?thesis using b by (intro exI [of _ m]) simp
qed

theorem ready_runs_within_ticks_witness:
  "\<exists>m. m \<le> 30 \<and> unat (current_process (timer_ticks (take m (replicate 30 (demo_user_regs, demo_user_regs))) demo_pit)) = 0 \<and>
    state_of (timer_ticks (take m (replicate 30 (demo_user_regs, demo_user_regs))) demo_pit) 0 = PROCESS_RUNNING"
proof -
  have "state_of demo_pit 0 = PROCESS_READY" by (simp add: state_of_def demo_proc_def)
  then show ?thesis
    using ready_runs_within_ticks [OF demo_pit_wf, of 0 "replicate 30 (demo_user_regs, demo_user_regs)"] by auto
qed

end
