(* ===== verification/Spec2Isabelle.thy ===== *)
theory Spec2Isabelle
  imports Startup Timer_Fair
begin

text \<open>
  \<^bold>\<open>A verification development for HumanOS\<close>, a small 32-bit x86 kernel in C (\<^verbatim>\<open>src/src\<close>).

  \<^bold>\<open>The program.\<close>  GRUB starts \<open>kernel_main\<close>, which brings up, in this order, the text console, the serial port, the
  descriptor tables, the physical page allocator, the timer, the heap, paging, the scheduler, the keyboard, the disk and the
  file system, then adds an interactive shell as a ring 3 process and idles.  From then on the timer interrupt drives a
  round-robin scheduler, the keyboard interrupt fills a ring buffer, and processes enter the kernel by \<open>int 0x80\<close>.

  \<^bold>\<open>The state.\<close>  Each component adds its variables to the state of the ones it calls, as an extension of one record:
  \<open>machine\<close> (history of port accesses and privileged instructions, byte memory) - \<open>console\<close> - \<open>pmm_sys\<close> - \<open>heap_sys\<close> -
  \<open>paging_sys\<close> - \<open>desc_sys\<close> - \<open>sched_sys\<close> - \<open>pit_sys\<close> - \<open>kbd_sys\<close> - \<open>ata_sys\<close> - \<open>vfs_sys\<close>.  An operation is a function on
  the scheme of its component's record, so that it applies to every larger state and visibly leaves the rest alone.
  Structures that the code reaches through typed pointers live in a store of their own, indexed by their address: block
  headers (\<open>heap_mem\<close>), page tables (\<open>page_mem\<close>), process descriptors and stacks (\<open>proc_mem\<close>, \<open>stack_mem\<close>).  Raw buffers and
  strings are in the byte memory \<open>ram\<close>.  The development thus takes for granted that these kinds of memory do not overlap,
  which is the allocators' business and the subject of their theorems.

  \<^bold>\<open>Parameters.\<close>  What a port, CPUID or a control register answers is a record \<open>hardware\<close> of functions of the history; the
  addresses the linker and the compiler choose are records \<open>image\<close>, \<open>trap_env\<close>, \<open>user_env\<close>; the initial contents of an
  uninitialised buffer and what other processes do between two polls of a waiting loop are arguments.  What is assumed of a
  device is a named predicate (\<open>uart_drains\<close>, \<open>drive_ok\<close>), shown satisfiable by a simulated disk and serial line.

  \<^bold>\<open>Integers, loops, errors.\<close>  C integers are words of their width; arithmetic wraps.  A counting loop is a fold or a
  terminating function; a scan of linked or NUL-terminated memory, or a wait for a device, is a partial function with
  value \<open>None\<close> when it does not end, and each theorem about such an operation states that it returns.  The only bounds written as
  numbers are those of the code (15 digits of the decimal loop, 100000 polls of the disk driver and the like).  Null pointers are
  \<open>None\<close>, or address 0 where the code does arithmetic on them.  A routine that ends in an endless \<open>hlt\<close> is described by
  the state in which it halts.

  \<^bold>\<open>The theories\<close>, each named with the sources it models and what it shows.

  \<^item> \<open>Prelude\<close>, \<open>Machine\<close>: words, bit sets, counting, array loops; ports, events, byte memory.
  \<^item> \<open>Vga\<close> (\<^verbatim>\<open>drivers/vga.c\<close>): the cursor stays on the screen and nothing outside the frame buffer is written; scrolling; the
    decimal loop prints what reads back as the number.
  \<^item> \<open>Pmm\<close> (\<^verbatim>\<open>kernel/pmm.c\<close>): the bitmap and the counters agree; allocation returns the lowest free frame, freeing rejects
    everything but a used aligned frame; after the Multiboot initialisation exactly the usable frames above 2 MB are free.  The
    contract of a frame allocator is a locale, interpreted here and used by the heap.
  \<^item> \<open>Heap\<close>, \<open>Heap_Free\<close>, \<open>Heap_Owns\<close> (\<^verbatim>\<open>kernel/heap.c\<close>): the doubly linked block list and its invariant, allocation,
    coalescing, which frames a block owns; three theorems about where the code goes wrong.
  \<^item> \<open>Paging\<close> (\<^verbatim>\<open>kernel/paging.c\<close>): mapping and translation, the identity map built at start.
  \<^item> \<open>Descriptors\<close> (\<^verbatim>\<open>kernel/gdt.c\<close>, \<^verbatim>\<open>kernel/idt.c\<close>): segments, task state, gates.
  \<^item> \<open>Scheduler\<close>, \<open>Scheduler_Inv\<close>, \<open>Scheduler_Run\<close>, \<open>Scheduler_Props\<close> (\<^verbatim>\<open>kernel/scheduler.c\<close>, \<^verbatim>\<open>arch/i386/interrupts.s\<close>):
    operations; the invariant as a step relation over all operations; round robin, absence of starvation; exit, kill, wait; the
    initial stack frames and the frame a switch saves and restores.
  \<^item> \<open>Pit\<close> (\<^verbatim>\<open>kernel/pit.c\<close>): ticks, preemption, sleeping.
  \<^item> \<open>Keyboard\<close> (\<^verbatim>\<open>drivers/keyboard.c\<close>): the ring is a bounded queue, stated as a locale and interpreted on the driver.
  \<^item> \<open>Serial\<close> (\<^verbatim>\<open>drivers/serial.c\<close>): transmission returns and sends the text.
  \<^item> \<open>Ata\<close> (\<^verbatim>\<open>drivers/ata.c\<close>): a sector store, stated as a locale and interpreted on the driver over a drive that keeps
    what it is sent; detection, absence of a disk.
  \<^item> \<open>Vfs\<close>, \<open>Vfs_Refine\<close>, \<open>Vfs_Props\<close> (\<^verbatim>\<open>kernel/vfs.c\<close>): the file system refines a finite map from names to contents that lives
    on the disk.
  \<^item> \<open>Sync\<close> (\<^verbatim>\<open>kernel/spinlock.c\<close>, \<^verbatim>\<open>kernel/semaphore.c\<close>): every interleaving of atomic steps excludes and counts correctly.
  \<^item> \<open>Isr\<close> (\<^verbatim>\<open>kernel/isr.c\<close>, \<^verbatim>\<open>kernel/cpu.c\<close>): the panic screen and the processor report.
  \<^item> \<open>Power_Mgmt\<close> (\<^verbatim>\<open>kernel/power.c\<close>): an orderly shutdown loses no file.
  \<^item> \<open>Syscall\<close> (\<^verbatim>\<open>kernel/syscall.c\<close>): the dispatcher, reading a line, the registers of the caller.
  \<^item> \<open>Libc\<close>, \<open>Libc_Props\<close> (\<^verbatim>\<open>user/libc.c\<close>): string functions against list operations, conversions, the line editor, and the
    numbers under which the library calls the kernel.
  \<^item> \<open>Elf\<close> (\<^verbatim>\<open>kernel/elf.c\<close>): headers, loading and start of a program: what is not a 32-bit x86 program is refused, and a
    segment in memory is the bytes of the file followed by zeros.
  \<^item> \<open>Shell\<close>, \<open>Shell_Props\<close> (\<^verbatim>\<open>user_shell_process\<close> of \<^verbatim>\<open>kernel/main.c\<close>): line editing, history, completion and every command.
    The reachable states of the loop are a step relation, and in all of them nothing outside the line buffer and the history was
    written; the line buffer is an instance of the locale of a bounded line editor; the history gives back what was entered; a
    typed \<open>write\<close> command ends up in the map of the file system.
  \<^item> \<open>Boot\<close>, \<open>Boot_Props\<close> (\<^verbatim>\<open>kernel_main\<close> of \<^verbatim>\<open>kernel/main.c\<close>): the start, cut into the groups of calls its comments name.  The
    drivers leave the kernel's tables alone (\<open>kernel_core\<close>); the page frames each step takes are followed from the memory map to
    the control blocks of the first two processes.
  \<^item> \<open>Entry\<close> (\<^verbatim>\<open>arch/i386/interrupts.s\<close>): the stubs around the C handlers.  An interrupted process gets its registers back, also
    when the timer gives the processor to another one in between; the handlers of exceptions and system calls see the registers
    of their caller; which registers a system call loses.
  \<^item> \<open>Timer_Fair\<close>: the timer stub, the tick counter and the round robin together: the wait of a READY process is bounded by ten ticks
    for each slot of the table.
  \<^item> \<open>Kernel_Run\<close>: the running kernel as one transition system (\<open>kernel_step\<close>) over its entries, the two interrupts and the system call
    with their stubs, the scheduler and file system functions the shell calls directly, output, and changes of memory by running
    code; one invariant (\<open>system_inv\<close>) for the process table, the heap, the page allocator, the keyboard ring, the cursor, the
    gates, the segments and the page tables, kept by every step.  \<open>malloc_served\<close> and \<open>free_served\<close> say which requests the heap can
    serve; they leave out exactly what the theorems about its mistakes show.
  \<^item> \<open>Kernel_System\<close>: \<open>kernel_main\<close> establishes the invariant; system calls return; the shell process keeps the invariant.
  \<^item> \<open>Startup\<close> (\<^verbatim>\<open>arch/i386/boot.s\<close>, the unused routines of \<^verbatim>\<open>arch/i386/interrupts.s\<close>): the Multiboot header, the entry point and the
    arguments it passes; why the two unused switching routines could not be used.
  \<^item> This theory: the properties of the system as a whole, from the first instruction after the boot loader to every state of the
    running kernel, and that the shell gets the processor within one time slice.

  \<^bold>\<open>Not modelled.\<close>  Interrupts that arrive while \<open>kernel_main\<close> runs its last calls, or in the middle of a C function of the kernel, are
  not interleaved with it: a step of \<open>kernel_step\<close> is a whole handler or a whole call.  Inside a step, the code between two yields of a
  process is taken as one.  Port numbers and constants that no code uses, prototypes and the duplicates of the port access
  functions in several files have no definition of their own.  Build files, linker script and images hold no logic.
\<close>

section \<open>The system as a whole\<close>

text \<open>C1. Loaded by a Multiboot loader whose memory map leaves six page frames above the first 2 MB, on a machine whose keyboard
  controller runs out of bytes, the kernel reaches its idle loop: the first 4 MB are mapped one to one, every interrupt vector
  leads to its stub and only the system call may be raised from ring 3, the scheduler's invariant holds, process 1 (the boot
  code) is running, and process 2 is the shell, ready to be entered at its first instruction in ring 3 with interrupts on and a
  stack inside its own control block.\<close>

theorem kernel_boots:
  fixes s :: "'a vfs_sys_scheme"
  assumes mbi: "mbi = mbi_at (ram s) mbi_addr" "bit (mbi_flags mbi) 6"
    and list: "mmap_list (ram s) (mmap_addr mbi) (mmap_addr mbi + mmap_length mbi) ens"
    and six: "\<forall>k \<in> {512..<518}. k < unat (mmap_memory ens) div 4096 \<and> (\<exists>en \<in> set ens. usable_page en k)"
    and quiet: "kbd_quiet hw"
  shows "\<exists>t. kernel_main hw img shell n MULTIBOOT_MAGIC mbi_addr s = Some t \<and>
    (\<forall>v < 1048576. vmap t v = (if v < 1024 then Some (of_nat v) else None)) \<and> idt_view t = kernel_gates img \<and>
    sched_inv t \<and> process_count t = 2 \<and> current_process t = 0 \<and> state_of t 0 = PROCESS_RUNNING \<and> pid (slot t 0) = 1 \<and>
    state_of t 1 = PROCESS_READY \<and> pid (slot t 1) = 2 \<and> p_name (slot t 1) = lit ''UserShellRing3'' \<and>
    (let r = restore_frame (stack_mem t) (ctx_esp (cpu_context (slot t 1))) regs
     in r_eip r = shell \<and> r_cs r = ucast USER_CS \<and> r_ss r = ucast USER_DS \<and> r_eflags r = 0x202 \<and>
        r_esp r = stack_addr (processes t 1) (KERNEL_STACK_SIZE - 256))"
  by (rule kernel_comes_up [OF assms])

theorem kernel_boots_witness:
  "\<exists>t. kernel_main blank_hw demo_image 0x104000 3 MULTIBOOT_MAGIC 0x500 (demo_vfs\<lparr>ram := demo_boot_ram\<rparr>) = Some t \<and>
    sched_inv t \<and> process_count t = 2 \<and> state_of t 1 = PROCESS_READY \<and> idt_view t = kernel_gates demo_image"
  using kernel_boots [OF demo_boot_hyps] by blast

text \<open>C4. Started that way, the first switch of processes, whether a timer interrupt or a yield makes it, enters the shell: the boot
  code becomes READY, the shell runs, the frame restored is the first instruction of the shell in
  ring 3, and an interrupt from there will use the kernel stack of the shell's own control block.\<close>

theorem boot_enters_shell:
  fixes s :: "'a vfs_sys_scheme"
  assumes mbi: "mbi = mbi_at (ram s) mbi_addr" "bit (mbi_flags mbi) 6"
    and list: "mmap_list (ram s) (mmap_addr mbi) (mmap_addr mbi + mmap_length mbi) ens"
    and six: "\<forall>k \<in> {512..<518}. k < unat (mmap_memory ens) div 4096 \<and> (\<exists>en \<in> set ens. usable_page en k)"
    and quiet: "kbd_quiet hw"
  shows "\<exists>t u esp'. kernel_main hw img shell n MULTIBOOT_MAGIC mbi_addr s = Some t \<and>
    scheduler_yield_impl esp t = (esp', u) \<and> current_process u = 1 \<and> state_of u 0 = PROCESS_READY \<and>
    state_of u 1 = PROCESS_RUNNING \<and> tss_esp0 (tss_entry u) = stack_addr (processes t 1) KERNEL_STACK_SIZE \<and>
    r_eip (restore_frame (stack_mem u) esp' regs) = shell \<and> r_cs (restore_frame (stack_mem u) esp' regs) = ucast USER_CS"
proof -
  obtain t where t: "kernel_main hw img shell n MULTIBOOT_MAGIC mbi_addr s = Some t" "sched_inv t" "process_count t = 2"
      "current_process t = 0" "state_of t 0 = PROCESS_RUNNING" "state_of t 1 = PROCESS_READY"
      "r_eip (restore_frame (stack_mem t) (ctx_esp (cpu_context (slot t 1))) regs) = shell"
      "r_cs (restore_frame (stack_mem t) (ctx_esp (cpu_context (slot t 1))) regs) = ucast USER_CS"
    using kernel_comes_up [OF assms, of img shell n regs] unfolding Let_def by blast
  have "sched_wf t" using t(2) by (simp add: sched_inv_def)
  from first_switch [OF this t(3-6)] show ?thesis using t(1,7,8) by metis
qed

theorem boot_enters_shell_witness:
  "\<exists>t u esp'. kernel_main blank_hw demo_image 0x104000 0 MULTIBOOT_MAGIC 0x500 (demo_vfs\<lparr>ram := demo_boot_ram\<rparr>) = Some t \<and>
    scheduler_yield_impl 0x90000 t = (esp', u) \<and> current_process u = 1 \<and> state_of u 1 = PROCESS_RUNNING"
  using boot_enters_shell [OF demo_boot_hyps] by blast

text \<open>C2. From the first instruction on, the kernel stays in order.  Entered at \<open>_start\<close> by a Multiboot loader, it comes up, and in every
  state that any sequence of timer and keyboard interrupts, system calls, scheduler and file system operations, output and changes of
  memory by processes can reach from there, the process table, the heap, the page allocator, the keyboard ring, the cursor, the
  interrupt gates, the segments and the page tables satisfy their invariants, as long as the heap is asked only for what it can serve.\<close>

theorem running_kernel_invariant:
  fixes s :: "'a vfs_sys_scheme"
  assumes loader: "r_eax r = MULTIBOOT_MAGIC" "mbi = mbi_at (ram s) (r_ebx r)" "bit (mbi_flags mbi) 6"
    and list: "mmap_list (ram s) (mmap_addr mbi) (mmap_addr mbi + mmap_length mbi) ens"
    and six: "\<forall>k \<in> {512..<518}. k < unat (mmap_memory ens) div 4096 \<and> (\<exists>en \<in> set ens. usable_page en k)"
    and quiet: "kbd_quiet hw" and kbd: "kbd_inv s"
  shows "\<exists>t. start hw img shell n stack_top ret r s = Some t \<and> (\<forall>u. kernel_run hw img t u \<longrightarrow> system_inv img u)"
proof -
  obtain m where m: "start hw img shell n stack_top ret r s = kernel_main hw img shell n (r_eax r) (r_ebx r) (s\<lparr>stack_mem := m\<rparr>)"
    using start_kernel_main by blast
  have "kbd_inv (s\<lparr>stack_mem := m\<rparr>)" using kbd by (simp add: kbd_inv_def)
  then obtain t where "kernel_main hw img shell n MULTIBOOT_MAGIC (r_ebx r) (s\<lparr>stack_mem := m\<rparr>) = Some t" "system_inv img t"
    using kernel_main_system [of mbi "s\<lparr>stack_mem := m\<rparr>" "r_ebx r" ens hw img shell n] loader(2,3) list six quiet by auto
  then show ?thesis using m loader(1) kernel_run_system by auto
qed

theorem running_kernel_invariant_witness:
  "\<exists>t. start blank_hw demo_image 0x104000 0 0x90000 0 (demo_user_regs\<lparr>r_eax := MULTIBOOT_MAGIC, r_ebx := 0x500\<rparr>)
      (demo_vfs\<lparr>ram := demo_boot_ram\<rparr>) = Some t \<and> system_inv demo_image (snd (irq0_interrupt demo_user_regs demo_user_regs t))"
proof -
  let ?r = "demo_user_regs\<lparr>r_eax := MULTIBOOT_MAGIC, r_ebx := 0x500\<rparr>"
  have regs: "r_eax ?r = MULTIBOOT_MAGIC" "mbi_at demo_boot_ram 0x500 = mbi_at (ram (demo_vfs\<lparr>ram := demo_boot_ram\<rparr>)) (r_ebx ?r)" by simp_all
  have "kbd_inv demo_vfs" by code_simp
  then have "kbd_inv (demo_vfs\<lparr>ram := demo_boot_ram\<rparr>)" by simp
  from running_kernel_invariant [OF regs demo_boot_hyps(2-5) this] obtain t where
    t: "start blank_hw demo_image 0x104000 0 0x90000 0 ?r (demo_vfs\<lparr>ram := demo_boot_ram\<rparr>) = Some t"
      "\<forall>u. kernel_run blank_hw demo_image t u \<longrightarrow> system_inv demo_image u" by blast
  have "kernel_run blank_hw demo_image t (snd (irq0_interrupt demo_user_regs demo_user_regs t))"
    by (rule krun_step [OF krun_refl step_timer])
  then show ?thesis using t by blast
qed

text \<open>C5. The shell really starts.  Entered at \<open>_start\<close> with the tick counter of the scheduler below its limit, the kernel comes up, and
  whatever code the timer interrupts, after at most ten ticks the current and RUNNING process is the shell.\<close>

theorem shell_runs_after_boot:
  fixes s :: "'a vfs_sys_scheme"
  assumes loader: "r_eax r = MULTIBOOT_MAGIC" "mbi = mbi_at (ram s) (r_ebx r)" "bit (mbi_flags mbi) 6"
    and list: "mmap_list (ram s) (mmap_addr mbi) (mmap_addr mbi + mmap_length mbi) ens"
    and six: "\<forall>k \<in> {512..<518}. k < unat (mmap_memory ens) div 4096 \<and> (\<exists>en \<in> set ens. usable_page en k)"
    and quiet: "kbd_quiet hw" and kbd: "kbd_inv s" and tick: "unat (tick_counter s) < 10" "schedule_needed s = 0" and rs: "length rs = 10"
  shows "\<exists>t m. start hw img shell n stack_top ret r s = Some t \<and> m \<le> 10 \<and> current_process (timer_ticks (take m rs) t) = 1 \<and>
    state_of (timer_ticks (take m rs) t) 1 = PROCESS_RUNNING"
proof -
  obtain m where m: "start hw img shell n stack_top ret r s = kernel_main hw img shell n (r_eax r) (r_ebx r) (s\<lparr>stack_mem := m\<rparr>)"
    using start_kernel_main by blast
  have "kbd_inv (s\<lparr>stack_mem := m\<rparr>)" using kbd by (simp add: kbd_inv_def)
  then obtain t where t: "kernel_main hw img shell n MULTIBOOT_MAGIC (r_ebx r) (s\<lparr>stack_mem := m\<rparr>) = Some t" "system_inv img t"
      "process_count t = 2" "current_process t = 0" "state_of t 1 = PROCESS_READY" "tick_counter t = tick_counter s" "schedule_needed t = schedule_needed s"
    using kernel_main_system [of mbi "s\<lparr>stack_mem := m\<rparr>" "r_ebx r" ens hw img shell n] loader(2,3) list six quiet by auto
  have inv: "in_slice t" "slot_after t 0 = 1"
    using t(2-4,6,7) tick by (simp_all add: in_slice_def system_inv_def sched_live_def sched_inv_def slot_after_def)
  have slots: "0 < slots_used t" "1 \<noteq> unat (current_process t)" "10 * 0 + (10 - unat (tick_counter t)) \<le> length rs" using t(3,4) rs by simp_all
  from slice_comes [OF inv(1) slots(1) inv(2) slots(2) t(5) slots(3)] obtain i where i: "i \<le> 10 - unat (tick_counter t)"
      "unat (current_process (timer_ticks (take i rs) t)) = 1" "state_of (timer_ticks (take i rs) t) 1 = PROCESS_RUNNING" by auto
  then have "i \<le> 10" "current_process (timer_ticks (take i rs) t) = 1" by (simp_all add: word_unat_eq_iff)
  then show ?thesis using m loader(1) t(1) i(3) by auto
qed

theorem shell_runs_after_boot_witness:
  "\<exists>t m. start blank_hw demo_image 0x104000 0 0x90000 0 (demo_user_regs\<lparr>r_eax := MULTIBOOT_MAGIC, r_ebx := 0x500\<rparr>)
      (demo_vfs\<lparr>ram := demo_boot_ram\<rparr>) = Some t \<and> m \<le> 10 \<and>
    current_process (timer_ticks (take m (replicate 10 (demo_user_regs, demo_user_regs))) t) = 1"
proof -
  let ?r = "demo_user_regs\<lparr>r_eax := MULTIBOOT_MAGIC, r_ebx := 0x500\<rparr>"
  have regs: "r_eax ?r = MULTIBOOT_MAGIC" "mbi_at demo_boot_ram 0x500 = mbi_at (ram (demo_vfs\<lparr>ram := demo_boot_ram\<rparr>)) (r_ebx ?r)" by simp_all
  have "kbd_inv demo_vfs" "unat (tick_counter demo_vfs) < 10" "schedule_needed demo_vfs = 0" by code_simp+
  then have "kbd_inv (demo_vfs\<lparr>ram := demo_boot_ram\<rparr>)" "unat (tick_counter (demo_vfs\<lparr>ram := demo_boot_ram\<rparr>)) < 10"
    "schedule_needed (demo_vfs\<lparr>ram := demo_boot_ram\<rparr>) = 0" by simp_all
  from shell_runs_after_boot [OF regs demo_boot_hyps(2-5) this length_replicate] show ?thesis by blast
qed

text \<open>Without a Multiboot loader the kernel assumes 128 MB and reserves none of it: the first frame the page allocator hands out
  is frame 0, whose address \<open>paging_init\<close> takes for a failure.  The boot goes on with paging off: no page directory is loaded and
  the control register is not written.\<close>

theorem boot_without_multiboot:
  fixes s :: "'a vfs_sys_scheme"
  assumes "magic \<noteq> MULTIBOOT_MAGIC"
  shows "\<exists>b. boot_memory magic mbi_addr s = Some b \<and>
    (let t = paging_init hw (heap_init (pit_init 100 b))
     in kernel_page_directory t = 0 \<and> io_trace t = io_trace (pit_init 100 b))"
proof -
  define b where "b = pmm_init (128 * 1024 * 1024) 0x100000 (con_puts (lit ''[ERROR] Not loaded by multiboot'' @ [ch_nl]) COLOR_LIGHT_RED s)"
  have free: "free_frames (pmm b) = {..<32768}" and inv: "pmm_inv (pmm b)"
    unfolding b_def pmm_init_free by (simp_all add: pmm_init_inv)
  have least: "Min {..<32768 :: nat} = 0" by (rule Min_eqI) simp_all
  have "pmm_alloc_page u = (page_addr 0, u\<lparr>pmm := take_page 0 (pmm b)\<rparr>)" if "pmm u = pmm b" for u :: "'a vfs_sys_scheme"
    using pmm_alloc_page_least [of u] inv least unfolding that free by (simp add: lessThan_empty_iff)
  then have "pmm_alloc_page (con_puts x y (heap_init (pit_init 100 b))) =
      (page_addr 0, (con_puts x y (heap_init (pit_init 100 b)))\<lparr>pmm := take_page 0 (pmm b)\<rparr>)" for x y
    by (simp add: heap_init_def pit_init_def Let_def con_puts_def outb_def emit_def)
  moreover have "page_addr 0 = 0" by (simp add: page_addr_def)
  moreover have "boot_memory magic mbi_addr s = Some b" using assms by (simp add: boot_memory_def b_def)
  ultimately show ?thesis by (simp add: paging_init_def Let_def heap_init_def con_puts_def)
qed

theorem boot_without_multiboot_witness:
  "\<exists>b. boot_memory 0 0 demo_vfs = Some b \<and>
    (let t = paging_init blank_hw (heap_init (pit_init 100 b))
     in kernel_page_directory t = 0 \<and> io_trace t = io_trace (pit_init 100 b))"
  by (rule boot_without_multiboot) simp

end
